(* ===== verification/Prelude.thy ===== *)
theory Prelude
  imports Main "HOL-Library.Sublist"
begin

text \<open>
  Shared vocabulary of the development: Go's fixed-width integer arithmetic, the error values
  that the packages under \<open>internal/\<close> return, the environment in which one operation runs
  (clocks, fresh identifiers, infrastructure faults), and the generic list lemmas that several
  components use.

  Times are instants in nanoseconds since the Unix epoch and durations are nanoseconds, both
  as \<open>int\<close>; one operation reads each of its clocks as one instant.
\<close>

named_theorems go_arith \<open>Go integer arithmetic in range\<close>

section \<open>Fixed-width integers\<close>

text \<open>
  Go's \<open>int\<close> and \<open>int64\<close> are 64-bit two's complement on the platforms the
  Dockerfile builds for, so a result is reduced into \<open>[-2^63, 2^63)\<close>. Division truncates
  towards zero.
\<close>

definition int64 :: "int \<Rightarrow> int" where
  "int64 x = (x + 2 ^ 63) mod 2 ^ 64 - 2 ^ 63"

definition in_int64 :: "int \<Rightarrow> bool" where
  "in_int64 x \<longleftrightarrow> - (2 ^ 63) \<le> x \<and> x < 2 ^ 63"

definition in_int32 :: "int \<Rightarrow> bool" where
  "in_int32 x \<longleftrightarrow> - (2 ^ 31) \<le> x \<and> x < 2 ^ 31"

definition go_div :: "int \<Rightarrow> int \<Rightarrow> int" where
  "go_div a b = sgn a * sgn b * (\<bar>a\<bar> div \<bar>b\<bar>)"

lemma int64_id [go_arith]: "in_int64 x \<Longrightarrow> int64 x = x"
  by (simp add: int64_def in_int64_def)

lemma int64_range: "in_int64 (int64 x)"
proof -
  have "0 \<le> (x + 2 ^ 63) mod 2 ^ 64" and "(x + 2 ^ 63) mod 2 ^ 64 < 2 ^ 64"
    by simp_all
  then show ?thesis
    by (simp add: int64_def in_int64_def)
qed

lemma go_div_nonneg [go_arith]: "0 \<le> a \<Longrightarrow> 0 < b \<Longrightarrow> go_div a b = a div b"
  by (cases "a = 0") (simp_all add: go_div_def)

lemma go_div_neg_le_0: "a < 0 \<Longrightarrow> 0 < b \<Longrightarrow> go_div a b \<le> 0"
  by (simp add: go_div_def pos_imp_zdiv_nonneg_iff)

section \<open>Errors\<close>

text \<open>
  One datatype for Go's \<open>error\<close> interface: the sentinel errors the packages declare with
  \<open>errors.New\<close>, and the classes of error the drivers return that the code distinguishes.
  \<open>NoRows\<close> is \<open>pgx.ErrNoRows\<close>, \<open>UniqueViolation\<close> and \<open>ForeignKeyViolation\<close> are the
  constraint errors of PostgreSQL, \<open>TxAborted\<close> the error of a statement in a transaction
  block that an earlier statement has aborted, \<open>CommitRollback\<close> the error of committing such
  a block, and \<open>SqlFault\<close> any other error of a statement (a lost connection, a cancelled
  context, a malformed identifier). \<open>ErrNotExist\<close> is \<open>os.ErrNotExist\<close>, \<open>FileError\<close> any other error of the
  file system, \<open>HttpError\<close> an error of the HTTP client, and \<open>ErrWrap\<close> an error wrapped by \<open>fmt.Errorf\<close>
  with a text in front.
\<close>

datatype error =
    ErrSaleNotOpen | ErrWaitingRoomFull | ErrNotInQueue
  | ErrSeatUnavailable | ErrHoldNotFound | ErrHoldExpired
  | ErrTicketCapReached | ErrTransferBlocked
  | ErrMsg string
  | NoRows | UniqueViolation | ForeignKeyViolation | TxAborted | CommitRollback | SqlFault
  | RedisError | JwtError | JsonError
  | ErrQueueFull | ErrAlreadyBusy | ErrNotExist | FileError | HttpError
  | ErrWrap string error

type_synonym 'a result = "error + 'a"

text \<open>\<open>errors.Is\<close>, through the errors that wrap another.\<close>

fun errors_is :: "error \<Rightarrow> error \<Rightarrow> bool" where
  "errors_is (ErrWrap s err) target \<longleftrightarrow> ErrWrap s err = target \<or> errors_is err target"
| "errors_is err target \<longleftrightarrow> err = target"

definition is_ok :: "'a result \<Rightarrow> bool" where
  "is_ok r = (case r of Inl _ \<Rightarrow> False | Inr _ \<Rightarrow> True)"

lemma is_ok_simps [simp]: "is_ok (Inr x)" "\<not> is_ok (Inl e)"
  by (simp_all add: is_ok_def)

text \<open>\<open>_ = row.Scan(&v)\<close>: the error is dropped and \<open>v\<close> keeps its zero value.\<close>

definition scan_or :: "'a \<Rightarrow> 'a result \<Rightarrow> 'a" where
  "scan_or z r = (case r of Inl _ \<Rightarrow> z | Inr x \<Rightarrow> x)"

lemma scan_or_simps [simp]: "scan_or z (Inr x) = x" "scan_or z (Inl e) = z"
  by (simp_all add: scan_or_def)

section \<open>The environment of one operation\<close>

text \<open>
  \<open>go_now\<close> is \<open>time.Now()\<close> of the process, \<open>sql_now\<close> the database's \<open>NOW()\<close>,
  \<open>redis_now\<close> the time at which the Redis server executes the operation's commands;
  \<open>sql_fault k\<close> says that the \<open>k\<close>-th SQL statement of the operation (counted from 0 in the
  order of the source) fails for a reason other than a constraint; \<open>new_uuid k\<close> is the
  \<open>k\<close>-th identifier generated during the operation.
\<close>

record env =
  go_now :: int
  sql_now :: int
  redis_now :: int
  sql_fault :: "nat \<Rightarrow> bool"
  new_uuid :: "nat \<Rightarrow> string"

text \<open>An environment in which no statement fails.\<close>

definition no_faults :: "env \<Rightarrow> bool" where
  "no_faults e \<longleftrightarrow> sql_fault e = (\<lambda>_. False)"

lemma no_faultsD [simp]: "no_faults e \<Longrightarrow> sql_fault e k = False"
  by (simp add: no_faults_def)

text \<open>A concrete fault-free environment, for the witnesses.\<close>

definition calm_env :: "int \<Rightarrow> string \<Rightarrow> env" where
  "calm_env t u = \<lparr>go_now = t, sql_now = t, redis_now = t, sql_fault = (\<lambda>_. False),
     new_uuid = (\<lambda>k. u @ replicate k CHR ''x'')\<rparr>"

lemma calm_env_simps [simp]:
  "go_now (calm_env t u) = t" "sql_now (calm_env t u) = t" "redis_now (calm_env t u) = t"
  "sql_fault (calm_env t u) k = False" "new_uuid (calm_env t u) k = u @ replicate k CHR ''x''"
  "no_faults (calm_env t u)"
  by (simp_all add: calm_env_def no_faults_def)

section \<open>Lists\<close>

lemma find_SomeD: "find p xs = Some x \<Longrightarrow> x \<in> set xs \<and> p x"
  by (induction xs) (auto split: if_splits)

lemma find_NoneD: "find p xs = None \<Longrightarrow> x \<in> set xs \<Longrightarrow> \<not> p x"
  by (induction xs) (auto split: if_splits)

lemma find_append: "find p (xs @ ys) = (case find p xs of Some x \<Rightarrow> Some x | None \<Rightarrow> find p ys)"
  by (induction xs) auto

lemma find_map_same:
  "(\<And>x. p (f x) = p x) \<Longrightarrow> find p (map f xs) = map_option f (find p xs)"
  by (induction xs) auto

text \<open>Where at most one element satisfies \<open>p\<close>, \<open>find\<close> returns it.\<close>

lemma find_unique:
  assumes "x \<in> set xs" and "p x" and "\<And>y. y \<in> set xs \<Longrightarrow> p y \<Longrightarrow> y = x"
  shows "find p xs = Some x"
proof (cases "find p xs")
  case None
  then show ?thesis using assms(1,2) find_NoneD by fastforce
next
  case (Some z)
  then show ?thesis using assms(3) find_SomeD by fastforce
qed

lemma distinct_map_inj:
  "distinct (map f xs) \<Longrightarrow> x \<in> set xs \<Longrightarrow> y \<in> set xs \<Longrightarrow> f x = f y \<Longrightarrow> x = y"
  by (auto simp: distinct_map inj_on_def)

lemma filter_update:
  "k < length xs \<Longrightarrow> length (filter P (xs[k := y])) + (if P (xs ! k) then 1 else 0)
     = length (filter P xs) + (if P y then 1 else (0::nat))"
proof (induction xs arbitrary: k)
  case (Cons x xs)
  then show ?case by (cases k) auto
qed simp

lemma prefix_drop_append: "prefix p (p @ s) \<and> drop (length p) (p @ s) = s"
  by simp

section \<open>Operations that keep an invariant\<close>

text \<open>
  An interface: operations on a state that keep an invariant when their calls are valid. Each
  component that changes the database instantiates it; the facts about whole runs come from it.
\<close>

fun run_calls :: "('c \<Rightarrow> 's \<Rightarrow> 's) \<Rightarrow> 'c list \<Rightarrow> 's \<Rightarrow> 's" where
  "run_calls exec [] s = s"
| "run_calls exec (c # cs) s = run_calls exec cs (exec c s)"

fun valid_run :: "('c \<Rightarrow> 's \<Rightarrow> 's) \<Rightarrow> ('c \<Rightarrow> 's \<Rightarrow> bool) \<Rightarrow> 'c list \<Rightarrow> 's \<Rightarrow> bool" where
  "valid_run exec valid [] s = True"
| "valid_run exec valid (c # cs) s \<longleftrightarrow> valid c s \<and> valid_run exec valid cs (exec c s)"

locale keeper =
  fixes exec :: "'c \<Rightarrow> 's \<Rightarrow> 's" and valid :: "'c \<Rightarrow> 's \<Rightarrow> bool" and inv :: "'s \<Rightarrow> bool"
  assumes keep: "inv s \<Longrightarrow> valid c s \<Longrightarrow> inv (exec c s)"
begin

lemma run_keeps: "inv s \<Longrightarrow> valid_run exec valid cs s \<Longrightarrow> inv (run_calls exec cs s)"
  by (induction cs arbitrary: s) (auto intro: keep)

end

end
