(* ===== verification/Schema.thy ===== *)
theory Schema
  imports Prelude
begin

text \<open>
  The PostgreSQL database of \<open>migrations/001_init.sql\<close>: one record per table, the tables as
  lists of rows, and the statements the Go code issues, with the constraints the schema
  declares (primary keys, \<open>UNIQUE\<close>, \<open>REFERENCES\<close>, column ranges) as the errors of the
  statements. \<open>SELECT\<close> is \<open>find\<close> or \<open>filter\<close>, \<open>UPDATE\<close> is \<open>map\<close>. A transaction block
  carries the state it would commit and whether a failed statement has aborted it, in which
  case every later statement fails and \<open>COMMIT\<close> rolls back.
\<close>

section \<open>Tables\<close>

datatype sale_phase = Pre_register | Lottery_draw | Presale | General_sale | Ended

record user_row =
  u_id :: string
  u_email :: string
  u_password_hash :: string
  u_premium_member :: bool
  u_partner_card :: bool
  u_created_at :: int

record event_row =
  ev_id :: string
  ev_name :: string
  ev_venue :: string
  ev_starts_at :: int
  ev_created_at :: int

record sale_row =
  s_id :: string
  s_event_id :: string
  s_phase :: sale_phase
  s_opens_at :: int
  s_ends_at :: int
  s_max_tickets_per_user :: int
  s_waiting_room_cap :: int
  s_admit_per_minute :: int
  s_total_seats :: int
  s_created_at :: int

datatype seat_status = Available | Held | Sold

record seat_row =
  st_id :: string
  st_sale_id :: string
  st_section :: string
  st_row_num :: int
  st_seat_num :: int
  st_status :: seat_status
  st_version :: int

record queue_row =
  q_id :: string
  q_sale_id :: string
  q_user_id :: string
  q_position :: int
  q_joined_at :: int
  q_admitted_at :: "int option"

record prereg_row =
  pr_sale_id :: string
  pr_user_id :: string
  pr_registered_at :: int

record code_row =
  ac_id :: string
  ac_sale_id :: string
  ac_user_id :: string
  ac_code_hash :: string
  ac_used_at :: "int option"
  ac_created_at :: int

text \<open>The \<open>seat_ids JSONB\<close> column: an array of strings, or some other JSON document.\<close>

datatype seat_doc = Seat_Ids "string list" | Other_Json

record hold_row =
  h_id :: string
  h_sale_id :: string
  h_user_id :: string
  h_seat_ids :: seat_doc
  h_idempotency_key :: string
  h_expires_at :: int
  h_created_at :: int

datatype order_status = Pending | Confirmed | Failed

record order_row =
  o_id :: string
  o_sale_id :: string
  o_user_id :: string
  o_hold_id :: "string option"
  o_idempotency_key :: string
  o_status :: order_status
  o_total_cents :: int
  o_created_at :: int

datatype ticket_status = Active | Cancelled

record ticket_row =
  t_id :: string
  t_order_id :: string
  t_sale_id :: string
  t_user_id :: string
  t_seat_id :: string
  t_status :: ticket_status
  t_owner_hash :: string
  t_created_at :: int

record db =
  users :: "user_row list"
  events :: "event_row list"
  sales :: "sale_row list"
  seats :: "seat_row list"
  queue_entries :: "queue_row list"
  pre_registrations :: "prereg_row list"
  access_codes :: "code_row list"
  holds :: "hold_row list"
  orders :: "order_row list"
  tickets :: "ticket_row list"

definition empty_db :: db where
  "empty_db = \<lparr>users = [], events = [], sales = [], seats = [], queue_entries = [],
     pre_registrations = [], access_codes = [], holds = [], orders = [], tickets = []\<rparr>"

text \<open>\<open>json.Unmarshal\<close> of a \<open>seat_ids\<close> document into a \<open>[]string\<close>.\<close>

definition unmarshal_ids :: "seat_doc \<Rightarrow> string list result" where
  "unmarshal_ids j = (case j of Seat_Ids xs \<Rightarrow> Inr xs | Other_Json \<Rightarrow> Inl JsonError)"

lemma unmarshal_marshal_ids [simp]: "unmarshal_ids (Seat_Ids xs) = Inr xs"
  by (simp add: unmarshal_ids_def)

section \<open>Statements\<close>

text \<open>\<open>QueryRow(...).Scan(...)\<close>: the first row, \<open>pgx.ErrNoRows\<close>, or a fault.\<close>

definition query_row :: "bool \<Rightarrow> ('a \<Rightarrow> bool) \<Rightarrow> 'a list \<Rightarrow> 'a result" where
  "query_row flt p rows = (if flt then Inl SqlFault
     else case find p rows of None \<Rightarrow> Inl NoRows | Some r \<Rightarrow> Inr r)"

definition query_count :: "bool \<Rightarrow> ('a \<Rightarrow> bool) \<Rightarrow> 'a list \<Rightarrow> int result" where
  "query_count flt p rows = (if flt then Inl SqlFault else Inr (int (length (filter p rows))))"

definition query_rows :: "bool \<Rightarrow> ('a \<Rightarrow> bool) \<Rightarrow> 'a list \<Rightarrow> 'a list result" where
  "query_rows flt p rows = (if flt then Inl SqlFault else Inr (filter p rows))"

definition update_where :: "('a \<Rightarrow> bool) \<Rightarrow> ('a \<Rightarrow> 'a) \<Rightarrow> 'a list \<Rightarrow> 'a list" where
  "update_where p f rows = map (\<lambda>r. if p r then f r else r) rows"

definition rows_affected :: "('a \<Rightarrow> bool) \<Rightarrow> 'a list \<Rightarrow> nat" where
  "rows_affected p rows = length (filter p rows)"

text \<open>A statement outside a transaction block commits by itself or fails without effect.\<close>

definition exec_stmt :: "bool \<Rightarrow> (db \<Rightarrow> (db \<times> nat) result) \<Rightarrow> db \<Rightarrow> nat result \<times> db" where
  "exec_stmt flt stmt d = (if flt then (Inl SqlFault, d)
     else case stmt d of Inl er \<Rightarrow> (Inl er, d) | Inr (d', n) \<Rightarrow> (Inr n, d'))"

definition has_key :: "('a \<Rightarrow> 'k) \<Rightarrow> 'k \<Rightarrow> 'a list \<Rightarrow> bool" where
  "has_key f k rows = list_ex (\<lambda>r. f r = k) rows"

lemma has_key_iff [simp]: "has_key f k rows \<longleftrightarrow> k \<in> f ` set rows"
  by (auto simp: has_key_def list_ex_iff)

definition insert_user :: "user_row \<Rightarrow> db \<Rightarrow> (db \<times> nat) result" where
  "insert_user r d =
     (if has_key u_id (u_id r) (users d) \<or> has_key u_email (u_email r) (users d)
      then Inl UniqueViolation
      else Inr (d\<lparr>users := users d @ [r]\<rparr>, 1))"

definition insert_event :: "event_row \<Rightarrow> db \<Rightarrow> (db \<times> nat) result" where
  "insert_event r d =
     (if has_key ev_id (ev_id r) (events d) then Inl UniqueViolation
      else Inr (d\<lparr>events := events d @ [r]\<rparr>, 1))"

definition insert_sale :: "sale_row \<Rightarrow> db \<Rightarrow> (db \<times> nat) result" where
  "insert_sale r d =
     (if \<not> (in_int32 (s_total_seats r) \<and> in_int32 (s_admit_per_minute r)
            \<and> in_int32 (s_waiting_room_cap r) \<and> in_int32 (s_max_tickets_per_user r))
      then Inl SqlFault
      else if has_key s_id (s_id r) (sales d) then Inl UniqueViolation
      else if \<not> has_key ev_id (s_event_id r) (events d) then Inl ForeignKeyViolation
      else Inr (d\<lparr>sales := sales d @ [r]\<rparr>, 1))"

text \<open>\<open>ON CONFLICT DO NOTHING\<close>: a row that collides with a unique key is dropped silently.\<close>

definition seat_key :: "seat_row \<Rightarrow> string \<times> string \<times> int \<times> int" where
  "seat_key r = (st_sale_id r, st_section r, st_row_num r, st_seat_num r)"

definition insert_seat_or_nothing :: "seat_row \<Rightarrow> db \<Rightarrow> (db \<times> nat) result" where
  "insert_seat_or_nothing r d =
     (if has_key st_id (st_id r) (seats d) \<or> has_key seat_key (seat_key r) (seats d)
      then Inr (d, 0)
      else if \<not> has_key s_id (st_sale_id r) (sales d) then Inl ForeignKeyViolation
      else Inr (d\<lparr>seats := seats d @ [r]\<rparr>, 1))"

definition insert_queue_entry :: "queue_row \<Rightarrow> db \<Rightarrow> (db \<times> nat) result" where
  "insert_queue_entry r d =
     (if has_key q_id (q_id r) (queue_entries d)
       \<or> has_key (\<lambda>q. (q_sale_id q, q_user_id q)) (q_sale_id r, q_user_id r) (queue_entries d)
       \<or> has_key (\<lambda>q. (q_sale_id q, q_position q)) (q_sale_id r, q_position r) (queue_entries d)
      then Inl UniqueViolation
      else if \<not> (has_key s_id (q_sale_id r) (sales d) \<and> has_key u_id (q_user_id r) (users d))
      then Inl ForeignKeyViolation
      else Inr (d\<lparr>queue_entries := queue_entries d @ [r]\<rparr>, 1))"

definition insert_prereg_or_nothing :: "prereg_row \<Rightarrow> db \<Rightarrow> (db \<times> nat) result" where
  "insert_prereg_or_nothing r d =
     (if has_key (\<lambda>p. (pr_sale_id p, pr_user_id p)) (pr_sale_id r, pr_user_id r) (pre_registrations d)
      then Inr (d, 0)
      else if \<not> (has_key s_id (pr_sale_id r) (sales d) \<and> has_key u_id (pr_user_id r) (users d))
      then Inl ForeignKeyViolation
      else Inr (d\<lparr>pre_registrations := pre_registrations d @ [r]\<rparr>, 1))"

definition insert_code_or_nothing :: "code_row \<Rightarrow> db \<Rightarrow> (db \<times> nat) result" where
  "insert_code_or_nothing r d =
     (if has_key ac_id (ac_id r) (access_codes d) \<or> has_key ac_code_hash (ac_code_hash r) (access_codes d)
      then Inr (d, 0)
      else if \<not> (has_key s_id (ac_sale_id r) (sales d) \<and> has_key u_id (ac_user_id r) (users d))
      then Inl ForeignKeyViolation
      else Inr (d\<lparr>access_codes := access_codes d @ [r]\<rparr>, 1))"

definition insert_hold :: "hold_row \<Rightarrow> db \<Rightarrow> (db \<times> nat) result" where
  "insert_hold r d =
     (if has_key h_id (h_id r) (holds d)
       \<or> has_key (\<lambda>h. (h_sale_id h, h_user_id h, h_idempotency_key h))
           (h_sale_id r, h_user_id r, h_idempotency_key r) (holds d)
      then Inl UniqueViolation
      else if \<not> (has_key s_id (h_sale_id r) (sales d) \<and> has_key u_id (h_user_id r) (users d))
      then Inl ForeignKeyViolation
      else Inr (d\<lparr>holds := holds d @ [r]\<rparr>, 1))"

definition insert_order :: "order_row \<Rightarrow> db \<Rightarrow> (db \<times> nat) result" where
  "insert_order r d =
     (if \<not> in_int32 (o_total_cents r) then Inl SqlFault
      else if has_key o_id (o_id r) (orders d)
       \<or> has_key (\<lambda>x. (o_sale_id x, o_user_id x, o_idempotency_key x))
           (o_sale_id r, o_user_id r, o_idempotency_key r) (orders d)
      then Inl UniqueViolation
      else if \<not> (has_key s_id (o_sale_id r) (sales d) \<and> has_key u_id (o_user_id r) (users d)
              \<and> (case o_hold_id r of None \<Rightarrow> True | Some h \<Rightarrow> has_key h_id h (holds d)))
      then Inl ForeignKeyViolation
      else Inr (d\<lparr>orders := orders d @ [r]\<rparr>, 1))"

definition insert_ticket :: "ticket_row \<Rightarrow> db \<Rightarrow> (db \<times> nat) result" where
  "insert_ticket r d =
     (if has_key t_id (t_id r) (tickets d) \<or> has_key t_seat_id (t_seat_id r) (tickets d)
      then Inl UniqueViolation
      else if \<not> (has_key o_id (t_order_id r) (orders d) \<and> has_key s_id (t_sale_id r) (sales d)
              \<and> has_key u_id (t_user_id r) (users d) \<and> has_key st_id (t_seat_id r) (seats d))
      then Inl ForeignKeyViolation
      else Inr (d\<lparr>tickets := tickets d @ [r]\<rparr>, 1))"

text \<open>
  \<open>DELETE FROM holds WHERE id = $1\<close>. The column \<open>orders.hold_id\<close> references \<open>holds(id)\<close>
  with no \<open>ON DELETE\<close> action, so a hold that an order names cannot be deleted.
\<close>

definition delete_hold :: "string \<Rightarrow> db \<Rightarrow> (db \<times> nat) result" where
  "delete_hold hid d =
     (if has_key h_id hid (holds d) \<and> has_key o_hold_id (Some hid) (orders d)
      then Inl ForeignKeyViolation
      else Inr (d\<lparr>holds := filter (\<lambda>h. h_id h \<noteq> hid) (holds d)\<rparr>,
                rows_affected (\<lambda>h. h_id h = hid) (holds d)))"

definition update_seats :: "(seat_row \<Rightarrow> bool) \<Rightarrow> seat_status \<Rightarrow> db \<Rightarrow> (db \<times> nat) result" where
  "update_seats p st d =
     Inr (d\<lparr>seats := update_where p
              (\<lambda>r. r\<lparr>st_status := st, st_version := st_version r + 1\<rparr>) (seats d)\<rparr>,
          rows_affected p (seats d))"

section \<open>Transaction blocks\<close>

record tx =
  tx_db :: db
  tx_aborted :: bool

definition begin_tx :: "db \<Rightarrow> tx" where
  "begin_tx d = \<lparr>tx_db = d, tx_aborted = False\<rparr>"

definition tx_exec :: "bool \<Rightarrow> (db \<Rightarrow> (db \<times> nat) result) \<Rightarrow> tx \<Rightarrow> nat result \<times> tx" where
  "tx_exec flt stmt t =
     (if tx_aborted t then (Inl TxAborted, t)
      else if flt then (Inl SqlFault, t\<lparr>tx_aborted := True\<rparr>)
      else case stmt (tx_db t) of
             Inl er \<Rightarrow> (Inl er, t\<lparr>tx_aborted := True\<rparr>)
           | Inr (d', n) \<Rightarrow> (Inr n, t\<lparr>tx_db := d'\<rparr>))"

text \<open>\<open>COMMIT\<close>, given the state before the block.\<close>

definition tx_commit :: "bool \<Rightarrow> tx \<Rightarrow> db \<Rightarrow> unit result \<times> db" where
  "tx_commit flt t d0 =
     (if flt then (Inl SqlFault, d0)
      else if tx_aborted t then (Inl CommitRollback, d0)
      else (Inr (), tx_db t))"

text \<open>A committed block ran on a state that no statement aborted.\<close>

lemma tx_commit_cases:
  assumes "tx_commit flt t d0 = (r, d')"
  obtains (committed) "r = Inr ()" "d' = tx_db t" "\<not> tx_aborted t" "\<not> flt"
  | (rolled_back) er where "r = Inl er" "d' = d0" "flt \<or> tx_aborted t"
  using assms by (auto simp: tx_commit_def split: if_splits)

lemma tx_exec_aborted [simp]:
  "tx_aborted t \<Longrightarrow> tx_exec flt stmt t = (Inl TxAborted, t)"
  by (simp add: tx_exec_def)

lemma tx_exec_ok:
  assumes "tx_exec flt stmt t = (Inr n, t')"
  shows "\<not> tx_aborted t" and "\<not> flt" and "stmt (tx_db t) = Inr (tx_db t', n)" and "\<not> tx_aborted t'"
  using assms by (auto simp: tx_exec_def split: if_splits sum.splits)

lemma tx_exec_error: "tx_exec flt stmt t = (Inl er, t') \<Longrightarrow> tx_aborted t'"
  by (auto simp: tx_exec_def split: if_splits sum.splits)

section \<open>Updates and the other columns\<close>

lemma update_where_simps [simp]:
  "update_where p f [] = []"
  "update_where p f (r # rs) = (if p r then f r else r) # update_where p f rs"
  by (simp_all add: update_where_def)

lemma map_update_where [simp]:
  "(\<And>r. g (f r) = g r) \<Longrightarrow> map g (update_where p f rows) = map g rows"
  by (induction rows) auto

lemma image_update_where [simp]:
  "(\<And>r. g (f r) = g r) \<Longrightarrow> g ` set (update_where p f rows) = g ` set rows"
  by (metis map_update_where set_map)

lemma set_update_where: "set (update_where p f rows) = (\<lambda>r. if p r then f r else r) ` set rows"
  by (simp add: update_where_def)

lemma rows_affected_0: "rows_affected p rows = 0 \<longleftrightarrow> (\<forall>r\<in>set rows. \<not> p r)"
  by (simp add: rows_affected_def filter_empty_conv)

lemmas stmt_defs = insert_user_def insert_event_def insert_sale_def insert_seat_or_nothing_def
  insert_queue_entry_def insert_prereg_or_nothing_def insert_code_or_nothing_def
  insert_hold_def insert_order_def insert_ticket_def delete_hold_def update_seats_def

end
