(* ===== verification/Redis.thy ===== *)
theory Redis
  imports Prelude
begin

text \<open>
  The Redis server behind \<open>go-redis\<close>. It is not code of the repository, so it is a parameter:
  a record of the five commands the code issues, over an unknown server state \<open>'r\<close>, and the
  locale \<open>redis_server\<close> with the documented meaning of each command. The key names of
  \<open>internal/redisclient/redis.go\<close> are translated. An in-memory server discharges the laws.
\<close>

section \<open>The client interface\<close>

text \<open>
  Each command takes the server's time, its arguments and the server's state. \<open>Get\<close> answers
  \<open>None\<close> for \<open>redis.Nil\<close>; an \<open>Inl\<close> is any error of the command.
\<close>

record 'r redis_api =
  r_get :: "int \<Rightarrow> string \<Rightarrow> 'r \<Rightarrow> int option result"
  r_incr :: "int \<Rightarrow> string \<Rightarrow> 'r \<Rightarrow> int result \<times> 'r"
  r_incrby :: "int \<Rightarrow> string \<Rightarrow> int \<Rightarrow> 'r \<Rightarrow> int result \<times> 'r"
  r_expire :: "int \<Rightarrow> string \<Rightarrow> int \<Rightarrow> 'r \<Rightarrow> bool result \<times> 'r"
  r_setnx :: "int \<Rightarrow> string \<Rightarrow> int \<Rightarrow> int \<Rightarrow> 'r \<Rightarrow> bool result \<times> 'r"

section \<open>The documented meaning of the commands\<close>

text \<open>A keyspace maps a key to its integer value and the time it expires, if it does.\<close>

type_synonym keyspace = "string \<Rightarrow> (int \<times> int option) option"

definition live :: "int \<Rightarrow> keyspace \<Rightarrow> string \<Rightarrow> int option" where
  "live t m k = (case m k of None \<Rightarrow> None
     | Some (v, None) \<Rightarrow> Some v
     | Some (v, Some x) \<Rightarrow> if t < x then Some v else None)"

definition live_ttl :: "int \<Rightarrow> keyspace \<Rightarrow> string \<Rightarrow> int option" where
  "live_ttl t m k = (if live t m k = None then None else snd (the (m k)))"

definition spec_incrby :: "int \<Rightarrow> string \<Rightarrow> int \<Rightarrow> keyspace \<Rightarrow> int \<times> keyspace" where
  "spec_incrby t k n m =
     (let v = (case live t m k of None \<Rightarrow> 0 | Some x \<Rightarrow> x) + n
      in (v, m(k \<mapsto> (v, live_ttl t m k))))"

definition spec_expire :: "int \<Rightarrow> string \<Rightarrow> int \<Rightarrow> keyspace \<Rightarrow> bool \<times> keyspace" where
  "spec_expire t k w m = (case live t m k of None \<Rightarrow> (False, m)
     | Some v \<Rightarrow> (True, m(k \<mapsto> (v, Some (t + w)))))"

definition spec_setnx :: "int \<Rightarrow> string \<Rightarrow> int \<Rightarrow> int \<Rightarrow> keyspace \<Rightarrow> bool \<times> keyspace" where
  "spec_setnx t k v w m = (case live t m k of Some _ \<Rightarrow> (False, m)
     | None \<Rightarrow> (True, m(k \<mapsto> (v, if 0 < w then Some (t + w) else None))))"

text \<open>
  A command that reports success has the documented effect; a command that reports an error has
  either had no effect or the documented one (the reply can be lost after the server ran it).
\<close>

locale redis_server =
  fixes R :: "'r redis_api" and alpha :: "'r \<Rightarrow> keyspace"
  assumes get_law: "r_get R t k s = Inr v \<Longrightarrow> v = live t (alpha s) k"
    and incr_law: "r_incr R t k s = (Inr n, s') \<Longrightarrow> spec_incrby t k 1 (alpha s) = (n, alpha s')"
    and incr_err: "r_incr R t k s = (Inl er, s') \<Longrightarrow>
      alpha s' = alpha s \<or> alpha s' = snd (spec_incrby t k 1 (alpha s))"
    and incrby_law: "r_incrby R t k i s = (Inr n, s') \<Longrightarrow> spec_incrby t k i (alpha s) = (n, alpha s')"
    and incrby_err: "r_incrby R t k i s = (Inl er, s') \<Longrightarrow>
      alpha s' = alpha s \<or> alpha s' = snd (spec_incrby t k i (alpha s))"
    and expire_law: "r_expire R t k w s = (Inr b, s') \<Longrightarrow> spec_expire t k w (alpha s) = (b, alpha s')"
    and expire_err: "r_expire R t k w s = (Inl er, s') \<Longrightarrow>
      alpha s' = alpha s \<or> alpha s' = snd (spec_expire t k w (alpha s))"
    and setnx_law: "r_setnx R t k x w s = (Inr b, s') \<Longrightarrow> spec_setnx t k x w (alpha s) = (b, alpha s')"
    and setnx_err: "r_setnx R t k x w s = (Inl er, s') \<Longrightarrow>
      alpha s' = alpha s \<or> alpha s' = snd (spec_setnx t k x w (alpha s))"

text \<open>A server whose every command succeeds.\<close>

locale redis_reliable = redis_server +
  assumes get_ok: "is_ok (r_get R t k s)"
    and incr_ok: "is_ok (fst (r_incr R t k s))"
    and incrby_ok: "is_ok (fst (r_incrby R t k i s))"
    and expire_ok: "is_ok (fst (r_expire R t k w s))"
    and setnx_ok: "is_ok (fst (r_setnx R t k x w s))"

section \<open>Counters that do not expire\<close>

definition persistent :: "keyspace \<Rightarrow> string \<Rightarrow> bool" where
  "persistent m k \<longleftrightarrow> (case m k of None \<Rightarrow> True | Some (_, x) \<Rightarrow> x = None)"

definition counter :: "keyspace \<Rightarrow> string \<Rightarrow> int" where
  "counter m k = (case m k of None \<Rightarrow> 0 | Some (v, _) \<Rightarrow> v)"

lemma live_persistent: "persistent m k \<Longrightarrow> live t m k = map_option fst (m k)"
  by (auto simp: persistent_def live_def split: option.splits)

lemma live_counter:
  "persistent m k \<Longrightarrow> (case live t m k of None \<Rightarrow> 0 | Some x \<Rightarrow> x) = counter m k"
  by (auto simp: live_persistent counter_def split: option.splits)

lemma spec_incrby_other [simp]: "k' \<noteq> k \<Longrightarrow> snd (spec_incrby t k n m) k' = m k'"
  by (simp add: spec_incrby_def Let_def)

lemma spec_expire_other [simp]: "k' \<noteq> k \<Longrightarrow> snd (spec_expire t k w m) k' = m k'"
  by (simp add: spec_expire_def split: option.splits)

lemma spec_setnx_other [simp]: "k' \<noteq> k \<Longrightarrow> snd (spec_setnx t k v w m) k' = m k'"
  by (simp add: spec_setnx_def split: option.splits)

lemma spec_incrby_counter:
  assumes "persistent m k"
  shows "fst (spec_incrby t k n m) = counter m k + n"
    and "counter (snd (spec_incrby t k n m)) k = counter m k + n"
    and "persistent (snd (spec_incrby t k n m)) k"
  using assms
  by (auto simp: spec_incrby_def Let_def counter_def persistent_def live_def live_ttl_def
      split: option.splits)

context redis_server begin

lemma incr_counter:
  assumes "r_incr R t k s = (Inr n, s')" and "persistent (alpha s) k"
  shows "n = counter (alpha s) k + 1" and "counter (alpha s') k = n" and "persistent (alpha s') k"
  using spec_incrby_counter[OF assms(2), of t 1] incr_law[OF assms(1)] by simp_all

lemma incr_frame: "r_incr R t k s = (r, s') \<Longrightarrow> k' \<noteq> k \<Longrightarrow> alpha s' k' = alpha s k'"
  using spec_incrby_other[of k' k t 1 "alpha s"] incr_law[of t k s _ s'] incr_err[of t k s _ s']
  by (cases r) (auto simp del: spec_incrby_other)

lemma incr_err_counter:
  assumes "r_incr R t k s = (Inl er, s')" and "persistent (alpha s) k"
  shows "persistent (alpha s') k"
    and "counter (alpha s') k = counter (alpha s) k \<or> counter (alpha s') k = counter (alpha s) k + 1"
  using spec_incrby_counter[OF assms(2), of t 1] incr_err[OF assms(1)] assms(2) by auto

lemma incrby_counter:
  assumes "r_incrby R t k i s = (Inr n, s')" and "persistent (alpha s) k"
  shows "n = counter (alpha s) k + i" and "counter (alpha s') k = n" and "persistent (alpha s') k"
  using spec_incrby_counter[OF assms(2), of t i] incrby_law[OF assms(1)] by simp_all

lemma incrby_frame: "r_incrby R t k i s = (r, s') \<Longrightarrow> k' \<noteq> k \<Longrightarrow> alpha s' k' = alpha s k'"
  using spec_incrby_other[of k' k t i "alpha s"] incrby_law[of t k i s _ s'] incrby_err[of t k i s _ s']
  by (cases r) (auto simp del: spec_incrby_other)

lemma get_counter:
  "r_get R t k s = Inr v \<Longrightarrow> persistent (alpha s) k \<Longrightarrow>
     (case v of None \<Rightarrow> 0 | Some x \<Rightarrow> x) = counter (alpha s) k"
  by (auto dest!: get_law simp: live_counter)

text \<open>\<open>SETNX\<close> succeeds at most once while the key lives.\<close>

lemma setnx_once:
  assumes "r_setnx R t k v w s = (Inr True, s')" and "0 < w" and "t' < t + w"
    and "r_setnx R t' k v' w' s' = (Inr b, s'')"
  shows "\<not> b"
proof -
  from setnx_law[OF assms(1)] assms(2) have "alpha s' k = Some (v, Some (t + w))"
    by (auto simp: spec_setnx_def split: option.splits dest: fun_cong[of _ _ k])
  with assms(3) have "live t' (alpha s') k = Some v"
    by (simp add: live_def)
  with setnx_law[OF assms(4)] show ?thesis
    by (simp add: spec_setnx_def)
qed

end

section \<open>Key names\<close>

record redis_keys =
  QueueSeq :: string
  NextAdmit :: string
  AdmitRate :: string

definition Keys :: "string \<Rightarrow> redis_keys" where
  "Keys saleID = (let prefix = ''sale:'' @ saleID in
     \<lparr>QueueSeq = prefix @ '':queue_seq'',
      NextAdmit = prefix @ '':next_admit'',
      AdmitRate = prefix @ '':admit_tokens''\<rparr>)"

lemma append_last_neq: "u \<noteq> [] \<Longrightarrow> v \<noteq> [] \<Longrightarrow> last u \<noteq> last v \<Longrightarrow> xs @ u \<noteq> ys @ v"
  by (metis last_appendR)

lemma QueueSeq_inj [simp]: "QueueSeq (Keys a) = QueueSeq (Keys b) \<longleftrightarrow> a = b"
  by (simp add: Keys_def Let_def)

lemma NextAdmit_inj [simp]: "NextAdmit (Keys a) = NextAdmit (Keys b) \<longleftrightarrow> a = b"
  by (simp add: Keys_def Let_def)

lemma QueueSeq_NextAdmit [simp]:
  "QueueSeq (Keys a) \<noteq> NextAdmit (Keys b)" "NextAdmit (Keys b) \<noteq> QueueSeq (Keys a)"
  using append_last_neq[of "'':queue_seq''" "'':next_admit''" a b]
  by (auto simp: Keys_def Let_def)

section \<open>An in-memory server\<close>

text \<open>The server whose state is the keyspace itself and whose commands never fail.\<close>

definition mem_redis :: "keyspace redis_api" where
  "mem_redis = \<lparr>r_get = (\<lambda>t k m. Inr (live t m k)),
     r_incr = (\<lambda>t k m. apfst Inr (spec_incrby t k 1 m)),
     r_incrby = (\<lambda>t k i m. apfst Inr (spec_incrby t k i m)),
     r_expire = (\<lambda>t k w m. apfst Inr (spec_expire t k w m)),
     r_setnx = (\<lambda>t k v w m. apfst Inr (spec_setnx t k v w m))\<rparr>"

lemma mem_redis_simps [simp]:
  "r_get mem_redis t k m = Inr (live t m k)"
  "r_incr mem_redis t k m = apfst Inr (spec_incrby t k 1 m)"
  "r_incrby mem_redis t k i m = apfst Inr (spec_incrby t k i m)"
  "r_expire mem_redis t k w m = apfst Inr (spec_expire t k w m)"
  "r_setnx mem_redis t k v w m = apfst Inr (spec_setnx t k v w m)"
  by (simp_all add: mem_redis_def)

interpretation mem: redis_reliable mem_redis "\<lambda>m. m"
  by unfold_locales (auto simp: apfst_def map_prod_def split: prod.splits)

lemmas mem_redis_server = mem.redis_server_axioms

lemmas redis_eval = live_def live_ttl_def spec_incrby_def spec_expire_def spec_setnx_def Let_def

end
