(* ===== verification/World.thy ===== *)
theory World
  imports Schema Redis
begin

text \<open>
  The state the API process and the worker share: the database, the Redis server and the
  Prometheus collectors of \<open>internal/metrics/metrics.go\<close>. A collector is modelled by the
  log of the operations on it, newest last.
\<close>

section \<open>Metrics\<close>

datatype metric =
    QueueJoins string string      \<comment> \<open>\<open>traffic_queue_joins_total{sale_id,result}\<close>, \<open>Inc\<close>\<close>
  | QueueDepth string int         \<comment> \<open>\<open>traffic_queue_depth{sale_id}\<close>, \<open>Set\<close>\<close>
  | Admissions string             \<comment> \<open>\<open>traffic_admissions_total{sale_id}\<close>, \<open>Inc\<close>\<close>
  | Checkouts string string       \<comment> \<open>\<open>traffic_checkouts_total{sale_id,result}\<close>, \<open>Inc\<close>\<close>

section \<open>The shared state\<close>

record 'r world =
  dbs :: db
  redis :: 'r
  metrics :: "metric list"

definition emit :: "metric \<Rightarrow> 'r world \<Rightarrow> 'r world" where
  "emit m w = w\<lparr>metrics := metrics w @ [m]\<rparr>"

lemma emit_simps [simp]:
  "dbs (emit m w) = dbs w" "redis (emit m w) = redis w" "metrics (emit m w) = metrics w @ [m]"
  by (simp_all add: emit_def)

definition count_metric :: "metric \<Rightarrow> 'r world \<Rightarrow> nat" where
  "count_metric m w = count_list (metrics w) m"

lemma count_metric_emit [simp]:
  "count_metric m (emit m' w) = count_metric m w + (if m' = m then 1 else 0)"
  by (simp add: count_metric_def count_list_append)

section \<open>A small concrete state, for the witnesses\<close>

definition demo_user :: "string \<Rightarrow> user_row" where
  "demo_user u = \<lparr>u_id = u, u_email = u @ ''@load.test'', u_password_hash = ''h'',
     u_premium_member = False, u_partner_card = False, u_created_at = 0\<rparr>"

definition demo_sale :: "string \<Rightarrow> sale_row" where
  "demo_sale s = \<lparr>s_id = s, s_event_id = ''ev'', s_phase = General_sale, s_opens_at = 100,
     s_ends_at = 10 ^ 15, s_max_tickets_per_user = 4, s_waiting_room_cap = 2,
     s_admit_per_minute = 60, s_total_seats = 2, s_created_at = 0\<rparr>"

definition demo_seat :: "string \<Rightarrow> int \<Rightarrow> seat_row" where
  "demo_seat i n = \<lparr>st_id = i, st_sale_id = ''A'', st_section = ''GA'', st_row_num = 1,
     st_seat_num = n, st_status = Available, st_version = 0\<rparr>"

definition demo_db :: db where
  "demo_db = empty_db\<lparr>users := [demo_user ''u1'', demo_user ''u2''],
     events := [\<lparr>ev_id = ''ev'', ev_name = ''Live Demo Concert'', ev_venue = ''Arena'',
       ev_starts_at = 0, ev_created_at = 0\<rparr>],
     sales := [demo_sale ''A'', demo_sale ''B''],
     seats := [demo_seat ''s1'' 1, demo_seat ''s2'' 2]\<rparr>"

definition demo_world :: "keyspace world" where
  "demo_world = \<lparr>dbs = demo_db, redis = Map.empty, metrics = []\<rparr>"

lemmas demo_defs = demo_world_def demo_db_def demo_seat_def demo_sale_def demo_user_def empty_db_def

end
