(* ===== verification/Waitingroom.thy ===== *)
theory Waitingroom
  imports World
begin

text \<open>
  \<open>internal/waitingroom/service.go\<close>: the server-side queue. \<open>Join\<close>, \<open>Status\<close> and
  \<open>AdvanceAdmission\<close> are translated statement by statement; the numbers passed to
  \<open>sql_fault\<close> count the SQL statements of each method in source order. The admission token
  comes from the parameter \<open>issue\<close>, instantiated by \<open>IssueAdmissionToken\<close> of theory \<open>Auth\<close>.
\<close>

section \<open>Sale information\<close>

record saleInfo =
  Phase :: sale_phase
  OpensAt :: int
  AdmitPerMinute :: int
  WaitingRoomCap :: int

definition getSale :: "bool \<Rightarrow> string \<Rightarrow> db \<Rightarrow> saleInfo result" where
  "getSale flt saleID d = (case query_row flt (\<lambda>s. s_id s = saleID) (sales d) of
     Inl er \<Rightarrow> Inl er
   | Inr s \<Rightarrow> Inr \<lparr>Phase = s_phase s, OpensAt = s_opens_at s,
       AdmitPerMinute = s_admit_per_minute s, WaitingRoomCap = s_waiting_room_cap s\<rparr>)"

definition saleOpenForQueue :: "int \<Rightarrow> saleInfo \<Rightarrow> bool" where
  "saleOpenForQueue now info =
     (if now < OpensAt info then False
      else Phase info = General_sale \<or> Phase info = Presale)"

section \<open>Join\<close>

text \<open>\<open>SELECT position FROM queue_entries WHERE sale_id = $1 AND user_id = $2\<close>\<close>

definition select_position :: "bool \<Rightarrow> string \<Rightarrow> string \<Rightarrow> db \<Rightarrow> int result" where
  "select_position flt saleID userID d =
     (case query_row flt (\<lambda>q. q_sale_id q = saleID \<and> q_user_id q = userID) (queue_entries d) of
        Inl er \<Rightarrow> Inl er | Inr q \<Rightarrow> Inr (q_position q))"

definition new_queue_row :: "env \<Rightarrow> string \<Rightarrow> string \<Rightarrow> int \<Rightarrow> queue_row" where
  "new_queue_row e saleID userID position =
     \<lparr>q_id = new_uuid e 0, q_sale_id = saleID, q_user_id = userID, q_position = position,
      q_joined_at = sql_now e, q_admitted_at = None\<rparr>"

text \<open>The capacity check: an absent counter (\<open>redis.Nil\<close>) passes.\<close>

definition room_full :: "saleInfo \<Rightarrow> int option \<Rightarrow> bool" where
  "room_full info currentLen =
     (case currentLen of None \<Rightarrow> False | Some n \<Rightarrow> WaitingRoomCap info \<le> n)"

text \<open>
  The end of \<open>Join\<close>, once a position is drawn: the \<open>INSERT\<close>, and on its failure the second
  look at the table.
\<close>

definition join_insert ::
  "env \<Rightarrow> string \<Rightarrow> string \<Rightarrow> int \<Rightarrow> 'r world \<Rightarrow> (int \<times> bool) result \<times> 'r world" where
  "join_insert e saleID userID position w =
    (case exec_stmt (sql_fault e 2)
            (insert_queue_entry (new_queue_row e saleID userID position)) (dbs w) of
       (Inl err, d) \<Rightarrow>
         (case select_position (sql_fault e 3) saleID userID d of
            Inr existing \<Rightarrow> (Inr (existing, False), w\<lparr>dbs := d\<rparr>)
          | Inl _ \<Rightarrow> (Inl err, w\<lparr>dbs := d\<rparr>))
     | (Inr _, d) \<Rightarrow>
         (Inr (position, True),
          emit (QueueDepth saleID position)
            (emit (QueueJoins saleID ''new'') (w\<lparr>dbs := d\<rparr>))))"

definition Join ::
  "'r redis_api \<Rightarrow> env \<Rightarrow> string \<Rightarrow> string \<Rightarrow> 'r world \<Rightarrow> (int \<times> bool) result \<times> 'r world" where
  "Join R e saleID userID w =
    (case getSale (sql_fault e 0) saleID (dbs w) of
       Inl err \<Rightarrow> (Inl err, w)
     | Inr info \<Rightarrow>
       if \<not> saleOpenForQueue (go_now e) info
       then (Inl ErrSaleNotOpen, emit (QueueJoins saleID ''rejected_closed'') w)
       else case select_position (sql_fault e 1) saleID userID (dbs w) of
         Inr existing \<Rightarrow> (Inr (existing, False), emit (QueueJoins saleID ''idempotent'') w)
       | Inl err \<Rightarrow>
         if err \<noteq> NoRows then (Inl err, w)
         else case r_get R (redis_now e) (QueueSeq (Keys saleID)) (redis w) of
           Inl err \<Rightarrow> (Inl err, w)
         | Inr currentLen \<Rightarrow>
           if room_full info currentLen
           then (Inl ErrWaitingRoomFull, emit (QueueJoins saleID ''rejected_full'') w)
           else case r_incr R (redis_now e) (QueueSeq (Keys saleID)) (redis w) of
             (Inl err, rd) \<Rightarrow> (Inl err, w\<lparr>redis := rd\<rparr>)
           | (Inr position, rd) \<Rightarrow> join_insert e saleID userID position (w\<lparr>redis := rd\<rparr>))"

section \<open>Status and admission\<close>

record queue_status =
  Position :: int
  AheadCount :: int
  EstimatedWaitSec :: int
  Admitted :: bool
  AdmissionToken :: string
  RetryAfterMs :: int
  Message :: string

definition effectiveAdmitPosition :: "int \<Rightarrow> int" where
  "effectiveAdmitPosition position = position"

text \<open>The last two lines of the file: \<open>func max(a, b int) int\<close>.\<close>

definition max_int :: "int \<Rightarrow> int \<Rightarrow> int" where
  "max_int a b = (if a > b then a else b)"

text \<open>
  The fields of the answer before a token is attached: \<open>ahead\<close> is clamped at 0 and the wait is
  computed in \<open>int64\<close> arithmetic.
\<close>

definition status_fields :: "int \<Rightarrow> int \<Rightarrow> int option \<Rightarrow> int \<Rightarrow> queue_status" where
  "status_fields position nextAdmit admittedAt admitPerMinute =
     (let effectivePos = effectiveAdmitPosition position;
          ahead0 = int64 (effectivePos - nextAdmit);
          ahead = (if ahead0 < 0 then 0 else ahead0)
      in \<lparr>Position = position, AheadCount = ahead,
          EstimatedWaitSec = go_div (int64 (ahead * 60)) (max_int admitPerMinute 1),
          Admitted = (admittedAt \<noteq> None \<or> effectivePos \<le> nextAdmit),
          AdmissionToken = [], RetryAfterMs = 3000,
          Message = ''Refreshing does not change your place in line.''\<rparr>)"

definition mark_admitted :: "int \<Rightarrow> string \<Rightarrow> string \<Rightarrow> db \<Rightarrow> (db \<times> nat) result" where
  "mark_admitted now saleID userID d =
     (let p = (\<lambda>q. q_sale_id q = saleID \<and> q_user_id q = userID \<and> q_admitted_at q = None)
      in Inr (d\<lparr>queue_entries := update_where p (\<lambda>q. q\<lparr>q_admitted_at := Some now\<rparr>) (queue_entries d)\<rparr>,
              rows_affected p (queue_entries d)))"

text \<open>
  \<open>issue userID saleID jti\<close> is \<open>auth.IssueAdmissionToken\<close> with the service's secret and the
  configured lifetime.
\<close>

definition Status ::
  "'r redis_api \<Rightarrow> (string \<Rightarrow> string \<Rightarrow> string \<Rightarrow> string result) \<Rightarrow> env \<Rightarrow> string \<Rightarrow> string \<Rightarrow>
     'r world \<Rightarrow> queue_status result \<times> 'r world" where
  "Status R issue e saleID userID w =
    (case query_row (sql_fault e 0) (\<lambda>q. q_sale_id q = saleID \<and> q_user_id q = userID)
            (queue_entries (dbs w)) of
       Inl err \<Rightarrow> (Inl (if err = NoRows then ErrNotInQueue else err), w)
     | Inr q \<Rightarrow>
       case getSale (sql_fault e 1) saleID (dbs w) of
         Inl err \<Rightarrow> (Inl err, w)
       | Inr info \<Rightarrow>
         case r_get R (redis_now e) (NextAdmit (Keys saleID)) (redis w) of
           Inl err \<Rightarrow> (Inl err, w)
         | Inr nx \<Rightarrow>
           let nextAdmit = (case nx of None \<Rightarrow> 0 | Some n \<Rightarrow> n);
               st = status_fields (q_position q) nextAdmit (q_admitted_at q) (AdmitPerMinute info)
           in if \<not> Admitted st then (Inr st, w)
              else let w' = (if q_admitted_at q = None
                             then emit (Admissions saleID)
                                    (w\<lparr>dbs := snd (exec_stmt (sql_fault e 2)
                                        (mark_admitted (sql_now e) saleID userID) (dbs w))\<rparr>)
                             else w)
                   in case issue userID saleID (new_uuid e 0) of
                        Inl err \<Rightarrow> (Inl err, w')
                      | Inr token \<Rightarrow> (Inr (st\<lparr>AdmissionToken := token\<rparr>), w'))"

text \<open>\<open>AdvanceAdmission\<close>, called by the worker.\<close>

definition AdvanceAdmission ::
  "'r redis_api \<Rightarrow> env \<Rightarrow> string \<Rightarrow> int \<Rightarrow> 'r world \<Rightarrow> unit result \<times> 'r world" where
  "AdvanceAdmission R e saleID count w =
    (case r_incrby R (redis_now e) (NextAdmit (Keys saleID)) count (redis w) of
       (Inl err, rd) \<Rightarrow> (Inl err, w\<lparr>redis := rd\<rparr>)
     | (Inr _, rd) \<Rightarrow> (Inr (), w\<lparr>redis := rd\<rparr>))"

text \<open>\<open>QueueEntriesForAssert\<close>: the entries of a sale by ascending position.\<close>

record queue_entry =
  UserID :: string
  EntryPosition :: int
  JoinedAt :: int

definition QueueEntriesForAssert :: "bool \<Rightarrow> string \<Rightarrow> db \<Rightarrow> queue_entry list result" where
  "QueueEntriesForAssert flt saleID d =
     (case query_rows flt (\<lambda>q. q_sale_id q = saleID) (queue_entries d) of
        Inl err \<Rightarrow> Inl err
      | Inr rows \<Rightarrow> Inr (map (\<lambda>q. \<lparr>UserID = q_user_id q, EntryPosition = q_position q,
                                   JoinedAt = q_joined_at q\<rparr>)
                          (sort_key q_position rows)))"

section \<open>Case analysis of \<open>Join\<close>\<close>

text \<open>
  Every branch of \<open>Join\<close>, with what it returns and what it leaves behind. The lemmas below
  are case splits over this rule.
\<close>

lemma select_position_cases:
  assumes "select_position flt s u d = r"
  obtains (found) q where "r = Inr (q_position q)" "q \<in> set (queue_entries d)" "q_sale_id q = s"
      "q_user_id q = u" "\<not> flt"
  | (absent) "r = Inl NoRows" "\<not> flt"
      "\<And>q. q \<in> set (queue_entries d) \<Longrightarrow> \<not> (q_sale_id q = s \<and> q_user_id q = u)"
  | (fault) "r = Inl SqlFault" flt
  using assms
  by (auto simp: select_position_def query_row_def split: if_splits option.splits
      dest: find_SomeD find_NoneD)

lemma select_position_NoRows:
  "select_position flt s u d = Inl NoRows \<Longrightarrow>
     \<forall>q\<in>set (queue_entries d). q_sale_id q = s \<longrightarrow> q_user_id q \<noteq> u"
  by (auto simp: select_position_def query_row_def split: if_splits option.splits dest: find_NoneD)

lemma select_position_Inr:
  "select_position flt s u d = Inr p \<Longrightarrow>
     \<exists>q\<in>set (queue_entries d). q_sale_id q = s \<and> q_user_id q = u \<and> q_position q = p"
  by (auto elim!: select_position_cases[of flt s u d "Inr p"])

lemma getSale_Inr:
  "getSale flt s d = Inr info \<Longrightarrow> \<exists>r\<in>set (sales d). s_id r = s \<and> Phase info = s_phase r
     \<and> OpensAt info = s_opens_at r \<and> AdmitPerMinute info = s_admit_per_minute r
     \<and> WaitingRoomCap info = s_waiting_room_cap r"
  by (fastforce simp: getSale_def query_row_def split: if_splits option.splits sum.splits
      dest: find_SomeD)

lemma exec_stmt_cases:
  assumes "exec_stmt flt stmt d = (r, d')"
  obtains (executed) n where "r = Inr n" "stmt d = Inr (d', n)" "\<not> flt"
  | (failed) er where "r = Inl er" "d' = d" "flt \<or> stmt d = Inl er"
  using assms by (auto simp: exec_stmt_def split: if_splits sum.splits prod.splits)

lemma join_insert_cases:
  assumes "join_insert e s u n w = (r, w')"
  obtains (inserted) d k where "r = Inr (n, True)" "redis w' = redis w" "dbs w' = d"
      "insert_queue_entry (new_queue_row e s u n) (dbs w) = Inr (d, k)"
      "metrics w' = metrics w @ [QueueJoins s ''new'', QueueDepth s n]"
  | (raced) q where "r = Inr (q_position q, False)" "w' = w" "q \<in> set (queue_entries (dbs w))"
      "q_sale_id q = s" "q_user_id q = u"
  | (failed) er where "r = Inl er" "w' = w"
  using assms
  by (auto simp: join_insert_def split: prod.splits sum.splits
      elim!: exec_stmt_cases select_position_cases[of "sql_fault e 3" s u "dbs w" "Inr _"])

lemma Join_cases [consumes 1]:
  assumes "Join R e s u w = (r, w')"
  obtains
    (rejected) er where "r = Inl er" "redis w' = redis w" "dbs w' = dbs w"
  | (existing) q where "r = Inr (q_position q, False)" "w' = emit (QueueJoins s ''idempotent'') w"
      "q \<in> set (queue_entries (dbs w))" "q_sale_id q = s" "q_user_id q = u"
  | (incr_failed) er rd where "r = Inl er" "w' = w\<lparr>redis := rd\<rparr>"
      "r_incr R (redis_now e) (QueueSeq (Keys s)) (redis w) = (Inl er, rd)"
  | (numbered) info n rd cur where
      "getSale False s (dbs w) = Inr info" "saleOpenForQueue (go_now e) info"
      "\<forall>q\<in>set (queue_entries (dbs w)). q_sale_id q = s \<longrightarrow> q_user_id q \<noteq> u"
      "r_get R (redis_now e) (QueueSeq (Keys s)) (redis w) = Inr cur" "\<not> room_full info cur"
      "r_incr R (redis_now e) (QueueSeq (Keys s)) (redis w) = (Inr n, rd)"
      "join_insert e s u n (w\<lparr>redis := rd\<rparr>) = (r, w')"
proof -
  have nf: "getSale False s (dbs w) = Inr info" if "getSale (sql_fault e 0) s (dbs w) = Inr info" for info
    using that by (auto simp: getSale_def query_row_def split: if_splits)
  show ?thesis
    using assms that nf
    by (auto simp: Join_def split: sum.splits if_splits prod.splits
        dest!: select_position_NoRows select_position_Inr)
qed

section \<open>The queue invariant\<close>

text \<open>
  What the tables and the counter agree on: the two \<open>UNIQUE\<close> constraints of
  \<open>queue_entries\<close>, and that every stored position was drawn from the sale's counter.
\<close>

definition queue_unique :: "db \<Rightarrow> bool" where
  "queue_unique d \<longleftrightarrow>
     distinct (map (\<lambda>q. (q_sale_id q, q_user_id q)) (queue_entries d)) \<and>
     distinct (map (\<lambda>q. (q_sale_id q, q_position q)) (queue_entries d))"

definition queue_seq :: "keyspace \<Rightarrow> string \<Rightarrow> int" where
  "queue_seq m s = counter m (QueueSeq (Keys s))"

definition queue_inv :: "keyspace \<Rightarrow> db \<Rightarrow> bool" where
  "queue_inv m d \<longleftrightarrow> queue_unique d
     \<and> (\<forall>s. persistent m (QueueSeq (Keys s)) \<and> 0 \<le> queue_seq m s)
     \<and> (\<forall>q\<in>set (queue_entries d). 1 \<le> q_position q \<and> q_position q \<le> queue_seq m (q_sale_id q))"

text \<open>The entries of a sale, in the order they were inserted, carry increasing positions.\<close>

definition sale_entries :: "string \<Rightarrow> db \<Rightarrow> queue_row list" where
  "sale_entries s d = filter (\<lambda>q. q_sale_id q = s) (queue_entries d)"

definition positions_sorted :: "db \<Rightarrow> string \<Rightarrow> bool" where
  "positions_sorted d s \<longleftrightarrow> sorted_wrt (<) (map q_position (sale_entries s d))"

lemma insert_queue_entry_Inr:
  assumes "insert_queue_entry r d = Inr (d', k)"
  shows "d' = d\<lparr>queue_entries := queue_entries d @ [r]\<rparr>"
    and "queue_unique d \<Longrightarrow> queue_unique d'"
  using assms by (auto simp: insert_queue_entry_def queue_unique_def split: if_splits)

lemma queue_inv_cong:
  "(\<And>s. m' (QueueSeq (Keys s)) = m (QueueSeq (Keys s))) \<Longrightarrow> queue_entries d' = queue_entries d
     \<Longrightarrow> queue_inv m' d' = queue_inv m d"
  by (simp add: queue_inv_def queue_unique_def queue_seq_def counter_def persistent_def)

text \<open>Drawing a number: the counter of the sale goes up by one, the others stay.\<close>

lemma queue_inv_bump:
  assumes "queue_inv m d" and "persistent m' (QueueSeq (Keys s))"
    and "queue_seq m s \<le> queue_seq m' s"
    and "\<And>s'. s' \<noteq> s \<Longrightarrow> m' (QueueSeq (Keys s')) = m (QueueSeq (Keys s'))"
  shows "queue_inv m' d"
proof -
  have other: "queue_seq m' s' = queue_seq m s' \<and> persistent m' (QueueSeq (Keys s'))" if "s' \<noteq> s" for s'
    using assms(1) assms(4)[OF that] by (simp add: queue_seq_def queue_inv_def counter_def persistent_def)
  have "queue_seq m s' \<le> queue_seq m' s' \<and> persistent m' (QueueSeq (Keys s'))" for s'
    using other[of s'] assms(2,3) by (cases "s' = s") auto
  with assms(1) show ?thesis
    unfolding queue_inv_def by (meson order_trans)
qed

lemma queue_inv_insert:
  assumes "queue_inv m d" and "insert_queue_entry r d = Inr (d', k)"
    and "1 \<le> q_position r" and "q_position r \<le> queue_seq m (q_sale_id r)"
  shows "queue_inv m d'"
  using assms insert_queue_entry_Inr[OF assms(2)] by (auto simp: queue_inv_def)

context redis_server begin

lemma incr_queue_seq:
  assumes "r_incr R t (QueueSeq (Keys s)) rd = (Inr n, rd')" and "queue_inv (alpha rd) d"
  shows "n = queue_seq (alpha rd) s + 1" and "queue_seq (alpha rd') s = n"
    and "queue_inv (alpha rd') d" and "\<And>s'. s' \<noteq> s \<Longrightarrow> queue_seq (alpha rd') s' = queue_seq (alpha rd) s'"
proof -
  have p: "persistent (alpha rd) (QueueSeq (Keys s))"
    using assms(2) by (simp add: queue_inv_def)
  note c = incr_counter[OF assms(1) p]
  show n: "n = queue_seq (alpha rd) s + 1" and n': "queue_seq (alpha rd') s = n"
    using c by (simp_all add: queue_seq_def)
  have f: "alpha rd' (QueueSeq (Keys s')) = alpha rd (QueueSeq (Keys s'))" if "s' \<noteq> s" for s'
    using incr_frame[OF assms(1)] that by simp
  then show "queue_inv (alpha rd') d"
    using queue_inv_bump[OF assms(2) c(3)] n n' by simp
  show "queue_seq (alpha rd') s' = queue_seq (alpha rd) s'" if "s' \<noteq> s" for s'
    using f[OF that] by (simp add: queue_seq_def counter_def)
qed

lemma incr_err_queue_inv:
  assumes "r_incr R t (QueueSeq (Keys s)) rd = (Inl er, rd')" and "queue_inv (alpha rd) d"
  shows "queue_inv (alpha rd') d"
proof -
  have p: "persistent (alpha rd) (QueueSeq (Keys s))"
    using assms(2) by (simp add: queue_inv_def)
  show ?thesis
    using queue_inv_bump[OF assms(2) incr_err_counter(1)[OF assms(1) p]]
      incr_err_counter(2)[OF assms(1) p] incr_frame[OF assms(1)]
    by (auto simp: queue_seq_def)
qed

lemma join_insert_inv:
  assumes "join_insert e s u n w = (r, w')" and "queue_inv (alpha (redis w)) (dbs w)"
    and "1 \<le> n" and "n \<le> queue_seq (alpha (redis w)) s"
  shows "queue_inv (alpha (redis w')) (dbs w')"
  using assms(1)
proof (cases rule: join_insert_cases)
  case (inserted d k)
  then show ?thesis
    using queue_inv_insert[OF assms(2)] assms(3,4) by (simp add: new_queue_row_def)
qed (use assms(2) in simp_all)

lemma Join_inv:
  assumes "Join R e s u w = (r, w')" and "queue_inv (alpha (redis w)) (dbs w)"
  shows "queue_inv (alpha (redis w')) (dbs w')"
  using assms(1)
proof (cases rule: Join_cases)
  case (numbered info n rd cur)
  note q = incr_queue_seq[OF numbered(6) assms(2)]
  have "1 \<le> n" using q(1) assms(2) by (simp add: queue_inv_def)
  with join_insert_inv[OF numbered(7)] q show ?thesis by simp
next
  case (incr_failed er rd)
  then show ?thesis using incr_err_queue_inv[OF incr_failed(3) assms(2)] by simp
qed (use assms(2) in simp_all)

text \<open>A new position is one more than the counter, so it is above every position of the sale.\<close>

lemma Join_new_position:
  assumes "Join R e s u w = (Inr (n, True), w')" and "queue_inv (alpha (redis w)) (dbs w)"
  shows "n = queue_seq (alpha (redis w)) s + 1"
    and "queue_entries (dbs w') = queue_entries (dbs w) @ [new_queue_row e s u n]"
    and "\<And>q. q \<in> set (sale_entries s (dbs w)) \<Longrightarrow> q_position q < n"
proof -
  show n: "n = queue_seq (alpha (redis w)) s + 1"
    and "queue_entries (dbs w') = queue_entries (dbs w) @ [new_queue_row e s u n]"
    using assms(1)
    by (auto elim!: Join_cases join_insert_cases dest: incr_queue_seq(1)[OF _ assms(2)]
        insert_queue_entry_Inr)
  show "q_position q < n" if "q \<in> set (sale_entries s (dbs w))" for q
    using n assms(2) that by (auto simp: queue_inv_def sale_entries_def)
qed

text \<open>No branch of \<open>Join\<close> changes or removes a stored entry.\<close>

lemma Join_entries:
  assumes "Join R e s u w = (r, w')"
  shows "queue_entries (dbs w') = queue_entries (dbs w)
    \<or> (\<exists>n. r = Inr (n, True) \<and> queue_entries (dbs w') = queue_entries (dbs w) @ [new_queue_row e s u n])"
  using assms by (auto elim!: Join_cases join_insert_cases dest: insert_queue_entry_Inr)

lemma Join_sorted:
  assumes "Join R e s u w = (r, w')" and "queue_inv (alpha (redis w)) (dbs w)"
    and "positions_sorted (dbs w) s'"
  shows "positions_sorted (dbs w') s'"
proof (cases "queue_entries (dbs w') = queue_entries (dbs w)")
  case True
  with assms(3) show ?thesis by (simp add: positions_sorted_def sale_entries_def)
next
  case False
  with Join_entries[OF assms(1)] obtain n where r: "r = Inr (n, True)"
    and q: "queue_entries (dbs w') = queue_entries (dbs w) @ [new_queue_row e s u n]" by auto
  note below = Join_new_position(3)[OF assms(1)[unfolded r] assms(2)]
  show ?thesis
    using assms(3) below q
    by (auto simp: positions_sorted_def sale_entries_def sorted_wrt_append new_queue_row_def)
qed

end

section \<open>The abstract queue and the refinement\<close>

text \<open>
  What the queue of one sale promises: the last number drawn and each user's number. Joining
  answers a known user's number, refuses when the room is full, and otherwise hands out the
  next number.
\<close>

record abs_queue =
  aq_last :: int
  aq_number :: "string \<Rightarrow> int option"

definition abs_join :: "bool \<Rightarrow> int \<Rightarrow> string \<Rightarrow> abs_queue \<Rightarrow> (int \<times> bool) result \<times> abs_queue" where
  "abs_join is_open cap u a =
     (if \<not> is_open then (Inl ErrSaleNotOpen, a)
      else case aq_number a u of
        Some n \<Rightarrow> (Inr (n, False), a)
      | None \<Rightarrow> if cap \<le> aq_last a then (Inl ErrWaitingRoomFull, a)
                else let n = aq_last a + 1
                     in (Inr (n, True), \<lparr>aq_last = n, aq_number = (aq_number a)(u \<mapsto> n)\<rparr>))"

definition number_of :: "string \<Rightarrow> string \<Rightarrow> db \<Rightarrow> int option" where
  "number_of s u d =
     map_option q_position (find (\<lambda>q. q_sale_id q = s \<and> q_user_id q = u) (queue_entries d))"

definition queue_abs :: "keyspace \<Rightarrow> string \<Rightarrow> db \<Rightarrow> abs_queue" where
  "queue_abs m s d = \<lparr>aq_last = queue_seq m s, aq_number = (\<lambda>u. number_of s u d)\<rparr>"

text \<open>What a fresh join needs of the tables: a known user and an unused row identifier.\<close>

definition can_insert :: "env \<Rightarrow> string \<Rightarrow> db \<Rightarrow> bool" where
  "can_insert e u d \<longleftrightarrow> u \<in> u_id ` set (users d) \<and> new_uuid e 0 \<notin> q_id ` set (queue_entries d)"

lemma select_position_no_fault:
  "select_position False s u d = (case number_of s u d of None \<Rightarrow> Inl NoRows | Some n \<Rightarrow> Inr n)"
  by (simp add: select_position_def query_row_def number_of_def split: option.splits)

lemma number_of_None:
  "number_of s u d = None \<longleftrightarrow> (\<forall>q\<in>set (queue_entries d). q_sale_id q = s \<longrightarrow> q_user_id q \<noteq> u)"
  by (auto simp: number_of_def find_None_iff)

lemma number_of_append:
  "number_of s u d = None \<Longrightarrow>
     number_of s u' (d\<lparr>queue_entries := queue_entries d @ [new_queue_row e s u n]\<rparr>) =
       (if u' = u then Some n else number_of s u' d)"
  by (auto simp: number_of_def find_append new_queue_row_def split: option.splits)

lemma insert_fresh:
  assumes "can_insert e u d" and "s \<in> s_id ` set (sales d)" and "number_of s u d = None"
    and "\<forall>q\<in>set (queue_entries d). q_sale_id q = s \<longrightarrow> q_position q < n"
  shows "insert_queue_entry (new_queue_row e s u n) d
    = Inr (d\<lparr>queue_entries := queue_entries d @ [new_queue_row e s u n]\<rparr>, 1)"
  using assms
  by (fastforce simp: insert_queue_entry_def can_insert_def number_of_None new_queue_row_def image_iff)

context redis_reliable begin

lemma get_Inr: "\<exists>v. r_get R t k rd = Inr v"
  using get_ok[of t k rd] by (cases "r_get R t k rd") auto

lemma incr_Inr: "\<exists>n rd'. r_incr R t k rd = (Inr n, rd')"
  using incr_ok[of t k rd] by (cases "r_incr R t k rd"; cases "fst (r_incr R t k rd)") auto

lemma room_full_iff:
  assumes "r_get R t (QueueSeq (Keys s)) rd = Inr cur" and "queue_inv (alpha rd) d"
    and "0 < WaitingRoomCap info"
  shows "room_full info cur \<longleftrightarrow> WaitingRoomCap info \<le> queue_seq (alpha rd) s"
proof -
  have "(case cur of None \<Rightarrow> 0 | Some x \<Rightarrow> x) = queue_seq (alpha rd) s"
    using get_counter[OF assms(1)] assms(2) by (simp add: queue_inv_def queue_seq_def)
  with assms(3) show ?thesis by (auto simp: room_full_def split: option.splits)
qed

lemma Join_refines:
  assumes nf: "no_faults e" and inv: "queue_inv (alpha (redis w)) (dbs w)"
    and sale: "getSale False s (dbs w) = Inr info" and cap: "0 < WaitingRoomCap info"
    and ins: "can_insert e u (dbs w)" and j: "Join R e s u w = (r, w')"
  shows "(r, queue_abs (alpha (redis w')) s (dbs w'))
    = abs_join (saleOpenForQueue (go_now e) info) (WaitingRoomCap info) u
        (queue_abs (alpha (redis w)) s (dbs w))"
proof (cases "saleOpenForQueue (go_now e) info \<and> number_of s u (dbs w) = None")
  case False
  with nf sale j show ?thesis
    by (auto simp: Join_def select_position_no_fault abs_join_def queue_abs_def
        split: if_splits option.splits)
next
  case True
  obtain cur where got: "r_get R (redis_now e) (QueueSeq (Keys s)) (redis w) = Inr cur"
    using get_Inr by blast
  obtain n rd where inc: "r_incr R (redis_now e) (QueueSeq (Keys s)) (redis w) = (Inr n, rd)"
    using incr_Inr by blast
  note q = incr_queue_seq[OF inc inv]
  have "s \<in> s_id ` set (sales (dbs w))" using getSale_Inr[OF sale] by auto
  moreover have "\<forall>q\<in>set (queue_entries (dbs w)). q_sale_id q = s \<longrightarrow> q_position q < n"
    using inv q(1) by (auto simp: queue_inv_def)
  ultimately have I: "insert_queue_entry (new_queue_row e s u n) (dbs w)
      = Inr (dbs w\<lparr>queue_entries := queue_entries (dbs w) @ [new_queue_row e s u n]\<rparr>, 1)"
    using insert_fresh[OF ins] True by blast
  have "(aq_number (queue_abs (alpha (redis w)) s (dbs w)))(u \<mapsto> n) =
      (\<lambda>u'. number_of s u' (dbs w\<lparr>queue_entries := queue_entries (dbs w) @ [new_queue_row e s u n]\<rparr>))"
    using True by (auto simp: queue_abs_def number_of_append)
  with True nf sale j got inc I q(1,2) room_full_iff[OF got inv cap] show ?thesis
    by (auto simp: Join_def join_insert_def exec_stmt_def select_position_no_fault abs_join_def
        queue_abs_def Let_def split: if_splits)
qed

end

section \<open>Status\<close>

lemma status_fields_simps [simp]:
  "Position (status_fields p n a m) = p"
  "Admitted (status_fields p n a m) \<longleftrightarrow> a \<noteq> None \<or> p \<le> n"
  by (simp_all add: status_fields_def Let_def effectiveAdmitPosition_def)

lemma Status_cases [consumes 1]:
  assumes "Status R issue e s u w = (r, w')"
  obtains (failed) er where "r = Inl er" "w' = w"
  | (waiting) q info nx where "find (\<lambda>q. q_sale_id q = s \<and> q_user_id q = u) (queue_entries (dbs w)) = Some q"
      "getSale False s (dbs w) = Inr info"
      "r_get R (redis_now e) (NextAdmit (Keys s)) (redis w) = Inr nx"
      "r = Inr (status_fields (q_position q) (case nx of None \<Rightarrow> 0 | Some n \<Rightarrow> n) (q_admitted_at q)
             (AdmitPerMinute info))"
      "\<not> (q_admitted_at q \<noteq> None \<or> q_position q \<le> (case nx of None \<Rightarrow> 0 | Some n \<Rightarrow> n))" "w' = w"
  | (admitted) q info nx where "find (\<lambda>q. q_sale_id q = s \<and> q_user_id q = u) (queue_entries (dbs w)) = Some q"
      "getSale False s (dbs w) = Inr info"
      "r_get R (redis_now e) (NextAdmit (Keys s)) (redis w) = Inr nx"
      "r = (case issue u s (new_uuid e 0) of Inl er \<Rightarrow> Inl er
          | Inr tok \<Rightarrow> Inr (status_fields (q_position q) (case nx of None \<Rightarrow> 0 | Some n \<Rightarrow> n)
              (q_admitted_at q) (AdmitPerMinute info)\<lparr>AdmissionToken := tok\<rparr>))"
      "q_admitted_at q \<noteq> None \<or> q_position q \<le> (case nx of None \<Rightarrow> 0 | Some n \<Rightarrow> n)"
      "redis w' = redis w"
      "dbs w' = (if q_admitted_at q = None
         then snd (exec_stmt (sql_fault e 2) (mark_admitted (sql_now e) s u) (dbs w)) else dbs w)"
proof (cases "query_row (sql_fault e 0) (\<lambda>q. q_sale_id q = s \<and> q_user_id q = u) (queue_entries (dbs w))")
  case (Inl er)
  with assms show ?thesis by (intro that(1)) (auto simp: Status_def)
next
  case row: (Inr q)
  then have q: "find (\<lambda>q. q_sale_id q = s \<and> q_user_id q = u) (queue_entries (dbs w)) = Some q"
    by (auto simp: query_row_def split: if_splits option.splits)
  show ?thesis
  proof (cases "getSale (sql_fault e 1) s (dbs w)")
    case (Inl er)
    with assms row show ?thesis by (intro that(1)) (auto simp: Status_def)
  next
    case sale: (Inr info)
    then have info: "getSale False s (dbs w) = Inr info"
      by (auto simp: getSale_def query_row_def split: if_splits)
    show ?thesis
    proof (cases "r_get R (redis_now e) (NextAdmit (Keys s)) (redis w)")
      case (Inl er)
      with assms row sale show ?thesis by (intro that(1)) (auto simp: Status_def)
    next
      case got: (Inr nx)
      let ?n = "case nx of None \<Rightarrow> 0 | Some n \<Rightarrow> n"
      show ?thesis
      proof (cases "q_admitted_at q \<noteq> None \<or> q_position q \<le> ?n")
        case False
        with assms row sale got q info show ?thesis
          by (intro that(2)[of q info nx]) (auto simp: Status_def Let_def)
      next
        case True
        with assms row sale got q info show ?thesis
          by (intro that(3)[of q info nx]) (auto simp: Status_def Let_def split: sum.splits if_splits)
      qed
    qed
  qed
qed

text \<open>The arithmetic of the answer, where nothing overflows.\<close>

lemma status_fields_in_range:
  assumes "0 \<le> p" "p < 2 ^ 57" "0 \<le> n" "n < 2 ^ 57"
  shows "AheadCount (status_fields p n a m) = max 0 (p - n)"
    and "EstimatedWaitSec (status_fields p n a m) = max 0 (p - n) * 60 div max m 1"
proof -
  have i: "int64 (p - n) = p - n"
    using assms by (intro int64_id) (simp add: in_int64_def)
  then show a: "AheadCount (status_fields p n a m) = max 0 (p - n)"
    by (simp add: status_fields_def Let_def effectiveAdmitPosition_def)
  have i2: "int64 (max 0 (p - n) * 60) = max 0 (p - n) * 60"
    using assms by (intro int64_id) (auto simp: in_int64_def max_def)
  have "EstimatedWaitSec (status_fields p n a m)
      = go_div (int64 (AheadCount (status_fields p n a m) * 60)) (max_int m 1)"
    by (simp add: status_fields_def Let_def)
  also have "\<dots> = go_div (max 0 (p - n) * 60) (max m 1)"
    unfolding a i2 by (simp add: max_int_def max_def)
  also have "\<dots> = max 0 (p - n) * 60 div max m 1"
    by (rule go_div_nonneg) auto
  finally show "EstimatedWaitSec (status_fields p n a m) = max 0 (p - n) * 60 div max m 1" .
qed

lemma mark_admitted_queue:
  "snd (exec_stmt flt (mark_admitted t s u) d) =
     (if flt then d else d\<lparr>queue_entries := update_where
        (\<lambda>q. q_sale_id q = s \<and> q_user_id q = u \<and> q_admitted_at q = None)
        (\<lambda>q. q\<lparr>q_admitted_at := Some t\<rparr>) (queue_entries d)\<rparr>)"
  by (simp add: exec_stmt_def mark_admitted_def Let_def)

lemma number_of_mark_admitted [simp]:
  "number_of s' v (d\<lparr>queue_entries := update_where p (\<lambda>q. q\<lparr>q_admitted_at := t\<rparr>) (queue_entries d)\<rparr>)
     = number_of s' v d"
proof -
  have "map_option q_position (find (\<lambda>q. q_sale_id q = s' \<and> q_user_id q = v)
      (update_where p (\<lambda>q. q\<lparr>q_admitted_at := t\<rparr>) qs)) =
    map_option q_position (find (\<lambda>q. q_sale_id q = s' \<and> q_user_id q = v) qs)" for qs
    by (induction qs) auto
  then show ?thesis by (simp add: number_of_def)
qed

text \<open>\<open>Status\<close> writes no column of the queue but \<open>admitted_at\<close>.\<close>

lemma Status_columns:
  assumes "Status R issue e s u w = (r, w')"
  shows "map (\<lambda>q. (q_id q, q_sale_id q, q_user_id q, q_position q, q_joined_at q)) (queue_entries (dbs w'))
       = map (\<lambda>q. (q_id q, q_sale_id q, q_user_id q, q_position q, q_joined_at q)) (queue_entries (dbs w))"
    and "redis w' = redis w" and "sales (dbs w') = sales (dbs w)"
  using assms by (auto elim!: Status_cases simp: mark_admitted_queue)

lemma find_mark_admitted:
  "find (\<lambda>q. q_sale_id q = s \<and> q_user_id q = u) qs = Some q \<Longrightarrow> q_admitted_at q = None \<Longrightarrow>
     find (\<lambda>q. q_sale_id q = s \<and> q_user_id q = u)
       (update_where (\<lambda>q. q_sale_id q = s \<and> q_user_id q = u \<and> q_admitted_at q = None)
         (\<lambda>q. q\<lparr>q_admitted_at := Some t\<rparr>) qs) = Some (q\<lparr>q_admitted_at := Some t\<rparr>)"
  by (induction qs) (auto split: if_splits)

text \<open>Once a status call has admitted a user, the row says so.\<close>

lemma Status_admitted_row:
  assumes "Status R issue e s u w = (Inr st, w')" and "Admitted st" and "no_faults e"
  shows "\<exists>q t. find (\<lambda>q. q_sale_id q = s \<and> q_user_id q = u) (queue_entries (dbs w')) = Some q
    \<and> q_admitted_at q = Some t \<and> q_position q = Position st"
  using assms(1)
proof (cases rule: Status_cases)
  case (admitted q info nx)
  then have p: "Position st = q_position q" by (auto split: sum.splits)
  show ?thesis
  proof (cases "q_admitted_at q")
    case None
    with find_mark_admitted[OF admitted(1) None] admitted assms(3) p show ?thesis
      by (simp add: mark_admitted_queue)
  next
    case (Some t)
    with admitted p show ?thesis by simp
  qed
qed (use assms(2) in auto)

text \<open>A successful answer: the stored position, and the fields computed from it.\<close>

lemma Status_answer:
  assumes "Status R issue e s u w = (Inr st, w')"
  shows "\<exists>q info nx tok.
    find (\<lambda>q. q_sale_id q = s \<and> q_user_id q = u) (queue_entries (dbs w)) = Some q
    \<and> getSale False s (dbs w) = Inr info
    \<and> r_get R (redis_now e) (NextAdmit (Keys s)) (redis w) = Inr nx
    \<and> st = status_fields (q_position q) (case nx of None \<Rightarrow> 0 | Some n \<Rightarrow> n) (q_admitted_at q)
            (AdmitPerMinute info)\<lparr>AdmissionToken := tok\<rparr>"
  using assms
proof (cases rule: Status_cases)
  case (waiting q info nx)
  then have "st = st\<lparr>AdmissionToken := []\<rparr>" by (auto simp: status_fields_def Let_def)
  with waiting show ?thesis by (metis sum.inject(2))
next
  case (admitted q info nx)
  then show ?thesis by (cases "issue u s (new_uuid e 0)") auto
qed simp

section \<open>Runs of joins\<close>

text \<open>A sequence of join requests for one sale, each an environment and a user.\<close>

fun run_joins :: "'r redis_api \<Rightarrow> string \<Rightarrow> (env \<times> string) list \<Rightarrow> 'r world \<Rightarrow> 'r world" where
  "run_joins R s [] w = w"
| "run_joins R s ((e, u) # es) w = run_joins R s es (snd (Join R e s u w))"

context redis_server begin

lemma run_joins_inv:
  "queue_inv (alpha (redis w)) (dbs w) \<Longrightarrow>
     queue_inv (alpha (redis (run_joins R s es w))) (dbs (run_joins R s es w))"
proof (induction es arbitrary: w)
  case (Cons x es)
  obtain e u where x: "x = (e, u)" by (cases x)
  obtain r w' where j: "Join R e s u w = (r, w')" by fastforce
  from Cons.IH[OF Join_inv[OF j Cons.prems]] x j show ?case by simp
qed simp

lemma run_joins_sorted:
  assumes "queue_inv (alpha (redis w)) (dbs w)" and "positions_sorted (dbs w) s'"
  shows "positions_sorted (dbs (run_joins R s es w)) s'"
  using assms
proof (induction es arbitrary: w)
  case (Cons x es)
  obtain e u where x: "x = (e, u)" by (cases x)
  obtain r w' where j: "Join R e s u w = (r, w')" by fastforce
  from Cons.IH[OF Join_inv[OF j Cons.prems(1)] Join_sorted[OF j Cons.prems]] x j show ?case by simp
qed simp

lemma run_joins_extends:
  "\<exists>new. queue_entries (dbs (run_joins R s es w)) = queue_entries (dbs w) @ new"
proof (induction es arbitrary: w)
  case (Cons x es)
  obtain e u where x: "x = (e, u)" by (cases x)
  obtain r w' where j: "Join R e s u w = (r, w')" by fastforce
  from Cons.IH[of w'] Join_entries[OF j] x j show ?case by auto
qed simp

lemma Join_known_user:
  assumes "Join R e s u w = (Inr (p, b), w')" and "queue_unique (dbs w)"
    and "q \<in> set (queue_entries (dbs w))" and "q_sale_id q = s" and "q_user_id q = u"
  shows "p = q_position q \<and> \<not> b"
proof -
  have same: "q' = q" if "q' \<in> set (queue_entries (dbs w))" "q_sale_id q' = s" "q_user_id q' = u" for q'
    using distinct_map_inj[OF _ that(1) assms(3), of "\<lambda>q. (q_sale_id q, q_user_id q)"] assms that
    by (auto simp: queue_unique_def)
  show ?thesis
    using assms(1)
  proof (cases rule: Join_cases)
    case (existing q')
    with same[of q'] show ?thesis by simp
  next
    case numbered
    with assms(3-5) show ?thesis by blast
  qed auto
qed

lemma Join_answer_stored:
  assumes "Join R e s u w = (Inr (p, b), w')"
  shows "\<exists>q\<in>set (queue_entries (dbs w')). q_sale_id q = s \<and> q_user_id q = u \<and> q_position q = p"
  using assms
  by (auto elim!: Join_cases join_insert_cases dest: insert_queue_entry_Inr simp: new_queue_row_def)

end

section \<open>A concrete run, for the witnesses\<close>

definition demo_row :: queue_row where
  "demo_row = \<lparr>q_id = ''q'', q_sale_id = ''A'', q_user_id = ''u1'', q_position = 1,
     q_joined_at = 200, q_admitted_at = None\<rparr>"

definition demo_joined :: "keyspace world" where
  "demo_joined = \<lparr>dbs = demo_db\<lparr>queue_entries := [demo_row]\<rparr>,
     redis = Map.empty(''sale:A:queue_seq'' \<mapsto> (1, None)),
     metrics = [QueueJoins ''A'' ''new'', QueueDepth ''A'' 1]\<rparr>"

lemmas wr_eval = Join_def join_insert_def getSale_def query_row_def saleOpenForQueue_def
  select_position_def room_full_def exec_stmt_def insert_queue_entry_def new_queue_row_def
  Keys_def emit_def

lemma demo_join: "Join mem_redis (calm_env 200 ''q'') ''A'' ''u1'' demo_world = (Inr (1, True), demo_joined)"
  by (simp add: wr_eval redis_eval demo_defs demo_joined_def demo_row_def)

lemma demo_rejoin:
  "Join mem_redis (calm_env 300 ''r'') ''A'' ''u1'' demo_joined
     = (Inr (1, False), emit (QueueJoins ''A'' ''idempotent'') demo_joined)"
  by (simp add: wr_eval redis_eval demo_defs demo_joined_def demo_row_def)

lemma queue_inv_no_entries:
  "queue_entries d = [] \<Longrightarrow> queue_inv Map.empty d"
  by (simp add: queue_inv_def queue_unique_def queue_seq_def counter_def persistent_def)

lemma demo_queue_inv: "queue_inv (redis demo_world) (dbs demo_world)"
  using queue_inv_no_entries[of "dbs demo_world"] by (simp add: demo_defs)

lemma demo_joined_inv: "queue_inv (redis demo_joined) (dbs demo_joined)"
  using mem.Join_inv[OF demo_join demo_queue_inv] .

lemma demo_getSale: "getSale False ''A'' demo_db = Inr \<lparr>Phase = General_sale, OpensAt = 100,
    AdmitPerMinute = 60, WaitingRoomCap = 2\<rparr>"
  by (simp add: getSale_def query_row_def demo_defs)

section \<open>Properties of the queue\<close>

text \<open>C7. On a running Redis server and a fault-free database, \<open>Join\<close> of a known user
  implements the abstract queue of the sale: it refuses while the sale is closed, answers a
  user who already has a place with that place, refuses when the room is full, and otherwise
  hands out the next number, and the stored state it leaves is the abstract successor.\<close>

theorem join_refines_queue:
  assumes "redis_reliable R alpha" and "no_faults e" and "queue_inv (alpha (redis w)) (dbs w)"
    and "getSale False s (dbs w) = Inr info" and "0 < WaitingRoomCap info"
    and "can_insert e u (dbs w)" and "Join R e s u w = (r, w')"
  shows "(r, queue_abs (alpha (redis w')) s (dbs w'))
    = abs_join (saleOpenForQueue (go_now e) info) (WaitingRoomCap info) u
        (queue_abs (alpha (redis w)) s (dbs w))"
  by (rule redis_reliable.Join_refines[OF assms])

theorem join_refines_queue_witness:
  "(Inr (1, True), queue_abs (redis demo_joined) ''A'' (dbs demo_joined))
    = abs_join True 2 ''u1'' (queue_abs (redis demo_world) ''A'' (dbs demo_world))"
proof -
  have c: "can_insert (calm_env 200 ''q'') ''u1'' (dbs demo_world)"
    by (simp add: can_insert_def demo_defs)
  have g: "getSale False ''A'' (dbs demo_world) = Inr \<lparr>Phase = General_sale, OpensAt = 100,
      AdmitPerMinute = 60, WaitingRoomCap = 2\<rparr>"
    using demo_getSale by (simp add: demo_world_def)
  show ?thesis
    using join_refines_queue[OF mem.redis_reliable_axioms _ demo_queue_inv g _ c demo_join]
    by (simp add: saleOpenForQueue_def)
qed

text \<open>C19. \<open>Join\<close> keeps the queue invariant on every branch, a lost Redis reply and a failed
  \<open>INSERT\<close> included: the unique keys of \<open>queue_entries\<close> hold and every stored position lies
  between 1 and the sale's counter.\<close>

theorem join_keeps_queue_inv:
  assumes "redis_server R alpha" and "Join R e s u w = (r, w')"
    and "queue_inv (alpha (redis w)) (dbs w)"
  shows "queue_inv (alpha (redis w')) (dbs w')"
  by (rule redis_server.Join_inv[OF assms])

theorem join_keeps_queue_inv_witness: "queue_inv (redis demo_joined) (dbs demo_joined)"
  using join_keeps_queue_inv[OF mem_redis_server demo_join demo_queue_inv] .

text \<open>Joining again keeps the place: whatever other joins run in between, a user who was
  answered position \<open>p\<close> is answered \<open>p\<close> by every later join that succeeds, and is told that
  the entry is not new.\<close>

theorem rejoin_same_place:
  assumes "redis_server R alpha" and "queue_inv (alpha (redis w)) (dbs w)"
    and "Join R e s u w = (Inr (p, b), w1)"
    and "Join R e' s u (run_joins R s es w1) = (Inr (p', b'), w2)"
  shows "p' = p \<and> \<not> b'"
proof -
  note inv1 = redis_server.Join_inv[OF assms(1,3,2)]
  obtain q where q: "q \<in> set (queue_entries (dbs w1))" "q_sale_id q = s" "q_user_id q = u" "q_position q = p"
    using redis_server.Join_answer_stored[OF assms(1,3)] by blast
  have "q \<in> set (queue_entries (dbs (run_joins R s es w1)))"
    using redis_server.run_joins_extends[OF assms(1), of s es w1] q(1) by auto
  moreover have "queue_unique (dbs (run_joins R s es w1))"
    using redis_server.run_joins_inv[OF assms(1) inv1] by (simp add: queue_inv_def)
  ultimately show ?thesis
    using redis_server.Join_known_user[OF assms(1,4)] q by blast
qed

theorem rejoin_same_place_witness:
  "\<exists>p b. fst (Join mem_redis (calm_env 300 ''r'') ''A'' ''u1''
       (snd (Join mem_redis (calm_env 200 ''q'') ''A'' ''u1'' demo_world))) = Inr (p, b) \<and> p = 1 \<and> \<not> b"
proof -
  have "Join mem_redis (calm_env 300 ''r'') ''A'' ''u1'' (run_joins mem_redis ''A'' [] demo_joined)
      = (Inr (1, False), emit (QueueJoins ''A'' ''idempotent'') demo_joined)"
    using demo_rejoin by simp
  from rejoin_same_place[OF mem_redis_server demo_queue_inv demo_join this]
  show ?thesis by (auto simp: demo_join demo_rejoin)
qed

text \<open>C5. Positions are arrival order: through any sequence of joins the rows already in the
  table stay as they are and every new row of the sale carries a position above all earlier
  ones, so a later arrival never stands before an earlier one.\<close>

theorem joins_are_fifo:
  assumes "redis_server R alpha" and "queue_inv (alpha (redis w)) (dbs w)"
    and "positions_sorted (dbs w) s"
  shows "positions_sorted (dbs (run_joins R s es w)) s
    \<and> (\<exists>new. queue_entries (dbs (run_joins R s es w)) = queue_entries (dbs w) @ new)"
  using redis_server.run_joins_sorted[OF assms] redis_server.run_joins_extends[OF assms(1)] by blast

theorem joins_are_fifo_witness:
  "positions_sorted (dbs (run_joins mem_redis ''A''
      [(calm_env 200 ''q'', ''u1''), (calm_env 300 ''r'', ''u2'')] demo_world)) ''A''"
proof -
  have "positions_sorted (dbs demo_world) ''A''"
    by (simp add: positions_sorted_def sale_entries_def demo_defs)
  from joins_are_fifo[OF mem_redis_server demo_queue_inv this] show ?thesis by blast
qed

text \<open>One join at a time respects the room: a new position never exceeds the sale's
  waiting-room cap.\<close>

theorem join_within_cap:
  assumes "redis_server R alpha" and "queue_inv (alpha (redis w)) (dbs w)"
    and "getSale False s (dbs w) = Inr info" and "0 < WaitingRoomCap info"
    and "Join R e s u w = (Inr (n, True), w')"
  shows "n \<le> WaitingRoomCap info"
  using assms(5)
proof (cases rule: Join_cases)
  case (numbered info' m rd cur)
  have "n = m" using numbered(7) by (auto elim: join_insert_cases)
  moreover have "m = queue_seq (alpha (redis w)) s + 1"
    using redis_server.incr_queue_seq(1)[OF assms(1) numbered(6) assms(2)] .
  moreover have "(case cur of None \<Rightarrow> 0 | Some x \<Rightarrow> x) = queue_seq (alpha (redis w)) s"
    using redis_server.get_counter[OF assms(1) numbered(4)] assms(2)
    by (simp add: queue_inv_def queue_seq_def)
  moreover have "info' = info" using numbered(1) assms(3) by simp
  ultimately show ?thesis
    using numbered(5) assms(4) by (auto simp: room_full_def split: option.splits)
qed auto

theorem join_within_cap_witness:
  "\<exists>n. fst (Join mem_redis (calm_env 200 ''q'') ''A'' ''u1'' demo_world) = Inr (n, True) \<and> n \<le> 2"
proof -
  have g: "getSale False ''A'' (dbs demo_world) = Inr \<lparr>Phase = General_sale, OpensAt = 100,
      AdmitPerMinute = 60, WaitingRoomCap = 2\<rparr>"
    using demo_getSale by (simp add: demo_world_def)
  show ?thesis
    using join_within_cap[OF mem_redis_server demo_queue_inv g _ demo_join] by (simp add: demo_join)
qed

section \<open>Properties of the status poll\<close>

lemma go_floor_bounds: "0 < (b::int) \<Longrightarrow> k div b * b \<le> k \<and> k < (k div b + 1) * b"
proof -
  assume b: "0 < b"
  have "k = k div b * b + k mod b" by (simp only: div_mult_mod_eq)
  moreover have "0 \<le> k mod b" "k mod b < b" using b by simp_all
  moreover have "(k div b + 1) * b = k div b * b + b" by (simp only: distrib_right mult_1)
  ultimately show ?thesis by linarith
qed

text \<open>The arithmetic of the answer: with position and window in range, the number of people
  ahead is the distance to the window clamped at zero, and the estimated wait is the whole number
  of seconds the configured rate needs for them, never short by a full second.\<close>

theorem status_wait_estimate:
  assumes "Status R issue e s u w = (Inr st, w')" and "getSale False s (dbs w) = Inr info"
    and "r_get R (redis_now e) (NextAdmit (Keys s)) (redis w) = Inr (Some nextAdmit)"
    and "0 \<le> Position st" "Position st < 2 ^ 57" "0 \<le> nextAdmit" "nextAdmit < 2 ^ 57"
  shows "AheadCount st = max 0 (Position st - nextAdmit)
    \<and> EstimatedWaitSec st * max 1 (AdmitPerMinute info) \<le> AheadCount st * 60
    \<and> AheadCount st * 60 < (EstimatedWaitSec st + 1) * max 1 (AdmitPerMinute info)"
proof -
  obtain q info' nx tok where h: "find (\<lambda>q. q_sale_id q = s \<and> q_user_id q = u) (queue_entries (dbs w)) = Some q"
    "getSale False s (dbs w) = Inr info'"
    "r_get R (redis_now e) (NextAdmit (Keys s)) (redis w) = Inr nx"
    "st = status_fields (q_position q) (case nx of None \<Rightarrow> 0 | Some n \<Rightarrow> n) (q_admitted_at q)
      (AdmitPerMinute info')\<lparr>AdmissionToken := tok\<rparr>"
    using Status_answer[OF assms(1)] by blast
  with assms(2,3) have st: "st = status_fields (q_position q) nextAdmit (q_admitted_at q)
      (AdmitPerMinute info)\<lparr>AdmissionToken := tok\<rparr>" by simp
  then have "Position st = q_position q" by simp
  with assms(4-7) have f: "AheadCount st = max 0 (Position st - nextAdmit)"
    "EstimatedWaitSec st = max 0 (Position st - nextAdmit) * 60 div max (AdmitPerMinute info) 1"
    using status_fields_in_range[of "q_position q" nextAdmit] st by simp_all
  show ?thesis
    using go_floor_bounds[of "max 1 (AdmitPerMinute info)" "AheadCount st * 60"]
    unfolding f by (simp add: max.commute)
qed

definition demo_issue :: "string \<Rightarrow> string \<Rightarrow> string \<Rightarrow> string result" where
  "demo_issue u s jti = Inr (u @ s @ jti)"

definition demo_waiting :: "keyspace world" where
  "demo_waiting = demo_joined\<lparr>dbs := (dbs demo_joined)\<lparr>queue_entries := [demo_row\<lparr>q_position := 101\<rparr>]\<rparr>,
     redis := (redis demo_joined)(''sale:A:next_admit'' \<mapsto> (50, None))\<rparr>"

lemma demo_fields: "status_fields 101 50 None 60 = \<lparr>Position = 101, AheadCount = 51,
    EstimatedWaitSec = 51, Admitted = False, AdmissionToken = [],
    RetryAfterMs = 3000, Message = ''Refreshing does not change your place in line.''\<rparr>"
  by (simp add: status_fields_def effectiveAdmitPosition_def max_int_def int64_id in_int64_def go_div_nonneg Let_def)

lemma demo_status_waiting:
  "Status mem_redis demo_issue (calm_env 300 ''j'') ''A'' ''u1'' demo_waiting =
    (Inr (status_fields 101 50 None 60), demo_waiting)"
  by (simp add: Status_def wr_eval redis_eval demo_defs demo_waiting_def demo_joined_def demo_row_def)

text \<open>C35. Admission goes strictly by position: of two users polled in the same state, if the
  one further back is told that the window has reached it, the one in front is told so too.\<close>

theorem status_admits_in_order:
  assumes "Status R issue e s u w = (Inr st, w')" and "Status R issue e' s v w = (Inr st', w'')"
    and "redis_now e' = redis_now e"
    and "\<forall>q\<in>set (queue_entries (dbs w)). q_sale_id q = s \<longrightarrow> q_user_id q = u \<longrightarrow> q_admitted_at q = None"
    and "Position st' \<le> Position st" and "Admitted st"
  shows "Admitted st'"
proof -
  obtain q info nx tok where u: "find (\<lambda>q. q_sale_id q = s \<and> q_user_id q = u) (queue_entries (dbs w)) = Some q"
    "getSale False s (dbs w) = Inr info"
    "r_get R (redis_now e) (NextAdmit (Keys s)) (redis w) = Inr nx"
    "st = status_fields (q_position q) (case nx of None \<Rightarrow> 0 | Some n \<Rightarrow> n) (q_admitted_at q)
      (AdmitPerMinute info)\<lparr>AdmissionToken := tok\<rparr>"
    using Status_answer[OF assms(1)] by blast
  obtain q' info' nx' tok' where v: "find (\<lambda>q. q_sale_id q = s \<and> q_user_id q = v) (queue_entries (dbs w)) = Some q'"
    "getSale False s (dbs w) = Inr info'"
    "r_get R (redis_now e') (NextAdmit (Keys s)) (redis w) = Inr nx'"
    "st' = status_fields (q_position q') (case nx' of None \<Rightarrow> 0 | Some n \<Rightarrow> n) (q_admitted_at q')
      (AdmitPerMinute info')\<lparr>AdmissionToken := tok'\<rparr>"
    using Status_answer[OF assms(2)] by blast
  have "q_admitted_at q = None" using assms(4) find_SomeD[OF u(1)] by blast
  with assms(3,5,6) u v show ?thesis by auto
qed

text \<open>Admission is permanent: once a status call has told a user that it is admitted, every
  later status call that succeeds says so again with the same position, whatever has happened
  to the Redis counters in between (a flush included), as long as the queue rows are kept.\<close>

theorem status_admission_sticky:
  assumes "Status R issue e s u w = (Inr st, w1)" and "Admitted st" and "no_faults e"
    and "queue_entries (dbs w2) = queue_entries (dbs w1)"
    and "Status R issue e' s u w2 = (Inr st', w3)"
  shows "Admitted st' \<and> Position st' = Position st"
proof -
  obtain q t where q: "find (\<lambda>q. q_sale_id q = s \<and> q_user_id q = u) (queue_entries (dbs w1)) = Some q"
    "q_admitted_at q = Some t" "q_position q = Position st"
    using Status_admitted_row[OF assms(1-3)] by blast
  obtain q' info nx tok where "find (\<lambda>q. q_sale_id q = s \<and> q_user_id q = u) (queue_entries (dbs w2)) = Some q'"
    "getSale False s (dbs w2) = Inr info"
    "r_get R (redis_now e') (NextAdmit (Keys s)) (redis w2) = Inr nx"
    "st' = status_fields (q_position q') (case nx of None \<Rightarrow> 0 | Some n \<Rightarrow> n) (q_admitted_at q')
      (AdmitPerMinute info)\<lparr>AdmissionToken := tok\<rparr>"
    using Status_answer[OF assms(5)] by blast
  with q assms(4) show ?thesis by simp
qed

text \<open>Polling never moves anyone: a status call leaves the Redis counters and every user's
  position as they are, and reports the stored position of the caller.\<close>

lemma status_keeps_place:
  assumes "Status R issue e s u w = (r, w')"
  shows "redis w' = redis w
    \<and> (\<forall>s' v. number_of s' v (dbs w') = number_of s' v (dbs w))
    \<and> (case r of Inl er \<Rightarrow> True | Inr st \<Rightarrow> number_of s u (dbs w) = Some (Position st))"
proof -
  have "number_of s' v (dbs w') = number_of s' v (dbs w)" for s' v
    using assms by (auto elim!: Status_cases simp: mark_admitted_queue)
  moreover have "number_of s u (dbs w) = Some (Position st)" if "r = Inr st" for st
    using Status_answer[of R issue e s u w st w'] assms that by (auto simp: number_of_def)
  ultimately show ?thesis
    using Status_columns(2)[OF assms] by (cases r) auto
qed

theorem status_wait_estimate_witness:
  "\<exists>st. fst (Status mem_redis demo_issue (calm_env 300 ''j'') ''A'' ''u1'' demo_waiting) = Inr st
    \<and> AheadCount st = 51 \<and> EstimatedWaitSec st * 60 \<le> 51 * 60 \<and> 51 * 60 < (EstimatedWaitSec st + 1) * 60"
proof -
  have g: "getSale False ''A'' (dbs demo_waiting) = Inr \<lparr>Phase = General_sale, OpensAt = 100,
      AdmitPerMinute = 60, WaitingRoomCap = 2\<rparr>"
    using demo_getSale by (simp add: demo_waiting_def demo_joined_def getSale_def)
  have r: "r_get mem_redis (redis_now (calm_env 300 ''j'')) (NextAdmit (Keys ''A'')) (redis demo_waiting)
      = Inr (Some 50)"
    by (simp add: demo_waiting_def live_def Keys_def)
  show ?thesis
    using status_wait_estimate[OF demo_status_waiting g r]
    by (simp add: demo_status_waiting demo_fields)
qed

definition demo_admit :: "keyspace world" where
  "demo_admit = demo_joined\<lparr>dbs := (dbs demo_joined)\<lparr>queue_entries :=
       [demo_row, demo_row\<lparr>q_id := ''r'', q_user_id := ''u2'', q_position := 2\<rparr>]\<rparr>,
     redis := (redis demo_joined)(''sale:A:next_admit'' \<mapsto> (2, None))\<rparr>"

lemma demo_status_u2:
  "Status mem_redis demo_issue (calm_env 300 ''j'') ''A'' ''u2'' demo_admit =
    (Inr (status_fields 2 2 None 60\<lparr>AdmissionToken := ''u2Aj''\<rparr>),
     emit (Admissions ''A'') (demo_admit\<lparr>dbs := (dbs demo_admit)\<lparr>queue_entries :=
       [demo_row, demo_row\<lparr>q_id := ''r'', q_user_id := ''u2'', q_position := 2, q_admitted_at := Some 300\<rparr>]\<rparr>\<rparr>))"
  by (simp add: Status_def wr_eval redis_eval demo_defs demo_admit_def demo_joined_def demo_row_def
      mark_admitted_def demo_issue_def)

lemma demo_status_u1:
  "fst (Status mem_redis demo_issue (calm_env 300 ''j'') ''A'' ''u1'' demo_admit) =
    Inr (status_fields 1 2 None 60\<lparr>AdmissionToken := ''u1Aj''\<rparr>)"
  by (simp add: Status_def wr_eval redis_eval demo_defs demo_admit_def demo_joined_def demo_row_def
      mark_admitted_def demo_issue_def)

theorem status_admits_in_order_witness:
  "\<exists>st. fst (Status mem_redis demo_issue (calm_env 300 ''j'') ''A'' ''u1'' demo_admit) = Inr st \<and> Admitted st"
proof -
  obtain w'' where u1: "Status mem_redis demo_issue (calm_env 300 ''j'') ''A'' ''u1'' demo_admit
      = (Inr (status_fields 1 2 None 60\<lparr>AdmissionToken := ''u1Aj''\<rparr>), w'')"
    using demo_status_u1 by (metis prod.collapse)
  have n: "\<forall>q\<in>set (queue_entries (dbs demo_admit)). q_sale_id q = ''A'' \<longrightarrow> q_user_id q = ''u2''
      \<longrightarrow> q_admitted_at q = None"
    by (simp add: demo_admit_def demo_row_def)
  from status_admits_in_order[OF demo_status_u2 u1 _ n] show ?thesis by (simp add: demo_status_u1)
qed

theorem status_admission_sticky_witness:
  "\<exists>st. fst (Status mem_redis demo_issue (calm_env 900 ''k'') ''A'' ''u2''
     ((snd (Status mem_redis demo_issue (calm_env 300 ''j'') ''A'' ''u2'' demo_admit))\<lparr>redis := Map.empty\<rparr>))
     = Inr st \<and> Admitted st"
proof -
  let ?w = "(snd (Status mem_redis demo_issue (calm_env 300 ''j'') ''A'' ''u2'' demo_admit))\<lparr>redis := Map.empty\<rparr>"
  have "\<exists>st w3. Status mem_redis demo_issue (calm_env 900 ''k'') ''A'' ''u2'' ?w = (Inr st, w3)"
    unfolding demo_status_u2
    by (simp add: Status_def wr_eval redis_eval demo_defs demo_admit_def demo_joined_def demo_row_def
        demo_issue_def)
  then obtain st w3 where s: "Status mem_redis demo_issue (calm_env 900 ''k'') ''A'' ''u2'' ?w = (Inr st, w3)"
    by blast
  from status_admission_sticky[OF demo_status_u2 _ _ _ s] show ?thesis
    unfolding s by (simp add: demo_status_u2)
qed

end
