(* ===== verification/Inventory.thy ===== *)
theory Inventory
  imports World Config "HOL-Library.Product_Lexorder"
begin

text \<open>
  \<open>internal/inventory/service.go\<close>: the seat map, holds and the release of expired holds.
  SQL statements are numbered for \<open>sql_fault\<close> in source order; a loop numbers the statements
  of each round one after the other.
\<close>

section \<open>Listing and creating seats\<close>

text \<open>
  \<open>ListAvailable\<close>. The order of section names is the database's collation, the parameter
  \<open>collate\<close>.
\<close>

definition available_in :: "string \<Rightarrow> seat_row \<Rightarrow> bool" where
  "available_in saleID r \<longleftrightarrow> st_sale_id r = saleID \<and> st_status r = Available"

definition clamp_limit :: "int \<Rightarrow> int" where
  "clamp_limit limit = (if limit \<le> 0 \<or> 500 < limit then 100 else limit)"

definition ListAvailable ::
  "(string \<Rightarrow> int) \<Rightarrow> bool \<Rightarrow> string \<Rightarrow> int \<Rightarrow> db \<Rightarrow> seat_row list result" where
  "ListAvailable collate flt saleID limit d =
     (case query_rows flt (available_in saleID) (seats d) of
        Inl err \<Rightarrow> Inl err
      | Inr rows \<Rightarrow> Inr (take (nat (clamp_limit limit))
          (sort_key (\<lambda>r. (collate (st_section r), st_row_num r, st_seat_num r)) rows)))"

definition new_seat :: "string \<Rightarrow> string \<Rightarrow> int \<Rightarrow> int \<Rightarrow> seat_row" where
  "new_seat seatID saleID r n = \<lparr>st_id = seatID, st_sale_id = saleID, st_section = ''GA'',
     st_row_num = r, st_seat_num = n, st_status = Available, st_version = 0\<rparr>"

text \<open>
  \<open>CreateSeats\<close>: the inner loop over the seats of row \<open>r\<close> leaves by \<open>break\<close> once \<open>total\<close>
  is reached; both loops thread the number of the next statement.
\<close>

fun create_cols :: "env \<Rightarrow> string \<Rightarrow> int \<Rightarrow> int \<Rightarrow> int list \<Rightarrow> nat \<Rightarrow> db \<Rightarrow> nat result \<times> db" where
  "create_cols e saleID totalSeats r [] k d = (Inr k, d)"
| "create_cols e saleID totalSeats r (n # ns) k d =
     (if (r - 1) * 50 + n > totalSeats then (Inr k, d)
      else case exec_stmt (sql_fault e k)
                  (insert_seat_or_nothing (new_seat (new_uuid e k) saleID r n)) d of
             (Inl err, d') \<Rightarrow> (Inl err, d')
           | (Inr _, d') \<Rightarrow> create_cols e saleID totalSeats r ns (Suc k) d')"

fun create_rows :: "env \<Rightarrow> string \<Rightarrow> int \<Rightarrow> int list \<Rightarrow> nat \<Rightarrow> db \<Rightarrow> unit result \<times> db" where
  "create_rows e saleID totalSeats [] k d = (Inr (), d)"
| "create_rows e saleID totalSeats (r # rs) k d =
     (case create_cols e saleID totalSeats r [1..50] k d of
        (Inl err, d') \<Rightarrow> (Inl err, d')
      | (Inr k', d') \<Rightarrow> create_rows e saleID totalSeats rs k' d')"

definition CreateSeats :: "env \<Rightarrow> string \<Rightarrow> int \<Rightarrow> db \<Rightarrow> unit result \<times> db" where
  "CreateSeats e saleID totalSeats d =
     create_rows e saleID totalSeats [1..go_div (int64 (totalSeats + 50 - 1)) 50] 0 d"

section \<open>Holding seats\<close>

record HoldResult =
  HoldID :: string
  SeatIDs :: "string list"
  ExpiresAt :: int

text \<open>The loop of \<open>Hold\<close>: one guarded \<open>UPDATE\<close> per seat, inside the transaction.\<close>

fun hold_seats :: "env \<Rightarrow> nat \<Rightarrow> string \<Rightarrow> string list \<Rightarrow> tx \<Rightarrow> unit result \<times> tx" where
  "hold_seats e k saleID [] t = (Inr (), t)"
| "hold_seats e k saleID (seatID # rest) t =
     (case tx_exec (sql_fault e k)
             (update_seats (\<lambda>r. st_id r = seatID \<and> st_sale_id r = saleID \<and> st_status r = Available) Held) t of
        (Inl err, t') \<Rightarrow> (Inl err, t')
      | (Inr n, t') \<Rightarrow> if n = 0 then (Inl ErrSeatUnavailable, t')
                       else hold_seats e (Suc k) saleID rest t')"

definition new_hold :: "config \<Rightarrow> env \<Rightarrow> string \<Rightarrow> string \<Rightarrow> string \<Rightarrow> string list \<Rightarrow> hold_row" where
  "new_hold cfg e saleID userID idem seatIDs =
     \<lparr>h_id = new_uuid e 0, h_sale_id = saleID, h_user_id = userID, h_seat_ids = Seat_Ids seatIDs,
      h_idempotency_key = idem, h_expires_at = go_now e + HoldTTL cfg, h_created_at = sql_now e\<rparr>"

text \<open>The transaction of \<open>Hold\<close>; leaving it early rolls back (\<open>defer tx.Rollback\<close>).\<close>

definition hold_tx ::
  "config \<Rightarrow> env \<Rightarrow> string \<Rightarrow> string \<Rightarrow> string \<Rightarrow> string list \<Rightarrow> db \<Rightarrow> HoldResult result \<times> db" where
  "hold_tx cfg e saleID userID idem seatIDs d =
     (if sql_fault e 2 then (Inl SqlFault, d)
      else case hold_seats e 3 saleID seatIDs (begin_tx d) of
        (Inl err, _) \<Rightarrow> (Inl err, d)
      | (Inr _, t) \<Rightarrow>
        let h = new_hold cfg e saleID userID idem seatIDs in
        (case tx_exec (sql_fault e (3 + length seatIDs)) (insert_hold h) t of
           (Inl err, _) \<Rightarrow> (Inl err, d)
         | (Inr _, t') \<Rightarrow>
           (case tx_commit (sql_fault e (4 + length seatIDs)) t' d of
              (Inl err, d') \<Rightarrow> (Inl err, d')
            | (Inr _, d') \<Rightarrow>
                (Inr \<lparr>HoldID = h_id h, SeatIDs = seatIDs, ExpiresAt = h_expires_at h\<rparr>, d'))))"

definition Hold ::
  "config \<Rightarrow> env \<Rightarrow> string \<Rightarrow> string \<Rightarrow> string \<Rightarrow> string list \<Rightarrow> db \<Rightarrow> HoldResult result \<times> db" where
  "Hold cfg e saleID userID idem seatIDs d =
     (if length seatIDs = 0 \<or> length seatIDs > 4 then (Inl (ErrMsg ''invalid seat count''), d)
      else case query_row (sql_fault e 0)
             (\<lambda>h. h_sale_id h = saleID \<and> h_user_id h = userID \<and> h_idempotency_key h = idem) (holds d) of
        Inr h \<Rightarrow>
          if h_expires_at h < go_now e then (Inl ErrHoldExpired, d)
          else (Inr \<lparr>HoldID = h_id h, SeatIDs = scan_or [] (unmarshal_ids (h_seat_ids h)),
                     ExpiresAt = h_expires_at h\<rparr>, d)
      | Inl err \<Rightarrow>
          if err \<noteq> NoRows then (Inl err, d)
          else let active = scan_or 0 (query_count (sql_fault e 1)
                 (\<lambda>h. h_sale_id h = saleID \<and> h_user_id h = userID \<and> sql_now e < h_expires_at h) (holds d))
          in if active > 0 then (Inl (ErrMsg ''active hold already exists''), d)
             else hold_tx cfg e saleID userID idem seatIDs d)"

section \<open>Releasing expired holds\<close>

text \<open>The inner loop: errors of the statements are dropped, but they abort the block.\<close>

fun release_seats :: "env \<Rightarrow> nat \<Rightarrow> string list \<Rightarrow> tx \<Rightarrow> tx" where
  "release_seats e k [] t = t"
| "release_seats e k (sid # rest) t =
     release_seats e (Suc k) rest
       (snd (tx_exec (sql_fault e k)
               (update_seats (\<lambda>r. st_id r = sid \<and> st_status r = Held) Available) t))"

text \<open>One expired hold: whether it was released, and the state after it.\<close>

definition release_hold :: "env \<Rightarrow> nat \<Rightarrow> hold_row \<Rightarrow> db \<Rightarrow> bool \<times> db" where
  "release_hold e k h d =
     (let seatIDs = scan_or [] (unmarshal_ids (h_seat_ids h));
          t1 = release_seats e k seatIDs (begin_tx d);
          t2 = snd (tx_exec (sql_fault e (k + length seatIDs)) (delete_hold (h_id h)) t1)
      in (case tx_commit (sql_fault e (k + length seatIDs + 1)) t2 d of
            (Inl _, d') \<Rightarrow> (False, d') | (Inr _, d') \<Rightarrow> (True, d')))"

text \<open>
  The outer loop over the rows that were read; it stops at a row that cannot be scanned or a
  transaction that cannot be started. The result is the count and the error, if any.
\<close>

fun release_loop :: "env \<Rightarrow> nat \<Rightarrow> hold_row list \<Rightarrow> int \<Rightarrow> db \<Rightarrow> (int \<times> error option) \<times> db" where
  "release_loop e k [] count d = ((count, None), d)"
| "release_loop e k (h # hs) count d =
     (if sql_fault e k then ((count, Some SqlFault), d)
      else if sql_fault e (k + 1) then ((count, Some SqlFault), d)
      else case release_hold e (k + 2) h d of
        (ok, d') \<Rightarrow> release_loop e (k + 4 + length (scan_or [] (unmarshal_ids (h_seat_ids h)))) hs
                      (if ok then count + 1 else count) d')"

text \<open>
  \<open>SELECT ... WHERE expires_at < NOW() LIMIT 100\<close> without an \<open>ORDER BY\<close>: \<open>pick\<close> is the order
  in which the database delivers the rows.
\<close>

definition ReleaseExpired ::
  "(hold_row list \<Rightarrow> hold_row list) \<Rightarrow> env \<Rightarrow> db \<Rightarrow> (int \<times> error option) \<times> db" where
  "ReleaseExpired pick e d =
     (case query_rows (sql_fault e 0) (\<lambda>h. h_expires_at h < sql_now e) (holds d) of
        Inl err \<Rightarrow> ((0, Some err), d)
      | Inr rows \<Rightarrow> release_loop e 1 (take 100 (pick rows)) 0 d)"

end
