(* ===== verification/Stock.thy ===== *)
theory Stock
  imports Inventory "HOL-Library.Multiset"
begin

text \<open>
  The seat stock of \<open>internal/inventory/service.go\<close> as a whole: the invariant that ties seats,
  holds and tickets together, that every operation of \<open>Inventory\<close> keeps it whatever statement
  fails, what each operation does when none fails, and the properties of the component.
\<close>

section \<open>The stock invariant\<close>

text \<open>The seats a hold reserves, and all reserved seats in table order.\<close>

definition hold_ids :: "hold_row \<Rightarrow> string list" where
  "hold_ids h = scan_or [] (unmarshal_ids (h_seat_ids h))"

definition reserved :: "db \<Rightarrow> string list" where
  "reserved d = concat (map hold_ids (holds d))"

definition seat_at :: "db \<Rightarrow> string \<Rightarrow> seat_row option" where
  "seat_at d i = find (\<lambda>r. st_id r = i) (seats d)"

text \<open>
  Seat and hold identifiers are keys; no seat is reserved twice; a seat is \<open>held\<close> exactly when
  a hold of its sale reserves it; and a seat is \<open>sold\<close> exactly when a ticket names it.
\<close>

definition stock_inv :: "db \<Rightarrow> bool" where
  "stock_inv d \<longleftrightarrow> distinct (map st_id (seats d)) \<and> distinct (map h_id (holds d))
     \<and> distinct (reserved d)
     \<and> (\<forall>h\<in>set (holds d). \<forall>i\<in>set (hold_ids h). \<exists>r. seat_at d i = Some r
          \<and> st_sale_id r = h_sale_id h \<and> st_status r = Held)
     \<and> (\<forall>i r. seat_at d i = Some r \<longrightarrow> st_status r = Held \<longrightarrow> i \<in> set (reserved d))
     \<and> (\<forall>i r. seat_at d i = Some r \<longrightarrow> (st_status r = Sold \<longleftrightarrow> i \<in> t_seat_id ` set (tickets d)))
     \<and> t_seat_id ` set (tickets d) \<subseteq> st_id ` set (seats d)"

lemma seat_at_row:
  "distinct (map st_id (seats d)) \<Longrightarrow> r \<in> set (seats d) \<Longrightarrow> seat_at d (st_id r) = Some r"
  unfolding seat_at_def by (rule find_unique) (auto dest: distinct_map_inj)

lemma sold_ticket:
  "stock_inv d \<Longrightarrow> seat_at d i = Some r \<Longrightarrow> st_status r = Sold \<longleftrightarrow> i \<in> t_seat_id ` set (tickets d)"
  unfolding stock_inv_def by blast

lemma unsold:
  "stock_inv d \<Longrightarrow> seat_at d i = Some r \<Longrightarrow> st_status r \<noteq> Sold \<Longrightarrow> i \<notin> t_seat_id ` set (tickets d)"
  unfolding stock_inv_def by blast

lemma hold_seat:
  "stock_inv d \<Longrightarrow> h \<in> set (holds d) \<Longrightarrow> i \<in> set (hold_ids h) \<Longrightarrow>
     \<exists>r. seat_at d i = Some r \<and> st_sale_id r = h_sale_id h \<and> st_status r = Held"
  by (simp add: stock_inv_def)

lemma reserved_held:
  assumes "stock_inv d" and "i \<in> set (reserved d)"
  shows "\<exists>r. seat_at d i = Some r \<and> st_status r = Held"
  using assms unfolding stock_inv_def reserved_def by fastforce

text \<open>Setting the status of the seats that satisfy \<open>p\<close>.\<close>

definition set_status :: "seat_status \<Rightarrow> seat_row \<Rightarrow> seat_row" where
  "set_status st r = r\<lparr>st_status := st, st_version := st_version r + 1\<rparr>"

lemma set_status_simps [simp]:
  "st_id (set_status st r) = st_id r" "st_sale_id (set_status st r) = st_sale_id r"
  "st_status (set_status st r) = st" "seat_key (set_status st r) = seat_key r"
  by (simp_all add: set_status_def seat_key_def)

lemma update_seats_eq:
  "update_seats p st d = Inr (d\<lparr>seats := update_where p (set_status st) (seats d)\<rparr>, rows_affected p (seats d))"
  by (simp add: update_seats_def set_status_def[abs_def])

lemma seat_at_update:
  "seats d' = update_where p (set_status st) (seats d) \<Longrightarrow>
     seat_at d' i = map_option (\<lambda>r. if p r then set_status st r else r) (seat_at d i)"
  unfolding seat_at_def update_where_def by (simp add: find_map_same)

lemma update_where_twice:
  "(\<And>r. q (f r) \<Longrightarrow> False) \<Longrightarrow>
     update_where q f (update_where p f rows) = update_where (\<lambda>r. p r \<or> q r) f rows"
  by (induction rows) auto

section \<open>Hold\<close>

definition takeable :: "string \<Rightarrow> string list \<Rightarrow> seat_row \<Rightarrow> bool" where
  "takeable saleID ids r \<longleftrightarrow> st_id r \<in> set ids \<and> st_sale_id r = saleID \<and> st_status r = Available"

text \<open>
  A loop that runs to its end has found every seat available, each of them once, and has marked
  exactly these.
\<close>

lemma hold_seats_ok:
  assumes "hold_seats e k s ids t = (Inr (), t')"
  shows "tx_db t' = (tx_db t)\<lparr>seats := update_where (takeable s ids) (set_status Held) (seats (tx_db t))\<rparr>
    \<and> distinct ids
    \<and> (\<forall>i\<in>set ids. \<exists>r\<in>set (seats (tx_db t)). st_id r = i \<and> st_sale_id r = s \<and> st_status r = Available)"
  using assms
proof (induction ids arbitrary: k t)
  case Nil
  have "update_where (takeable s []) (set_status Held) rows = rows" for rows
    by (induction rows) (auto simp: takeable_def)
  with Nil show ?case by simp
next
  case (Cons i ids)
  let ?p = "\<lambda>r. st_id r = i \<and> st_sale_id r = s \<and> st_status r = Available"
  obtain n t1 where x: "tx_exec (sql_fault e k) (update_seats ?p Held) t = (Inr n, t1)" and "n \<noteq> 0"
    and rest: "hold_seats e (Suc k) s ids t1 = (Inr (), t')"
    using Cons.prems by (auto split: prod.splits sum.splits if_splits)
  have t1: "tx_db t1 = (tx_db t)\<lparr>seats := update_where ?p (set_status Held) (seats (tx_db t))\<rparr>"
    and "n = rows_affected ?p (seats (tx_db t))"
    using tx_exec_ok(3)[OF x] by (auto simp: update_seats_eq)
  with \<open>n \<noteq> 0\<close> have found: "\<exists>r\<in>set (seats (tx_db t)). ?p r"
    using rows_affected_0[of ?p "seats (tx_db t)"] by auto
  note IH = Cons.IH[OF rest]
  have later: "\<exists>r\<in>set (seats (tx_db t)). st_id r = j \<and> st_sale_id r = s \<and> st_status r = Available \<and> j \<noteq> i"
    if j: "j \<in> set ids" for j
  proof -
    obtain r1 where in1: "r1 \<in> set (update_where ?p (set_status Held) (seats (tx_db t)))"
      and "st_id r1 = j" "st_sale_id r1 = s" "st_status r1 = Available"
      using bspec[OF conjunct2[OF conjunct2[OF IH]] j] by (auto simp: t1)
    obtain r where r: "r \<in> set (seats (tx_db t))" and r1: "r1 = (if ?p r then set_status Held r else r)"
      using imageE[OF in1[unfolded set_update_where]] by blast
    have "\<not> ?p r" using r1 \<open>st_status r1 = Available\<close> by (cases "?p r") auto
    with r1 r \<open>st_id r1 = j\<close> \<open>st_sale_id r1 = s\<close> \<open>st_status r1 = Available\<close> show ?thesis
      by (intro bexI[of _ r]) auto
  qed
  have "update_where (takeable s ids) (set_status Held) (update_where ?p (set_status Held) rows)
      = update_where (takeable s (i # ids)) (set_status Held) rows" for rows
    by (subst update_where_twice) (auto simp: takeable_def update_where_def)
  moreover have "distinct (i # ids)" using IH later by auto
  ultimately show ?case using IH t1 found later by auto
qed

lemma hold_seats_live: "hold_seats e k s ids t = (Inr (), t') \<Longrightarrow> \<not> tx_aborted t \<Longrightarrow> \<not> tx_aborted t'"
  by (induction ids arbitrary: k t) (auto split: prod.splits sum.splits if_splits dest: tx_exec_ok(4))

lemma hold_tx_ok:
  assumes "hold_tx cfg e s u idem ids d = (Inr res, d')"
  shows "d' = d\<lparr>seats := update_where (takeable s ids) (set_status Held) (seats d),
                holds := holds d @ [new_hold cfg e s u idem ids]\<rparr>"
    and "distinct ids"
    and "\<forall>i\<in>set ids. \<exists>r\<in>set (seats d). st_id r = i \<and> st_sale_id r = s \<and> st_status r = Available"
    and "new_uuid e 0 \<notin> h_id ` set (holds d)"
    and "res = \<lparr>HoldID = new_uuid e 0, SeatIDs = ids, ExpiresAt = go_now e + HoldTTL cfg\<rparr>"
proof -
  obtain t k t' where l: "hold_seats e 3 s ids (begin_tx d) = (Inr (), t)"
    and x: "tx_exec (sql_fault e (3 + length ids)) (insert_hold (new_hold cfg e s u idem ids)) t = (Inr k, t')"
    and c: "tx_commit (sql_fault e (4 + length ids)) t' d = (Inr (), d')"
    and res: "res = \<lparr>HoldID = new_uuid e 0, SeatIDs = ids, ExpiresAt = go_now e + HoldTTL cfg\<rparr>"
    using assms by (auto simp: hold_tx_def Let_def new_hold_def split: if_splits prod.splits sum.splits)
  note L = hold_seats_ok[OF l] and X = tx_exec_ok(3)[OF x]
  have d': "d' = tx_db t'" using c by (auto elim: tx_commit_cases)
  show "d' = d\<lparr>seats := update_where (takeable s ids) (set_status Held) (seats d),
                holds := holds d @ [new_hold cfg e s u idem ids]\<rparr>"
    and "new_uuid e 0 \<notin> h_id ` set (holds d)"
    using L X d' by (auto simp: insert_hold_def begin_tx_def new_hold_def split: if_splits)
  show "distinct ids"
    and "\<forall>i\<in>set ids. \<exists>r\<in>set (seats d). st_id r = i \<and> st_sale_id r = s \<and> st_status r = Available"
    using L by (simp_all add: begin_tx_def)
  show "res = \<lparr>HoldID = new_uuid e 0, SeatIDs = ids, ExpiresAt = go_now e + HoldTTL cfg\<rparr>" by (rule res)
qed

lemma hold_tx_error: "hold_tx cfg e s u idem ids d = (Inl er, d') \<Longrightarrow> d' = d"
  by (auto simp: hold_tx_def Let_def split: if_splits prod.splits sum.splits elim: tx_commit_cases)

text \<open>A call of \<open>Hold\<close> changes the database only by a committed transaction.\<close>

lemma Hold_cases:
  assumes "Hold cfg e s u idem ids d = (r, d')"
  obtains (unchanged) "d' = d"
  | (held) res where "r = Inr res" "hold_tx cfg e s u idem ids d = (Inr res, d')"
      "\<forall>h\<in>set (holds d). \<not> (h_sale_id h = s \<and> h_user_id h = u \<and> h_idempotency_key h = idem)"
      "ids \<noteq> []" "length ids \<le> 4"
proof (cases "d' = d")
  case True
  with that(1) show ?thesis .
next
  case False
  have q: "query_row flt p rows = Inl NoRows \<Longrightarrow> \<forall>x\<in>set rows. \<not> p x" for flt and p :: "hold_row \<Rightarrow> bool" and rows
    by (auto simp: query_row_def split: if_splits option.splits dest: find_NoneD)
  have "hold_tx cfg e s u idem ids d = (r, d') \<and> ids \<noteq> [] \<and> length ids \<le> 4
    \<and> (\<forall>h\<in>set (holds d). \<not> (h_sale_id h = s \<and> h_user_id h = u \<and> h_idempotency_key h = idem))"
    using assms False by (auto simp: Hold_def Let_def split: if_splits sum.splits dest!: q)
  with False hold_tx_error[of cfg e s u idem ids d _ d'] that(2) show ?thesis
    by (cases r) auto
qed

lemma reserved_append: "reserved (d\<lparr>seats := x, holds := holds d @ [h]\<rparr>) = reserved d @ hold_ids h"
  by (simp add: reserved_def)

lemma new_hold_simps [simp]:
  "h_id (new_hold cfg e s u idem ids) = new_uuid e 0" "h_sale_id (new_hold cfg e s u idem ids) = s"
  "hold_ids (new_hold cfg e s u idem ids) = ids"
  by (simp_all add: new_hold_def hold_ids_def)

lemma hold_tx_stock:
  assumes "hold_tx cfg e s u idem ids d = (Inr res, d')" and inv: "stock_inv d"
  shows "stock_inv d'"
proof -
  note h = hold_tx_ok[OF assms(1)]
  have free: "\<exists>r. seat_at d i = Some r \<and> takeable s ids r" if "i \<in> set ids" for i
    using h(3) that inv seat_at_row[of d] by (fastforce simp: takeable_def stock_inv_def)
  have kept: "\<not> takeable s ids r" if "seat_at d i = Some r" "i \<notin> set ids" for i r
    using that by (auto simp: takeable_def seat_at_def dest!: find_SomeD)
  have disj: "set ids \<inter> set (reserved d) = {}"
    using free reserved_held[OF inv] by (fastforce simp: takeable_def)
  have at: "seat_at d' i = map_option (\<lambda>r. if takeable s ids r then set_status Held r else r) (seat_at d i)" for i
    using h(1) by (intro seat_at_update) simp
  have in_ids: "\<exists>r. seat_at d' i = Some r \<and> st_sale_id r = s \<and> st_status r = Held" if "i \<in> set ids" for i
    using free[OF that] at[of i] by (auto simp: takeable_def)
  have out_ids: "seat_at d' i = seat_at d i" if "i \<notin> set ids" for i
    using kept[OF _ that] at[of i] by (cases "seat_at d i") auto
  have free_status: "i \<notin> t_seat_id ` set (tickets d)" if i: "i \<in> set ids" for i
  proof -
    obtain r where "seat_at d i = Some r" "st_status r = Available"
      using free[OF i] by (auto simp: takeable_def)
    then show ?thesis using unsold[OF inv] by simp
  qed
  have holds': "\<exists>r. seat_at d' i = Some r \<and> st_sale_id r = h_sale_id x \<and> st_status r = Held"
    if "x \<in> set (holds d')" "i \<in> set (hold_ids x)" for x i
  proof (cases "x \<in> set (holds d)")
    case True
    with that(2) disj have "i \<notin> set ids" by (auto simp: reserved_def)
    with True that(2) inv out_ids show ?thesis by (simp add: stock_inv_def)
  next
    case False
    with that h(1) in_ids show ?thesis by auto
  qed
  have res': "i \<in> set (reserved d') \<longleftrightarrow> i \<in> set (reserved d) \<or> i \<in> set ids" for i
    by (simp add: h(1) reserved_append)
  have "tickets d' = tickets d" by (simp add: h(1))
  have held': "i \<in> set (reserved d')" if "seat_at d' i = Some r" "st_status r = Held" for i r
  proof (cases "i \<in> set ids")
    case False
    with that out_ids inv show ?thesis unfolding res' by (auto simp: stock_inv_def)
  qed (simp add: res')
  have sold': "st_status r = Sold \<longleftrightarrow> i \<in> t_seat_id ` set (tickets d')" if "seat_at d' i = Some r" for i r
  proof (cases "i \<in> set ids")
    case True
    with that in_ids[of i] free_status[of i] \<open>tickets d' = tickets d\<close> show ?thesis by simp
  next
    case False
    with that out_ids[of i] inv \<open>tickets d' = tickets d\<close> show ?thesis unfolding stock_inv_def by simp
  qed
  show ?thesis unfolding stock_inv_def
  proof (intro conjI allI impI)
    show "distinct (reserved d')" using inv h(2) disj by (auto simp: stock_inv_def h(1) reserved_append)
    show "distinct (map st_id (seats d'))" "distinct (map h_id (holds d'))"
      "t_seat_id ` set (tickets d') \<subseteq> st_id ` set (seats d')"
      using inv h(4) by (simp_all add: stock_inv_def h(1))
  qed (use holds' held' sold' in blast)+
qed

lemma Hold_stock:
  assumes "Hold cfg e s u idem ids d = (r, d')" and "stock_inv d"
  shows "stock_inv d'"
  using assms(1) by (rule Hold_cases) (use assms(2) in \<open>auto dest: hold_tx_stock\<close>)

section \<open>Releasing\<close>

definition freeing :: "hold_row \<Rightarrow> seat_row \<Rightarrow> bool" where
  "freeing h r \<longleftrightarrow> st_id r \<in> set (hold_ids h) \<and> st_status r = Held"

definition freed :: "hold_row \<Rightarrow> db \<Rightarrow> db" where
  "freed h d = d\<lparr>seats := update_where (freeing h) (set_status Available) (seats d),
                 holds := filter (\<lambda>x. h_id x \<noteq> h_id h) (holds d)\<rparr>"

lemma release_seats_aborted: "tx_aborted t \<Longrightarrow> release_seats e k ids t = t"
  by (induction ids arbitrary: k) auto

lemma release_seats_db:
  "\<not> tx_aborted (release_seats e k ids t) \<Longrightarrow>
     tx_db (release_seats e k ids t) = (tx_db t)\<lparr>seats :=
       update_where (\<lambda>r. st_id r \<in> set ids \<and> st_status r = Held) (set_status Available) (seats (tx_db t))\<rparr>"
proof (induction ids arbitrary: k t)
  case Nil
  have "update_where (\<lambda>r. False) f rows = rows" for f :: "seat_row \<Rightarrow> seat_row" and rows
    by (induction rows) auto
  then show ?case by simp
next
  case (Cons i ids)
  let ?p = "\<lambda>r. st_id r = i \<and> st_status r = Held"
  let ?t1 = "snd (tx_exec (sql_fault e k) (update_seats ?p Available) t)"
  have live: "\<not> tx_aborted ?t1"
    using Cons.prems release_seats_aborted[of ?t1] by auto
  then have t1: "tx_db ?t1 = (tx_db t)\<lparr>seats := update_where ?p (set_status Available) (seats (tx_db t))\<rparr>"
    by (auto simp: tx_exec_def update_seats_eq split: if_splits)
  have "update_where (\<lambda>r. st_id r \<in> set ids \<and> st_status r = Held) (set_status Available)
      (update_where ?p (set_status Available) rows)
    = update_where (\<lambda>r. st_id r \<in> set (i # ids) \<and> st_status r = Held) (set_status Available) rows" for rows
    by (subst update_where_twice) (auto simp: update_where_def)
  with Cons.IH[of "Suc k" ?t1] Cons.prems t1 show ?case by simp
qed

lemma release_seats_live:
  "no_faults e \<Longrightarrow> \<not> tx_aborted t \<Longrightarrow> \<not> tx_aborted (release_seats e k ids t)"
  by (induction ids arbitrary: k t) (auto simp: tx_exec_def update_seats_eq)

text \<open>A hold is released completely or not at all, whatever statement fails.\<close>

lemma release_hold_cases:
  "release_hold e k h d = (b, d') \<Longrightarrow> d' = (if b then freed h d else d)"
proof -
  assume a: "release_hold e k h d = (b, d')"
  let ?t1 = "release_seats e k (hold_ids h) (begin_tx d)"
  let ?flt = "sql_fault e (k + length (hold_ids h))"
  let ?t2 = "snd (tx_exec ?flt (delete_hold (h_id h)) ?t1)"
  obtain r where c: "tx_commit (sql_fault e (k + length (hold_ids h) + 1)) ?t2 d = (r, d')"
    and b: "b \<longleftrightarrow> is_ok r"
    using a by (auto simp: release_hold_def Let_def hold_ids_def split: prod.splits sum.splits)
  show "d' = (if b then freed h d else d)"
    using c
  proof (cases rule: tx_commit_cases)
    case committed
    then have "\<not> tx_aborted ?t1" by auto
    from release_seats_db[OF this] committed b show ?thesis
      by (auto simp: tx_exec_def delete_hold_def freed_def begin_tx_def freeing_def[abs_def] split: if_splits)
  next
    case rolled_back
    with b show ?thesis by simp
  qed
qed

lemma release_hold_succeeds:
  assumes "no_faults e" and "Some (h_id h) \<notin> o_hold_id ` set (orders d)"
  shows "release_hold e k h d = (True, freed h d)"
proof -
  let ?t1 = "release_seats e k (hold_ids h) (begin_tx d)"
  have l: "\<not> tx_aborted ?t1" using assms(1) by (intro release_seats_live) (simp_all add: begin_tx_def)
  note t1 = release_seats_db[OF this]
  have "fst (release_hold e k h d)"
    using l t1 assms
    by (auto simp: release_hold_def Let_def hold_ids_def[symmetric] tx_exec_def delete_hold_def tx_commit_def begin_tx_def)
  then show ?thesis
    using release_hold_cases[of e k h d] by (cases "release_hold e k h d") auto
qed

lemma reserved_freed:
  assumes "distinct (map h_id (holds d))" and "h \<in> set (holds d)" and "distinct (reserved d)"
  shows "distinct (reserved (freed h d)) \<and> set (reserved (freed h d)) = set (reserved d) - set (hold_ids h)"
proof -
  obtain xs ys where s: "holds d = xs @ h # ys" using assms(2) by (auto dest: split_list)
  have "filter (\<lambda>x. h_id x \<noteq> h_id h) xs = xs" "filter (\<lambda>x. h_id x \<noteq> h_id h) ys = ys"
    using assms(1) by (auto simp: s filter_id_conv) (metis image_eqI)+
  then have "holds (freed h d) = xs @ ys" by (simp add: freed_def s)
  with assms(3) show ?thesis by (auto simp: reserved_def s)
qed

lemma freed_stock:
  assumes inv: "stock_inv d" and h: "h \<in> set (holds d)"
  shows "stock_inv (freed h d)"
proof -
  have at: "seat_at (freed h d) i = map_option (\<lambda>r. if freeing h r then set_status Available r else r) (seat_at d i)" for i
    by (rule seat_at_update) (simp add: freed_def)
  have id: "seat_at d i = Some r \<Longrightarrow> st_id r = i" for i r
    by (auto simp: seat_at_def dest!: find_SomeD)
  have out: "seat_at (freed h d) i = seat_at d i" if "i \<notin> set (hold_ids h)" for i
    using that id at[of i] by (cases "seat_at d i") (auto simp: freeing_def)
  have "in": "\<exists>r. seat_at (freed h d) i = Some r \<and> st_status r = Available \<and> i \<notin> t_seat_id ` set (tickets d)"
    if i: "i \<in> set (hold_ids h)" for i
  proof -
    obtain r where r: "seat_at d i = Some r" "st_status r = Held" using hold_seat[OF inv h i] by blast
    have "i \<notin> t_seat_id ` set (tickets d)" using unsold[OF inv r(1)] r(2) by simp
    with r id at[of i] i show ?thesis by (auto simp: freeing_def)
  qed
  have R: "distinct (reserved (freed h d))" "set (reserved (freed h d)) = set (reserved d) - set (hold_ids h)"
    using reserved_freed[OF _ h] inv by (simp_all add: stock_inv_def)
  have sub: "x \<in> set (holds d)" if "x \<in> set (holds (freed h d))" for x using that by (simp add: freed_def)
  show ?thesis unfolding stock_inv_def
  proof (intro conjI allI impI ballI)
    show "distinct (map st_id (seats (freed h d)))" "distinct (map h_id (holds (freed h d)))"
      "t_seat_id ` set (tickets (freed h d)) \<subseteq> st_id ` set (seats (freed h d))"
      using inv by (auto simp: stock_inv_def freed_def distinct_map_filter)
    show "distinct (reserved (freed h d))" by (rule R)
  next
    fix x i assume x: "x \<in> set (holds (freed h d))" "i \<in> set (hold_ids x)"
    then have "i \<in> set (reserved (freed h d))" by (auto simp: reserved_def)
    then have "i \<notin> set (hold_ids h)" using R(2) by blast
    with x sub out inv show "\<exists>r. seat_at (freed h d) i = Some r \<and> st_sale_id r = h_sale_id x \<and> st_status r = Held"
      by (simp add: stock_inv_def)
  next
    fix i r assume r: "seat_at (freed h d) i = Some r" "st_status r = Held"
    have "i \<notin> set (hold_ids h)" using "in"[of i] r by auto
    with r out inv R(2) show "i \<in> set (reserved (freed h d))" by (auto simp: stock_inv_def)
  next
    fix i r assume r: "seat_at (freed h d) i = Some r"
    have t: "tickets (freed h d) = tickets d" by (simp add: freed_def)
    show "st_status r = Sold \<longleftrightarrow> i \<in> t_seat_id ` set (tickets (freed h d))"
    proof (cases "i \<in> set (hold_ids h)")
      case True
      with "in"[of i] r t show ?thesis by simp
    next
      case False
      with r out[of i] inv t show ?thesis unfolding stock_inv_def by simp
    qed
  qed
qed

text \<open>The loop keeps the invariant, and without faults releases every hold no order names.\<close>

lemma others_kept:
  assumes "distinct (map h_id (h # hs))" and "set (h # hs) \<subseteq> set (holds d)"
  shows "set hs \<subseteq> set (holds (freed h d))"
proof
  fix x assume "x \<in> set hs"
  then have "h_id x \<noteq> h_id h" using assms(1) by (metis distinct.simps(2) image_eqI list.simps(9) set_map)
  with \<open>x \<in> set hs\<close> assms(2) show "x \<in> set (holds (freed h d))" by (auto simp: freed_def)
qed

lemma release_loop_stock:
  assumes "release_loop e k hs c d = (r, d')" and "stock_inv d" and "set hs \<subseteq> set (holds d)"
    and "distinct (map h_id hs)"
  shows "stock_inv d'"
  using assms
proof (induction hs arbitrary: k c d)
  case (Cons h hs)
  obtain b d1 where x: "release_hold e (k + 2) h d = (b, d1)" by fastforce
  have d1: "d1 = (if b then freed h d else d)" by (rule release_hold_cases[OF x])
  have "stock_inv d1" "set hs \<subseteq> set (holds d1)"
    using Cons.prems(2-4) freed_stock[of d h] others_kept[of h hs d] by (simp_all add: d1)
  with Cons.IH[of _ _ d1] Cons.prems x show ?case by (auto split: if_splits)
qed simp

definition freed_all :: "hold_row list \<Rightarrow> db \<Rightarrow> db" where
  "freed_all hs d = fold freed hs d"

lemma release_loop_all:
  assumes "no_faults e" and "\<forall>h\<in>set hs. Some (h_id h) \<notin> o_hold_id ` set (orders d)"
  shows "release_loop e k hs c d = ((c + int (length hs), None), freed_all hs d)"
  using assms
proof (induction hs arbitrary: k c d)
  case (Cons h hs)
  have "\<forall>x\<in>set hs. Some (h_id x) \<notin> o_hold_id ` set (orders (freed h d))"
    using Cons.prems(2) by (simp add: freed_def)
  with Cons release_hold_succeeds[of e h d "k + 2"] show ?case by (simp add: freed_all_def)
qed (simp add: freed_all_def)

lemma holds_freed_all: "holds (freed_all hs d) = filter (\<lambda>x. h_id x \<notin> h_id ` set hs) (holds d)"
  by (induction hs arbitrary: d) (auto simp: freed_all_def freed_def intro!: filter_cong)

lemma freed_all_stock:
  "stock_inv d \<Longrightarrow> set hs \<subseteq> set (holds d) \<Longrightarrow> distinct (map h_id hs) \<Longrightarrow> stock_inv (freed_all hs d)"
proof (induction hs arbitrary: d)
  case (Cons h hs)
  then have "stock_inv (freed h d)" "set hs \<subseteq> set (holds (freed h d))"
    using freed_stock[of d h] others_kept[of h hs d] by simp_all
  with Cons show ?case by (simp add: freed_all_def)
qed (simp add: freed_all_def)

section \<open>What a hold does when no statement fails\<close>

lemma hold_seats_total:
  assumes "no_faults e" and "\<not> tx_aborted t"
  shows "fst (hold_seats e k s ids t) =
    (if distinct ids \<and> (\<forall>i\<in>set ids. \<exists>r\<in>set (seats (tx_db t)). takeable s [i] r) then Inr () else Inl ErrSeatUnavailable)"
  using assms(2)
proof (induction ids arbitrary: k t)
  case (Cons i ids)
  let ?p = "\<lambda>r. st_id r = i \<and> st_sale_id r = s \<and> st_status r = Available"
  let ?rows = "seats (tx_db t)"
  let ?t1 = "t\<lparr>tx_db := (tx_db t)\<lparr>seats := update_where ?p (set_status Held) ?rows\<rparr>\<rparr>"
  have x: "tx_exec (sql_fault e k) (update_seats ?p Held) t = (Inr (rows_affected ?p ?rows), ?t1)"
    using assms(1) Cons.prems by (simp add: tx_exec_def update_seats_eq)
  have p: "?p = takeable s [i]" by (auto simp: takeable_def)
  show ?case
  proof (cases "\<exists>r\<in>set ?rows. takeable s [i] r")
    case False
    then have "rows_affected ?p ?rows = 0" unfolding p rows_affected_0 by blast
    with False x show ?thesis by auto
  next
    case True
    then have n: "rows_affected ?p ?rows \<noteq> 0" unfolding p rows_affected_0 by blast
    have "takeable s [j] (if ?p r then set_status Held r else r) \<longleftrightarrow> j \<noteq> i \<and> takeable s [j] r" for j r
      by (auto simp: takeable_def)
    then have "(\<exists>r\<in>set (seats (tx_db ?t1)). takeable s [j] r) \<longleftrightarrow> j \<noteq> i \<and> (\<exists>r\<in>set ?rows. takeable s [j] r)" for j
      by (simp add: set_update_where del: if_image_distrib)
    note later = this
    have al: "\<not> tx_aborted ?t1" using Cons.prems by simp
    have "fst (hold_seats e k s (i # ids) t) = fst (hold_seats e (Suc k) s ids ?t1)"
      using n x by simp
    also have "\<dots> = (if distinct ids \<and> (\<forall>j\<in>set ids. j \<noteq> i \<and> (\<exists>r\<in>set ?rows. takeable s [j] r))
        then Inr () else Inl ErrSeatUnavailable)"
      using Cons.IH[OF al, of "Suc k"] unfolding later .
    also have "\<dots> = (if distinct (i # ids) \<and> (\<forall>j\<in>set (i # ids). \<exists>r\<in>set ?rows. takeable s [j] r)
        then Inr () else Inl ErrSeatUnavailable)"
      using True by (intro if_cong refl) auto
    finally show ?thesis .
  qed
qed simp

lemma takeable_each:
  "(\<forall>i\<in>set ids. \<exists>r\<in>set rows. takeable s [i] r)
     \<longleftrightarrow> (\<forall>i\<in>set ids. \<exists>r\<in>set rows. st_id r = i \<and> st_sale_id r = s \<and> st_status r = Available)"
  by (auto simp: takeable_def)

definition hold_done :: "config \<Rightarrow> env \<Rightarrow> string \<Rightarrow> string \<Rightarrow> string \<Rightarrow> string list \<Rightarrow> db \<Rightarrow> db" where
  "hold_done cfg e s u idem ids d = d\<lparr>seats := update_where (takeable s ids) (set_status Held) (seats d),
     holds := holds d @ [new_hold cfg e s u idem ids]\<rparr>"

text \<open>The caller may hold: the sale and the user exist, no live hold, an unused key and identifier.\<close>

definition may_hold :: "env \<Rightarrow> string \<Rightarrow> string \<Rightarrow> string \<Rightarrow> db \<Rightarrow> bool" where
  "may_hold e s u idem d \<longleftrightarrow> s \<in> s_id ` set (sales d) \<and> u \<in> u_id ` set (users d)
     \<and> new_uuid e 0 \<notin> h_id ` set (holds d)
     \<and> (\<forall>h\<in>set (holds d). h_sale_id h = s \<longrightarrow> h_user_id h = u \<longrightarrow>
           h_idempotency_key h \<noteq> idem \<and> h_expires_at h \<le> sql_now e)"

lemma hold_tx_total:
  assumes nf: "no_faults e" and m: "may_hold e s u idem d"
  shows "hold_tx cfg e s u idem ids d =
    (if distinct ids \<and> (\<forall>i\<in>set ids. \<exists>r\<in>set (seats d). takeable s [i] r)
     then (Inr \<lparr>HoldID = new_uuid e 0, SeatIDs = ids, ExpiresAt = go_now e + HoldTTL cfg\<rparr>, hold_done cfg e s u idem ids d)
     else (Inl ErrSeatUnavailable, d))"
proof -
  obtain r t where l: "hold_seats e 3 s ids (begin_tx d) = (r, t)" by fastforce
  have r: "r = (if distinct ids \<and> (\<forall>i\<in>set ids. \<exists>r\<in>set (seats d). takeable s [i] r) then Inr () else Inl ErrSeatUnavailable)"
    using hold_seats_total[OF nf, of "begin_tx d" 3 s ids] l by (simp add: begin_tx_def)
  show ?thesis
  proof (cases r)
    case (Inl er)
    with l r nf show ?thesis by (auto simp: hold_tx_def split: if_splits)
  next
    case (Inr x)
    with l have l': "hold_seats e 3 s ids (begin_tx d) = (Inr (), t)" by simp
    have al: "\<not> tx_aborted t" by (rule hold_seats_live[OF l']) (simp add: begin_tx_def)
    have tdb: "tx_db t = d\<lparr>seats := update_where (takeable s ids) (set_status Held) (seats d)\<rparr>"
      using hold_seats_ok[OF l'] by (simp add: begin_tx_def)
    have "insert_hold (new_hold cfg e s u idem ids) (tx_db t) = Inr (hold_done cfg e s u idem ids d, 1)"
      using m by (auto simp: insert_hold_def tdb may_hold_def hold_done_def new_hold_def)
    with nf l' al r Inr show ?thesis
      by (auto simp: hold_tx_def tx_exec_def tx_commit_def Let_def new_hold_def split: if_splits)
  qed
qed

lemma Hold_may:
  assumes "may_hold e s u idem d" and "no_faults e" and "ids \<noteq> []" and "length ids \<le> 4"
  shows "Hold cfg e s u idem ids d = hold_tx cfg e s u idem ids d"
proof -
  have "find (\<lambda>h. h_sale_id h = s \<and> h_user_id h = u \<and> h_idempotency_key h = idem) (holds d) = None"
    using assms(1) unfolding find_None_iff may_hold_def by blast
  moreover have "filter (\<lambda>h. h_sale_id h = s \<and> h_user_id h = u \<and> sql_now e < h_expires_at h) (holds d) = []"
    using assms(1) unfolding filter_empty_conv may_hold_def by force
  ultimately show ?thesis using assms(2-4) by (simp add: Hold_def query_row_def query_count_def)
qed

lemma Hold_counts: "ids = [] \<or> 4 < length ids \<Longrightarrow> Hold cfg e s u idem ids d = (Inl (ErrMsg ''invalid seat count''), d)"
  by (auto simp: Hold_def)

section \<open>Creating seats\<close>

lemma insert_seat_stock:
  assumes inv: "stock_inv d" and i: "insert_seat_or_nothing r d = Inr (d', n)" and a: "st_status r = Available"
  shows "stock_inv d'"
proof (cases "d' = d")
  case False
  with i have d': "d' = d\<lparr>seats := seats d @ [r]\<rparr>" and fresh: "st_id r \<notin> st_id ` set (seats d)"
    by (auto simp: insert_seat_or_nothing_def split: if_splits)
  have none: "seat_at d (st_id r) = None"
    unfolding seat_at_def find_None_iff using fresh by (metis image_eqI)
  have at: "seat_at d' i = (if i = st_id r then Some r else seat_at d i)" for i
    using none by (auto simp: seat_at_def d' find_append split: option.splits)
  have res: "reserved d' = reserved d" "holds d' = holds d" "tickets d' = tickets d"
    by (simp_all add: d' reserved_def)
  have "st_id r \<notin> t_seat_id ` set (tickets d)" using inv fresh by (auto simp: stock_inv_def)
  moreover have "i \<noteq> st_id r" if "h \<in> set (holds d)" "i \<in> set (hold_ids h)" for h i
    using hold_seat[OF inv that] none by auto
  ultimately show ?thesis
    using inv a fresh unfolding stock_inv_def res at by (auto simp: d' split: if_splits)
qed (use inv in simp)

lemma exec_stmt_effect: "exec_stmt flt stmt d = (r, d') \<Longrightarrow> d' = d \<or> (\<exists>n. stmt d = Inr (d', n))"
  by (auto simp: exec_stmt_def split: if_splits sum.splits)

lemma create_cols_stock: "create_cols e s m r ns k d = (x, d') \<Longrightarrow> stock_inv d \<Longrightarrow> stock_inv d'"
proof (induction ns arbitrary: k d)
  case (Cons n ns)
  obtain y d1 where i: "exec_stmt (sql_fault e k) (insert_seat_or_nothing (new_seat (new_uuid e k) s r n)) d = (y, d1)"
    by fastforce
  have "stock_inv d1"
    using exec_stmt_effect[OF i] Cons.prems(2) by (auto dest: insert_seat_stock simp: new_seat_def)
  with Cons i show ?case by (auto split: if_splits sum.splits)
qed simp

lemma create_rows_stock: "create_rows e s m rs k d = (x, d') \<Longrightarrow> stock_inv d \<Longrightarrow> stock_inv d'"
proof (induction rs arbitrary: k d)
  case (Cons r rs)
  obtain y d1 where c: "create_cols e s m r [1..50] k d = (y, d1)" by fastforce
  with Cons show ?case by (auto split: sum.splits dest: create_cols_stock)
qed simp

lemma CreateSeats_stock: "CreateSeats e s m d = (x, d') \<Longrightarrow> stock_inv d \<Longrightarrow> stock_inv d'"
  unfolding CreateSeats_def by (rule create_rows_stock)

text \<open>The \<open>j\<close>-th seat of a sale, counted from 0, and a stock with the first \<open>k\<close> of them.\<close>

definition seat_no :: "env \<Rightarrow> string \<Rightarrow> nat \<Rightarrow> seat_row" where
  "seat_no e s j = new_seat (new_uuid e j) s (int j div 50 + 1) (int j mod 50 + 1)"

definition with_seats :: "env \<Rightarrow> string \<Rightarrow> nat \<Rightarrow> db \<Rightarrow> db" where
  "with_seats e s k d = d\<lparr>seats := seats d @ map (seat_no e s) [0..<k]\<rparr>"

definition unseated :: "env \<Rightarrow> string \<Rightarrow> db \<Rightarrow> bool" where
  "unseated e s d \<longleftrightarrow> no_faults e \<and> s \<in> s_id ` set (sales d) \<and> (\<forall>r\<in>set (seats d). st_sale_id r \<noteq> s)
     \<and> inj (new_uuid e) \<and> range (new_uuid e) \<inter> st_id ` set (seats d) = {}"

lemma seat_no_inj: "st_row_num (seat_no e s i) = st_row_num (seat_no e s j) \<Longrightarrow>
    st_seat_num (seat_no e s i) = st_seat_num (seat_no e s j) \<Longrightarrow> i = j"
  unfolding seat_no_def new_seat_def by simp presburger

lemma insert_next_seat:
  assumes "unseated e s d"
  shows "exec_stmt (sql_fault e k) (insert_seat_or_nothing (seat_no e s k)) (with_seats e s k d)
    = (Inr 1, with_seats e s (Suc k) d)"
proof -
  have "new_uuid e k \<notin> st_id ` set (seats d)" using assms unfolding unseated_def by blast
  moreover have "new_uuid e k = new_uuid e j \<Longrightarrow> k = j" for j
    using assms by (auto simp: unseated_def dest: injD)
  ultimately have "st_id (seat_no e s k) \<notin> st_id ` set (seats (with_seats e s k d))"
    by (auto simp: with_seats_def seat_no_def new_seat_def)
  moreover have "seat_key (seat_no e s k) \<notin> seat_key ` set (seats d)"
    using assms by (auto simp: seat_key_def unseated_def seat_no_def new_seat_def)
  moreover have "seat_key (seat_no e s k) \<noteq> seat_key (seat_no e s j)" if "j < k" for j
    using seat_no_inj[of e s k j] that by (auto simp: seat_key_def)
  ultimately show ?thesis
    using assms by (auto simp: exec_stmt_def insert_seat_or_nothing_def with_seats_def unseated_def)
      (auto simp: seat_no_def new_seat_def)
qed

lemma div_mod_50: "0 \<le> b \<Longrightarrow> b < 50 \<Longrightarrow> (a * 50 + b) div 50 = a \<and> (a * 50 + b) mod 50 = b" for a b :: int
  by auto

lemma create_cols_all:
  assumes "unseated e s d" and "1 \<le> n" and "n \<le> 51" and "1 \<le> r" and "int k = (r - 1) * 50 + n - 1" and "int k \<le> m"
  shows "create_cols e s m r [n..50] k (with_seats e s k d)
    = (Inr (nat (min m (r * 50))), with_seats e s (nat (min m (r * 50))) d)"
  using assms(2-)
proof (induction "nat (51 - n)" arbitrary: n k)
  case 0
  then have "nat (min m (r * 50)) = k" by simp
  with 0 show ?case by simp
next
  case (Suc x)
  then have ns: "[n..50] = n # [n + 1..50]" by (simp add: upto_rec1)
  show ?case
  proof (cases "(r - 1) * 50 + n > m")
    case True
    with Suc.prems have "nat (min m (r * 50)) = k" by simp
    with True show ?thesis by (simp add: ns)
  next
    case False
    have "int k = (r - 1) * 50 + (n - 1)" using Suc.prems(4) by simp
    moreover have "n - 1 < 50" using Suc.hyps(2) by simp
    ultimately have "new_seat (new_uuid e k) s r n = seat_no e s k"
      using div_mod_50[of "n - 1" "r - 1"] Suc.prems(1) unfolding seat_no_def by simp
    with False insert_next_seat[OF assms(1), of k] Suc.hyps(1)[of "n + 1" "Suc k"] Suc.hyps(2) Suc.prems
    show ?thesis by (simp add: ns)
  qed
qed

lemma create_rows_all:
  assumes u: "unseated e s d" and R: "(R - 1) * 50 < m" "m \<le> R * 50"
  shows "1 \<le> r \<Longrightarrow> r \<le> R + 1 \<Longrightarrow> int k = min m ((r - 1) * 50) \<Longrightarrow>
    create_rows e s m [r..R] k (with_seats e s k d) = (Inr (), with_seats e s (nat m) d)"
proof (induction "nat (R + 1 - r)" arbitrary: r k)
  case 0
  then show ?case using R by auto
next
  case (Suc x)
  then have rs: "[r..R] = r # [r + 1..R]" by (simp add: upto_rec1)
  have "r * 50 \<le> R * 50" using Suc.hyps(2) by simp
  then have "int k = (r - 1) * 50" using Suc.prems(3) R(1) by simp
  then have c: "create_cols e s m r [1..50] k (with_seats e s k d)
      = (Inr (nat (min m (r * 50))), with_seats e s (nat (min m (r * 50))) d)"
    using create_cols_all[OF u, of 1 r k m] Suc.prems by simp
  have "0 \<le> m" using Suc.prems(1,3) by simp
  then show ?case using Suc.hyps(1)[of "r + 1" "nat (min m (r * 50))"] Suc.hyps(2) Suc.prems c
    by (simp add: rs)
qed

lemma CreateSeats_all:
  assumes "unseated e s d" and "0 \<le> m" and "m < 2 ^ 31"
  shows "CreateSeats e s m d = (Inr (), with_seats e s (nat m) d)"
proof -
  have "int64 (m + 50 - 1) = m + 49"
    using assms(2,3) int64_id[of "m + 50 - 1"] by (simp add: in_int64_def)
  then have g: "go_div (int64 (m + 50 - 1)) 50 = (m + 49) div 50"
    using assms(2) by (simp only: go_div_nonneg)
  have "((m + 49) div 50 - 1) * 50 < m" "m \<le> (m + 49) div 50 * 50" by presburger+
  from create_rows_all[OF assms(1) this, of 1 0] assms(2) show ?thesis
    unfolding CreateSeats_def g by (simp add: with_seats_def)
qed

section \<open>The component as a whole\<close>

datatype stock_call =
    Call_Hold config env string string string "string list"
  | Call_Release "hold_row list \<Rightarrow> hold_row list" env
  | Call_Create env string int

fun stock_exec :: "stock_call \<Rightarrow> db \<Rightarrow> db" where
  "stock_exec (Call_Hold cfg e s u idem ids) d = snd (Hold cfg e s u idem ids d)"
| "stock_exec (Call_Release pick e) d = snd (ReleaseExpired pick e d)"
| "stock_exec (Call_Create e s n) d = snd (CreateSeats e s n d)"

text \<open>A database may deliver rows in any order, but delivers each row once.\<close>

definition delivers :: "('a list \<Rightarrow> 'a list) \<Rightarrow> bool" where
  "delivers pick \<longleftrightarrow> (\<forall>rows. mset (pick rows) = mset rows)"

fun stock_valid :: "stock_call \<Rightarrow> db \<Rightarrow> bool" where
  "stock_valid (Call_Release pick e) d = delivers pick"
| "stock_valid _ d = True"

lemma delivered_batch:
  assumes "delivers pick" and "distinct (map f rows)"
  shows "set (take n (pick (filter p rows))) \<subseteq> {r \<in> set rows. p r}
    \<and> distinct (map f (take n (pick (filter p rows))))"
proof -
  have m: "mset (pick (filter p rows)) = mset (filter p rows)" using assms(1) by (simp add: delivers_def)
  have "distinct (map f (pick (filter p rows)))"
    using distinct_map_filter[OF assms(2), of p] mset_eq_imp_distinct_iff[of "map f (pick (filter p rows))" "map f (filter p rows)"] m
    by simp
  then have "distinct (map f (take n (pick (filter p rows))))" by (simp add: take_map[symmetric])
  with mset_eq_setD[OF m] set_take_subset[of n "pick (filter p rows)"] show ?thesis by auto
qed

lemma ReleaseExpired_stock:
  assumes "delivers pick" and "stock_inv d"
  shows "stock_inv (snd (ReleaseExpired pick e d))"
proof (cases "sql_fault e 0")
  case False
  let ?hs = "take 100 (pick (filter (\<lambda>h. h_expires_at h < sql_now e) (holds d)))"
  obtain r d' where l: "release_loop e 1 ?hs 0 d = (r, d')" by fastforce
  have "distinct (map h_id (holds d))" using assms(2) by (simp add: stock_inv_def)
  from delivered_batch[OF assms(1) this]
  have "set ?hs \<subseteq> set (holds d)" "distinct (map h_id ?hs)" by blast+
  from release_loop_stock[OF l assms(2) this] l False show ?thesis
    by (simp add: ReleaseExpired_def query_rows_def)
qed (use assms in \<open>simp add: ReleaseExpired_def query_rows_def\<close>)

interpretation stock: keeper stock_exec stock_valid stock_inv
proof
  fix d c assume a: "stock_inv d" "stock_valid c d"
  then show "stock_inv (stock_exec c d)"
  proof (cases c)
    case (Call_Hold cfg e s u idem ids)
    with a Hold_stock show ?thesis by (metis stock_exec.simps(1) surjective_pairing)
  next
    case (Call_Release pick e)
    with a ReleaseExpired_stock show ?thesis by simp
  next
    case (Call_Create e s n)
    with a CreateSeats_stock show ?thesis by (metis stock_exec.simps(3) surjective_pairing)
  qed
qed

lemma concat_owner:
  "distinct (concat (map f xs)) \<Longrightarrow> x \<in> set xs \<Longrightarrow> y \<in> set xs \<Longrightarrow> i \<in> set (f x) \<Longrightarrow> i \<in> set (f y) \<Longrightarrow> x = y"
  by (induction xs) auto

lemma stock_inv_exclusive:
  assumes "stock_inv d" and "h \<in> set (holds d)" and "i \<in> set (hold_ids h)"
  shows "(\<forall>h'\<in>set (holds d). i \<in> set (hold_ids h') \<longrightarrow> h' = h) \<and> i \<notin> t_seat_id ` set (tickets d)"
proof -
  obtain r where "seat_at d i = Some r" "st_status r = Held" using hold_seat[OF assms] by blast
  with unsold[OF assms(1)] have "i \<notin> t_seat_id ` set (tickets d)" by simp
  moreover have "distinct (concat (map hold_ids (holds d)))"
    using assms(1) by (simp add: stock_inv_def reserved_def)
  ultimately show ?thesis using concat_owner assms(2,3) by metis
qed

lemma fresh_stock: "holds d = [] \<Longrightarrow> tickets d = [] \<Longrightarrow> distinct (map st_id (seats d)) \<Longrightarrow>
    \<forall>r\<in>set (seats d). st_status r = Available \<Longrightarrow> stock_inv d"
  by (fastforce simp: stock_inv_def reserved_def seat_at_def dest: find_SomeD)

text \<open>A successful call leaves a row under its key, and adds no other key.\<close>

lemma Hold_found:
  assumes "Hold cfg e s u idem ids d = (Inr res, d')"
  shows "\<exists>h. find (\<lambda>h. h_sale_id h = s \<and> h_user_id h = u \<and> h_idempotency_key h = idem) (holds d') = Some h
    \<and> res = \<lparr>HoldID = h_id h, SeatIDs = hold_ids h, ExpiresAt = h_expires_at h\<rparr>
    \<and> h_idempotency_key ` set (holds d') \<subseteq> insert idem (h_idempotency_key ` set (holds d))"
proof -
  let ?p = "\<lambda>h. h_sale_id h = s \<and> h_user_id h = u \<and> h_idempotency_key h = idem"
  show ?thesis
  proof (cases "find ?p (holds d)")
    case (Some h)
    with assms show ?thesis
      by (auto simp: Hold_def query_row_def hold_ids_def split: if_splits)
  next
    case None
    then have tx: "hold_tx cfg e s u idem ids d = (Inr res, d')"
      using assms by (auto simp: Hold_def query_row_def Let_def split: if_splits)
    note h = hold_tx_ok[OF tx]
    have "find ?p (holds d') = Some (new_hold cfg e s u idem ids)"
      using None by (simp add: h(1) find_append new_hold_def)
    moreover have "h_idempotency_key ` set (holds d') \<subseteq> insert idem (h_idempotency_key ` set (holds d))"
      by (auto simp: h(1) new_hold_def)
    ultimately show ?thesis using h(5) by (simp add: new_hold_def hold_ids_def)
  qed
qed

lemma freed_seat:
  assumes "stock_inv d" and "h \<in> set (holds d)" and "i \<in> set (hold_ids h)"
  shows "\<exists>r. seat_at (freed h d) i = Some r \<and> st_status r = Available"
proof -
  obtain r where r: "seat_at d i = Some r" "st_status r = Held" using hold_seat[OF assms] by blast
  then have "st_id r = i" by (auto simp: seat_at_def dest!: find_SomeD)
  have "seat_at (freed h d) i = map_option (\<lambda>r. if freeing h r then set_status Available r else r) (seat_at d i)"
    by (rule seat_at_update) (simp add: freed_def)
  with r assms(3) \<open>st_id r = i\<close> show ?thesis by (simp add: freeing_def)
qed

lemma freed_available:
  assumes "seat_at d i = Some r" and "st_status r = Available"
  shows "\<exists>r. seat_at (freed h d) i = Some r \<and> st_status r = Available"
proof -
  have "seat_at (freed h d) i = map_option (\<lambda>r. if freeing h r then set_status Available r else r) (seat_at d i)"
    by (rule seat_at_update) (simp add: freed_def)
  with assms show ?thesis by simp
qed

lemma freed_all_stays:
  "\<exists>r. seat_at d i = Some r \<and> st_status r = Available \<Longrightarrow>
     \<exists>r. seat_at (freed_all hs d) i = Some r \<and> st_status r = Available"
proof (induction hs arbitrary: d)
  case (Cons h hs)
  then have "\<exists>r. seat_at (freed h d) i = Some r \<and> st_status r = Available"
    using freed_available by blast
  from Cons.IH[OF this] show ?case by (simp add: freed_all_def)
qed (simp add: freed_all_def)

lemma freed_all_available:
  "stock_inv d \<Longrightarrow> h \<in> set hs \<Longrightarrow> i \<in> set (hold_ids h) \<Longrightarrow> set hs \<subseteq> set (holds d) \<Longrightarrow>
     distinct (map h_id hs) \<Longrightarrow> \<exists>r. seat_at (freed_all hs d) i = Some r \<and> st_status r = Available"
proof (induction hs arbitrary: d)
  case (Cons x hs)
  have all: "freed_all (x # hs) d = freed_all hs (freed x d)" by (simp add: freed_all_def)
  show ?case
  proof (cases "h = x")
    case True
    with Cons.prems freed_seat[of d x i] freed_all_stays[of "freed x d" i hs] show ?thesis by (simp add: all)
  next
    case False
    with Cons.prems freed_stock[of d x] others_kept[of x hs d] Cons.IH[of "freed x d"] show ?thesis
      by (simp add: all)
  qed
qed simp

text \<open>The first \<open>n\<close> rows in the order of a key.\<close>

lemma take_sort_key:
  fixes k :: "'a \<Rightarrow> 'b::linorder"
  shows "sorted (map k (take n (sort_key k xs))) \<and> length (take n (sort_key k xs)) = min n (length xs)
    \<and> set (take n (sort_key k xs)) \<subseteq> set xs
    \<and> (\<forall>x\<in>set xs. x \<notin> set (take n (sort_key k xs)) \<longrightarrow> (\<forall>y\<in>set (take n (sort_key k xs)). k y \<le> k x))"
proof -
  let ?t = "take n (sort_key k xs)" and ?d = "drop n (sort_key k xs)"
  have "sorted (map k (?t @ ?d))" by simp
  then have "sorted (map k ?t)" and "\<forall>y\<in>set ?t. \<forall>x\<in>set ?d. k y \<le> k x"
    unfolding map_append sorted_append by auto
  moreover have "set ?t \<union> set ?d = set xs" by (metis append_take_drop_id set_append set_sort)
  ultimately show ?thesis by (auto simp: min.commute)
qed

section \<open>Properties\<close>

text \<open>The outcome of a hold by a caller who may hold.\<close>

lemma hold_exact:
  assumes "no_faults e" and "may_hold e s u idem d" and "ids \<noteq> []" and "length ids \<le> 4"
  shows "Hold cfg e s u idem ids d =
    (if distinct ids \<and> (\<forall>i\<in>set ids. \<exists>r\<in>set (seats d). st_id r = i \<and> st_sale_id r = s \<and> st_status r = Available)
     then (Inr \<lparr>HoldID = new_uuid e 0, SeatIDs = ids, ExpiresAt = go_now e + HoldTTL cfg\<rparr>,
           d\<lparr>seats := map (\<lambda>r. if st_id r \<in> set ids \<and> st_sale_id r = s \<and> st_status r = Available
                             then set_status Held r else r) (seats d),
             holds := holds d @ [new_hold cfg e s u idem ids]\<rparr>)
     else (Inl ErrSeatUnavailable, d))"
  unfolding Hold_may[OF assms(2,1,3,4)] hold_tx_total[OF assms(1,2)] takeable_each hold_done_def
    update_where_def takeable_def ..


definition demo_config :: config where
  "demo_config = Load (\<lambda>_. [])"

lemma demo_ttl [simp]: "HoldTTL demo_config = 720000000000"
  by (simp add: demo_config_def Load_def getEnv_def Atoi_def parse_sign_def is_digit_def digit_val_def
      Let_def int64_def)

lemma demo_may_hold: "t < 10 ^ 15 \<Longrightarrow> may_hold (calm_env t x) ''A'' ''u1'' k demo_db"
  by (simp add: may_hold_def demo_defs)


text \<open>
  C9. \<^bold>\<open>No double booking.\<close> Whatever sequence of holds, releases of expired holds and seat creations
  runs, with whatever faults: in the resulting database every seat that a hold names is in the
  state held, is named by no other hold, and is on no ticket.
\<close>

theorem no_double_booking:
  assumes "stock_inv d" and "valid_run stock_exec stock_valid cs d"
    and "h \<in> set (holds (run_calls stock_exec cs d))" and "i \<in> set (hold_ids h)"
  shows "(\<exists>r. seat_at (run_calls stock_exec cs d) i = Some r \<and> st_sale_id r = h_sale_id h \<and> st_status r = Held)
    \<and> (\<forall>h'\<in>set (holds (run_calls stock_exec cs d)). i \<in> set (hold_ids h') \<longrightarrow> h' = h)
    \<and> i \<notin> t_seat_id ` set (tickets (run_calls stock_exec cs d))"
  using stock_inv_exclusive[OF stock.run_keeps[OF assms(1,2)] assms(3,4)]
    hold_seat[OF stock.run_keeps[OF assms(1,2)] assms(3,4)] by blast

lemma demo_stock: "stock_inv demo_db"
  by (rule fresh_stock) (simp_all add: demo_db_def demo_seat_def empty_db_def)

definition demo_calls :: "stock_call list" where
  "demo_calls = [Call_Hold demo_config (calm_env 5 ''h'') ''A'' ''u1'' ''k'' [''s1''],
     Call_Hold demo_config (calm_env 6 ''i'') ''A'' ''u2'' ''k'' [''s1'']]"

definition demo_held :: db where
  "demo_held = hold_done demo_config (calm_env 5 ''h'') ''A'' ''u1'' ''k'' [''s1''] demo_db"

lemma demo_hold: "Hold demo_config (calm_env 5 ''h'') ''A'' ''u1'' ''k'' [''s1''] demo_db
    = (Inr \<lparr>HoldID = ''h'', SeatIDs = [''s1''], ExpiresAt = 720000000005\<rparr>, demo_held)"
  using demo_may_hold[of 5 "''h''" "''k''"]
  by (simp add: Hold_may hold_tx_total demo_held_def) (simp add: takeable_def demo_db_def demo_seat_def empty_db_def)

lemma demo_hold_again: "Hold demo_config (calm_env 6 ''i'') ''A'' ''u2'' ''k'' [''s1''] demo_held = (Inl ErrSeatUnavailable, demo_held)"
proof -
  have "may_hold (calm_env 6 ''i'') ''A'' ''u2'' ''k'' demo_held"
    by (simp add: may_hold_def demo_held_def hold_done_def new_hold_def demo_defs)
  then show ?thesis
    by (simp add: Hold_may hold_tx_total) (simp add: takeable_def demo_held_def hold_done_def demo_db_def demo_seat_def empty_db_def)
qed

lemma demo_held_holds: "holds demo_held = [new_hold demo_config (calm_env 5 ''h'') ''A'' ''u1'' ''k'' [''s1'']]"
  by (simp add: demo_held_def hold_done_def demo_db_def empty_db_def)

theorem no_double_booking_witness:
  "\<exists>r. seat_at (run_calls stock_exec demo_calls demo_db) ''s1'' = Some r \<and> st_sale_id r = ''A'' \<and> st_status r = Held"
proof -
  have r: "run_calls stock_exec demo_calls demo_db = demo_held"
    by (simp add: demo_calls_def demo_hold demo_hold_again)
  have "valid_run stock_exec stock_valid demo_calls demo_db" by (simp add: demo_calls_def)
  from no_double_booking[OF demo_stock this, unfolded r, of "new_hold demo_config (calm_env 5 ''h'') ''A'' ''u1'' ''k'' [''s1'']" "''s1''"]
  show ?thesis by (simp add: r demo_held_holds)
qed

text \<open>
  \<^bold>\<open>Hold is idempotent.\<close> After a successful hold, repeating the request with the same
  idempotency key before the hold expires returns the same result, whatever seats the repeated
  request lists, and changes nothing.
\<close>

theorem hold_replay:
  assumes "Hold cfg e s u idem ids d = (Inr res, d')" and "\<not> sql_fault e2 0" and "go_now e2 \<le> ExpiresAt res"
    and "ids2 \<noteq> []" and "length ids2 \<le> 4"
  shows "Hold cfg2 e2 s u idem ids2 d' = (Inr res, d')"
proof -
  obtain h where h: "find (\<lambda>h. h_sale_id h = s \<and> h_user_id h = u \<and> h_idempotency_key h = idem) (holds d') = Some h"
    "res = \<lparr>HoldID = h_id h, SeatIDs = hold_ids h, ExpiresAt = h_expires_at h\<rparr>"
    using Hold_found[OF assms(1)] by blast
  then show ?thesis using assms(2-) by (simp add: Hold_def query_row_def hold_ids_def)
qed

theorem hold_replay_witness:
  "Hold demo_config (calm_env 9 ''i'') ''A'' ''u1'' ''k'' [''s2''] demo_held
     = (Inr \<lparr>HoldID = ''h'', SeatIDs = [''s1''], ExpiresAt = 720000000005\<rparr>, demo_held)"
  using hold_replay[OF demo_hold, of "calm_env 9 ''i''" "[''s2'']" demo_config] by simp

text \<open>
  \<^bold>\<open>One active hold per user.\<close> While a hold lives, a request of the same user for the same sale
  under another, unused idempotency key is refused and changes nothing.
\<close>

theorem second_hold_refused:
  assumes "Hold cfg e s u idem ids d = (Inr res, d')" and "no_faults e2" and "sql_now e2 < ExpiresAt res"
    and "idem2 \<noteq> idem" and "\<forall>h\<in>set (holds d). h_idempotency_key h \<noteq> idem2"
    and "ids2 \<noteq> []" and "length ids2 \<le> 4"
  shows "Hold cfg2 e2 s u idem2 ids2 d' = (Inl (ErrMsg ''active hold already exists''), d')"
proof -
  obtain h where "find (\<lambda>h. h_sale_id h = s \<and> h_user_id h = u \<and> h_idempotency_key h = idem) (holds d') = Some h"
    and res: "res = \<lparr>HoldID = h_id h, SeatIDs = hold_ids h, ExpiresAt = h_expires_at h\<rparr>"
    and keys: "h_idempotency_key ` set (holds d') \<subseteq> insert idem (h_idempotency_key ` set (holds d))"
    using Hold_found[OF assms(1)] by blast
  then have h: "h \<in> set (holds d')" "h_sale_id h = s" "h_user_id h = u"
    by (auto dest: find_SomeD)
  have "find (\<lambda>h. h_sale_id h = s \<and> h_user_id h = u \<and> h_idempotency_key h = idem2) (holds d') = None"
  proof -
    have "h_idempotency_key x \<noteq> idem2" if "x \<in> set (holds d')" for x
    proof -
      have "h_idempotency_key x \<in> insert idem (h_idempotency_key ` set (holds d))" using keys that by blast
      with assms(4,5) show ?thesis by auto
    qed
    then show ?thesis unfolding find_None_iff by blast
  qed
  moreover have "h \<in> set (filter (\<lambda>h. h_sale_id h = s \<and> h_user_id h = u \<and> sql_now e2 < h_expires_at h) (holds d'))"
    using h assms(3) by (simp add: res)
  then have "0 < length (filter (\<lambda>h. h_sale_id h = s \<and> h_user_id h = u \<and> sql_now e2 < h_expires_at h) (holds d'))"
    by (rule length_pos_if_in_set)
  ultimately show ?thesis
    using assms(2,6,7) by (simp add: Hold_def query_row_def query_count_def)
qed

theorem second_hold_refused_witness:
  "Hold demo_config (calm_env 9 ''i'') ''A'' ''u1'' ''l'' [''s2''] demo_held
     = (Inl (ErrMsg ''active hold already exists''), demo_held)"
proof -
  have "\<forall>h\<in>set (holds demo_db). h_idempotency_key h \<noteq> ''l''" by (simp add: demo_db_def empty_db_def)
  from second_hold_refused[OF demo_hold _ _ _ this, of "calm_env 9 ''i''" "[''s2'']" demo_config]
  show ?thesis by simp
qed

text \<open>
  \<^bold>\<open>Expired holds are released.\<close> With no failing statement, when no order names an expired hold
  and at most a hundred have expired, the worker's release deletes every expired hold and reports
  how many there were, makes every seat of them available again, keeps all other holds, and keeps
  the stock consistent.
\<close>

theorem release_frees_expired:
  assumes "stock_inv d" and "delivers pick" and "no_faults e"
    and "\<forall>h\<in>set (holds d). h_expires_at h < sql_now e \<longrightarrow> Some (h_id h) \<notin> o_hold_id ` set (orders d)"
    and "length (filter (\<lambda>h. h_expires_at h < sql_now e) (holds d)) \<le> 100"
  shows "fst (ReleaseExpired pick e d) = (int (length (filter (\<lambda>h. h_expires_at h < sql_now e) (holds d))), None)
    \<and> holds (snd (ReleaseExpired pick e d)) = filter (\<lambda>h. sql_now e \<le> h_expires_at h) (holds d)
    \<and> (\<forall>h\<in>set (holds d). h_expires_at h < sql_now e \<longrightarrow> (\<forall>i\<in>set (hold_ids h).
          \<exists>r. seat_at (snd (ReleaseExpired pick e d)) i = Some r \<and> st_status r = Available))
    \<and> stock_inv (snd (ReleaseExpired pick e d))"
proof -
  let ?old = "filter (\<lambda>h. h_expires_at h < sql_now e) (holds d)"
  let ?d = "snd (ReleaseExpired pick e d)"
  have m: "mset (pick ?old) = mset ?old" using assms(2) by (simp add: delivers_def)
  note same = mset_eq_length[OF m] mset_eq_setD[OF m]
  have t: "take 100 (pick ?old) = pick ?old" using same(1) assms(5) by simp
  have r: "ReleaseExpired pick e d = ((int (length ?old), None), freed_all (pick ?old) d)"
    using release_loop_all[OF assms(3), of "pick ?old" d 1 0] assms(3,4) same t
    by (simp add: ReleaseExpired_def query_rows_def)
  have ids: "distinct (map h_id (holds d))" using assms(1) by (simp add: stock_inv_def)
  have "h_id h \<in> h_id ` set ?old \<longleftrightarrow> h_expires_at h < sql_now e" if "h \<in> set (holds d)" for h
    using that distinct_map_inj[OF ids that] by auto
  then have h: "holds ?d = filter (\<lambda>h. sql_now e \<le> h_expires_at h) (holds d)"
    unfolding r snd_conv holds_freed_all same(2) by (intro filter_cong) auto
  have inv: "stock_inv ?d" using stock.keep[of d "Call_Release pick e"] assms(1,2) by simp
  have "\<exists>r. seat_at ?d i = Some r \<and> st_status r = Available"
    if "h \<in> set (holds d)" "h_expires_at h < sql_now e" "i \<in> set (hold_ids h)" for h i
    using freed_all_available[OF assms(1), where hs="pick ?old" and h=h and i=i] that ids same delivered_batch[OF assms(2) ids, of 100 "\<lambda>h. h_expires_at h < sql_now e"]
    by (simp add: r t)
  with r h inv show ?thesis by simp
qed

theorem release_frees_expired_witness:
  "fst (ReleaseExpired (\<lambda>x. x) (calm_env (10 ^ 12) ''w'') demo_held) = (1, None)
   \<and> holds (snd (ReleaseExpired (\<lambda>x. x) (calm_env (10 ^ 12) ''w'') demo_held)) = []"
proof -
  have "stock_inv demo_held" using Hold_stock[OF demo_hold demo_stock] .
  moreover have "delivers (\<lambda>x::hold_row list. x)" by (simp add: delivers_def)
  moreover have "orders demo_held = []" by (simp add: demo_held_def hold_done_def demo_db_def empty_db_def)
  ultimately show ?thesis
    using release_frees_expired[of demo_held "\<lambda>x. x" "calm_env (10 ^ 12) ''w''"]
    by (simp add: demo_held_holds new_hold_def)
qed

text \<open>
  \<^bold>\<open>Seat creation is exact.\<close> For a sale without seats and fresh identifiers, \<open>CreateSeats\<close> adds
  exactly \<open>m\<close> rows, the \<open>j\<close>-th (from 0) in row \<open>j div 50 + 1\<close> at place \<open>j mod 50 + 1\<close>, all available,
  no two at one place.
\<close>

theorem create_seats_exact:
  assumes "unseated e s d" and "0 \<le> m" and "m < 2 ^ 31"
  shows "CreateSeats e s m d = (Inr (), d\<lparr>seats := seats d @
      map (\<lambda>j. new_seat (new_uuid e j) s (int j div 50 + 1) (int j mod 50 + 1)) [0..<nat m]\<rparr>)
    \<and> distinct (map (\<lambda>j. (int j div 50 + 1, int j mod 50 + 1)) [0..<nat m])"
proof -
  have "map (\<lambda>j. new_seat (new_uuid e j) s (int j div 50 + 1) (int j mod 50 + 1)) [0..<nat m] = map (seat_no e s) [0..<nat m]"
    by (simp add: seat_no_def)
  moreover have "inj (\<lambda>j::nat. (int j div 50 + 1, int j mod 50 + 1))"
    by (rule injI, simp) presburger
  then have "distinct (map (\<lambda>j. (int j div 50 + 1, int j mod 50 + 1)) [0..<nat m])"
    using inj_on_subset[of _ UNIV "set [0..<nat m]"] unfolding distinct_map by (simp del: set_upt)
  ultimately show ?thesis
    using CreateSeats_all[OF assms] by (simp only: with_seats_def simp_thms)
qed

theorem create_seats_exact_witness:
  "length (seats (snd (CreateSeats (calm_env 5 ''x'') ''B'' 51 demo_db))) = 53"
proof -
  have "inj (new_uuid (calm_env 5 ''x''))" by (auto intro!: injI dest: arg_cong[of _ _ length])
  moreover have "range (new_uuid (calm_env 5 ''x'')) \<inter> st_id ` set (seats demo_db) = {}"
    by (auto simp: demo_db_def demo_seat_def)
  ultimately have "unseated (calm_env 5 ''x'') ''B'' demo_db"
    by (simp add: unseated_def) (simp add: demo_defs)
  from create_seats_exact[OF this, of 51] show ?thesis by (simp add: demo_db_def)
qed

text \<open>
  \<^bold>\<open>Listing seats.\<close> The answer holds only available seats of the sale, in the order of section, row
  and place, at most 500 and as many as the limit allows; and a seat that is left out comes after
  every seat that is shown.
\<close>

theorem list_available_first:
  assumes "ListAvailable collate flt s limit d = Inr rows"
  shows "sorted (map (\<lambda>r. (collate (st_section r), st_row_num r, st_seat_num r)) rows)
    \<and> length rows = min (nat (if limit \<le> 0 \<or> 500 < limit then 100 else limit))
        (length (filter (\<lambda>r. st_sale_id r = s \<and> st_status r = Available) (seats d)))
    \<and> (\<forall>r\<in>set rows. r \<in> set (seats d) \<and> st_sale_id r = s \<and> st_status r = Available)
    \<and> (\<forall>r\<in>set (seats d). st_sale_id r = s \<longrightarrow> st_status r = Available \<longrightarrow> r \<notin> set rows \<longrightarrow>
         (\<forall>x\<in>set rows. (collate (st_section x), st_row_num x, st_seat_num x)
            \<le> (collate (st_section r), st_row_num r, st_seat_num r)))"
proof -
  let ?k = "\<lambda>r. (collate (st_section r), st_row_num r, st_seat_num r)"
  let ?av = "filter (available_in s) (seats d)"
  have rows: "rows = take (nat (clamp_limit limit)) (sort_key ?k ?av)"
    using assms by (auto simp: ListAvailable_def query_rows_def split: if_splits)
  note top = take_sort_key[where k="?k" and xs="?av" and n="nat (clamp_limit limit)", folded rows]
  have "available_in s = (\<lambda>r. st_sale_id r = s \<and> st_status r = Available)" by (auto simp: available_in_def)
  with top show ?thesis
    unfolding clamp_limit_def[symmetric] by auto
qed

theorem list_available_first_witness:
  "\<exists>rows. ListAvailable (\<lambda>_. 0) False ''A'' 1 demo_db = Inr rows \<and> length rows = 1"
proof -
  let ?rows = "take 1 (sort_key (\<lambda>r. (0::int, st_row_num r, st_seat_num r)) (filter (available_in ''A'') (seats demo_db)))"
  have l: "ListAvailable (\<lambda>_. 0) False ''A'' 1 demo_db = Inr ?rows"
    by (simp add: ListAvailable_def query_rows_def clamp_limit_def)
  from list_available_first[OF l] l show ?thesis by (simp add: demo_db_def demo_seat_def)
qed

end
