(* ===== verification/Orders.thy ===== *)
theory Orders
  imports Stock Sha256
begin

text \<open>
  \<open>internal/orders/service.go\<close>: checkout of a hold into an order with tickets, the refused
  transfer, and the sales statistics. SQL statements are numbered for \<open>sql_fault\<close> in source
  order, two for each round of the ticket loop; identifier 0 is the order's, identifier
  \<open>j + 1\<close> the \<open>j\<close>-th ticket's.
\<close>

section \<open>Checkout\<close>

record CheckoutResult =
  co_OrderID :: string
  co_TicketIDs :: "string list"
  co_Status :: order_status

definition ownerHash :: "string \<Rightarrow> string" where
  "ownerHash userID = EncodeToString (take 8 (Sum256 userID))"

definition new_order :: "env \<Rightarrow> string \<Rightarrow> string \<Rightarrow> string \<Rightarrow> string \<Rightarrow> string list \<Rightarrow> order_row" where
  "new_order e saleID userID idem holdID seatIDs =
     \<lparr>o_id = new_uuid e 0, o_sale_id = saleID, o_user_id = userID, o_hold_id = Some holdID,
      o_idempotency_key = idem, o_status = Confirmed, o_total_cents = int64 (int (length seatIDs) * 5000),
      o_created_at = sql_now e\<rparr>"

definition new_ticket :: "env \<Rightarrow> nat \<Rightarrow> string \<Rightarrow> string \<Rightarrow> string \<Rightarrow> string \<Rightarrow> ticket_row" where
  "new_ticket e j orderID saleID userID seatID =
     \<lparr>t_id = new_uuid e (Suc j), t_order_id = orderID, t_sale_id = saleID, t_user_id = userID,
      t_seat_id = seatID, t_status = Active, t_owner_hash = ownerHash userID, t_created_at = sql_now e\<rparr>"

text \<open>The loop over the seats of the hold: round \<open>j\<close> sells one seat and writes its ticket.\<close>

fun sell_seats ::
  "env \<Rightarrow> nat \<Rightarrow> string \<Rightarrow> string \<Rightarrow> string \<Rightarrow> string list \<Rightarrow> tx \<Rightarrow> string list result \<times> tx" where
  "sell_seats e j orderID saleID userID [] t = (Inr [], t)"
| "sell_seats e j orderID saleID userID (seatID # rest) t =
     (case tx_exec (sql_fault e (6 + 2 * j))
             (update_seats (\<lambda>r. st_id r = seatID \<and> st_sale_id r = saleID \<and> st_status r = Held) Sold) t of
        (Inl _, t') \<Rightarrow> (Inl ErrSeatUnavailable, t')
      | (Inr n, t') \<Rightarrow>
          if n = 0 then (Inl ErrSeatUnavailable, t')
          else case tx_exec (sql_fault e (7 + 2 * j))
                      (insert_ticket (new_ticket e j orderID saleID userID seatID)) t' of
                 (Inl err, t'') \<Rightarrow> (Inl err, t'')
               | (Inr _, t'') \<Rightarrow>
                   (case sell_seats e (Suc j) orderID saleID userID rest t'' of
                      (Inl err, t3) \<Rightarrow> (Inl err, t3)
                    | (Inr tids, t3) \<Rightarrow> (Inr (new_uuid e (Suc j) # tids), t3)))"

text \<open>The transaction; the error of the \<open>DELETE\<close> is dropped, its effect on the block is not.\<close>

definition checkout_tx ::
  "env \<Rightarrow> string \<Rightarrow> string \<Rightarrow> string \<Rightarrow> string \<Rightarrow> string list \<Rightarrow> db \<Rightarrow> CheckoutResult result \<times> db" where
  "checkout_tx e saleID userID idem holdID seatIDs d =
     (if sql_fault e 4 then (Inl SqlFault, d)
      else let orderID = new_uuid e 0 in
        (case tx_exec (sql_fault e 5) (insert_order (new_order e saleID userID idem holdID seatIDs)) (begin_tx d) of
           (Inl err, _) \<Rightarrow> (Inl err, d)
         | (Inr _, t1) \<Rightarrow>
           (case sell_seats e 0 orderID saleID userID seatIDs t1 of
              (Inl err, _) \<Rightarrow> (Inl err, d)
            | (Inr ticketIDs, t2) \<Rightarrow>
              let t3 = snd (tx_exec (sql_fault e (6 + 2 * length seatIDs)) (delete_hold holdID) t2) in
              (case tx_commit (sql_fault e (7 + 2 * length seatIDs)) t3 d of
                 (Inl err, d') \<Rightarrow> (Inl err, d')
               | (Inr _, d') \<Rightarrow>
                   (Inr \<lparr>co_OrderID = orderID, co_TicketIDs = ticketIDs, co_Status = Confirmed\<rparr>, d')))))"

definition max_per_user :: "bool \<Rightarrow> string \<Rightarrow> db \<Rightarrow> int" where
  "max_per_user flt saleID d =
     (let m = scan_or 0 (case query_row flt (\<lambda>s. s_id s = saleID) (sales d) of
                           Inl err \<Rightarrow> Inl err | Inr s \<Rightarrow> Inr (s_max_tickets_per_user s))
      in if m \<le> 0 then 4 else m)"

definition owned_tickets :: "bool \<Rightarrow> string \<Rightarrow> string \<Rightarrow> db \<Rightarrow> int" where
  "owned_tickets flt saleID userID d =
     scan_or 0 (query_count flt
       (\<lambda>t. t_sale_id t = saleID \<and> t_user_id t = userID \<and> t_status t = Active) (tickets d))"

definition Checkout ::
  "env \<Rightarrow> string \<Rightarrow> string \<Rightarrow> string \<Rightarrow> string \<Rightarrow> 'r world \<Rightarrow> CheckoutResult result \<times> 'r world" where
  "Checkout e saleID userID idem holdID w =
     (let d = dbs w in
      case query_row (sql_fault e 0)
             (\<lambda>x. o_sale_id x = saleID \<and> o_user_id x = userID \<and> o_idempotency_key x = idem) (orders d) of
        Inr x \<Rightarrow> (Inr \<lparr>co_OrderID = o_id x, co_TicketIDs = [], co_Status = o_status x\<rparr>,
                  emit (Checkouts saleID ''idempotent'') w)
      | Inl err \<Rightarrow>
        if err \<noteq> NoRows then (Inl err, w)
        else
          let maxPerUser = max_per_user (sql_fault e 1) saleID d;
              owned = owned_tickets (sql_fault e 2) saleID userID d
          in (case query_row (sql_fault e 3)
                     (\<lambda>h. h_id h = holdID \<and> h_user_id h = userID \<and> h_sale_id h = saleID
                        \<and> sql_now e < h_expires_at h) (holds d) of
                Inl _ \<Rightarrow> (Inl ErrHoldNotFound, emit (Checkouts saleID ''rejected'') w)
              | Inr h \<Rightarrow>
                (case unmarshal_ids (h_seat_ids h) of
                   Inl err \<Rightarrow> (Inl err, w)
                 | Inr seatIDs \<Rightarrow>
                   if maxPerUser < int64 (owned + int (length seatIDs))
                   then (Inl ErrTicketCapReached, emit (Checkouts saleID ''cap_exceeded'') w)
                   else (case checkout_tx e saleID userID idem holdID seatIDs d of
                           (Inl err, d') \<Rightarrow> (Inl err, w\<lparr>dbs := d'\<rparr>)
                         | (Inr res, d') \<Rightarrow>
                             (Inr res, emit (Checkouts saleID ''success'') (w\<lparr>dbs := d'\<rparr>))))))"

section \<open>Transfer and statistics\<close>

definition Transfer :: "unit result" where
  "Transfer = Inl ErrTransferBlocked"

text \<open>
  \<open>Stats\<close>; the field \<open>scalper_signal\<close> is the printed quotient of the two numbers kept here.
\<close>

record sale_stats =
  tickets_sold :: int
  orders_confirmed :: int
  unique_buyers :: int
  scalper_ratio :: "int \<times> int"

definition go_max :: "int \<Rightarrow> int \<Rightarrow> int" where
  "go_max a b = (if a > b then a else b)"

definition Stats :: "env \<Rightarrow> string \<Rightarrow> db \<Rightarrow> sale_stats" where
  "Stats e saleID d =
     (let ticketCount = scan_or 0 (query_count (sql_fault e 0) (\<lambda>t. t_sale_id t = saleID) (tickets d));
          orderCount = scan_or 0 (query_count (sql_fault e 1) (\<lambda>x. o_sale_id x = saleID \<and> o_status x = Confirmed) (orders d));
          buyers = scan_or 0 (if sql_fault e 2 then Inl SqlFault
                     else Inr (int (length (remdups (map t_user_id (filter (\<lambda>t. t_sale_id t = saleID) (tickets d)))))))
      in \<lparr>tickets_sold = ticketCount, orders_confirmed = orderCount, unique_buyers = buyers,
          scalper_ratio = (buyers, go_max orderCount 1)\<rparr>)"

section \<open>What the ticket loop does\<close>

definition sellable :: "string \<Rightarrow> string list \<Rightarrow> seat_row \<Rightarrow> bool" where
  "sellable saleID ids r \<longleftrightarrow> st_id r \<in> set ids \<and> st_sale_id r = saleID \<and> st_status r = Held"

definition tickets_for :: "env \<Rightarrow> nat \<Rightarrow> string \<Rightarrow> string \<Rightarrow> string \<Rightarrow> string list \<Rightarrow> ticket_row list" where
  "tickets_for e j oid s u ids = map (\<lambda>(k, i). new_ticket e k oid s u i) (enumerate j ids)"

definition sold_state :: "env \<Rightarrow> nat \<Rightarrow> string \<Rightarrow> string \<Rightarrow> string \<Rightarrow> string list \<Rightarrow> db \<Rightarrow> db" where
  "sold_state e j oid s u ids d = d\<lparr>seats := update_where (sellable s ids) (set_status Sold) (seats d),
     tickets := tickets d @ tickets_for e j oid s u ids\<rparr>"

lemma sold_state_simps [simp]:
  "holds (sold_state e j oid s u ids d) = holds d" "orders (sold_state e j oid s u ids d) = orders d"
  "sales (sold_state e j oid s u ids d) = sales d" "users (sold_state e j oid s u ids d) = users d"
  by (simp_all add: sold_state_def)

lemma sold_state_Nil [simp]: "sold_state e j oid s u [] d = d"
proof -
  have "update_where (sellable s []) f rows = rows" for f rows
    by (induction rows) (auto simp: sellable_def)
  then show ?thesis by (simp add: sold_state_def tickets_for_def)
qed

lemma insert_ticket_ok:
  "insert_ticket r d = Inr (d', n) \<Longrightarrow> d' = d\<lparr>tickets := tickets d @ [r]\<rparr>"
  by (auto simp: insert_ticket_def split: if_splits)

lemma sold_state_Cons:
  "sold_state e j oid s u (i # ids) d =
     sold_state e (Suc j) oid s u ids
       (d\<lparr>seats := update_where (sellable s [i]) (set_status Sold) (seats d),
          tickets := tickets d @ [new_ticket e j oid s u i]\<rparr>)"
proof -
  have "update_where (sellable s ids) (set_status Sold) (update_where (sellable s [i]) (set_status Sold) rows)
      = update_where (sellable s (i # ids)) (set_status Sold) rows" for rows
    by (subst update_where_twice) (auto simp: sellable_def update_where_def)
  then show ?thesis by (simp add: sold_state_def tickets_for_def)
qed

lemma sell_one:
  "update_seats (\<lambda>r. st_id r = i \<and> st_sale_id r = s \<and> st_status r = Held) Sold d =
     Inr (d\<lparr>seats := update_where (sellable s [i]) (set_status Sold) (seats d)\<rparr>, rows_affected (sellable s [i]) (seats d))"
proof -
  have "(\<lambda>r. st_id r = i \<and> st_sale_id r = s \<and> st_status r = Held) = sellable s [i]" by (auto simp: sellable_def)
  then show ?thesis by (simp add: update_seats_eq)
qed

lemma sell_seats_step:
  "sell_seats e j oid s u (i # ids) t = (Inr tids, t') \<Longrightarrow> \<exists>n t1 m t2 tids'.
     tx_exec (sql_fault e (6 + 2 * j)) (update_seats (\<lambda>r. st_id r = i \<and> st_sale_id r = s \<and> st_status r = Held) Sold) t = (Inr n, t1)
     \<and> tx_exec (sql_fault e (7 + 2 * j)) (insert_ticket (new_ticket e j oid s u i)) t1 = (Inr m, t2)
     \<and> sell_seats e (Suc j) oid s u ids t2 = (Inr tids', t') \<and> tids = new_uuid e (Suc j) # tids'"
  by (auto split: prod.splits sum.splits if_splits)

lemma sell_seats_ok:
  assumes "sell_seats e j oid s u ids t = (Inr tids, t')"
  shows "tx_db t' = sold_state e j oid s u ids (tx_db t)
    \<and> tids = map (\<lambda>k. new_uuid e (Suc k)) [j..<j + length ids]
    \<and> (\<not> tx_aborted t \<longrightarrow> \<not> tx_aborted t')"
  using assms
proof (induction ids arbitrary: j t tids)
  case (Cons i ids)
  from sell_seats_step[OF Cons.prems] obtain n t1 m t2 tids' where
    x1: "tx_exec (sql_fault e (6 + 2 * j)) (update_seats (\<lambda>r. st_id r = i \<and> st_sale_id r = s \<and> st_status r = Held) Sold) t = (Inr n, t1)"
    and x2: "tx_exec (sql_fault e (7 + 2 * j)) (insert_ticket (new_ticket e j oid s u i)) t1 = (Inr m, t2)"
    and rest: "sell_seats e (Suc j) oid s u ids t2 = (Inr tids', t')" and tids: "tids = new_uuid e (Suc j) # tids'" by blast
  have "tx_db t2 = (tx_db t)\<lparr>seats := update_where (sellable s [i]) (set_status Sold) (seats (tx_db t)),
      tickets := tickets (tx_db t) @ [new_ticket e j oid s u i]\<rparr>"
    using tx_exec_ok(3)[OF x1, unfolded sell_one, THEN sym] insert_ticket_ok[OF tx_exec_ok(3)[OF x2]] by auto
  moreover have "[j..<j + length (i # ids)] = j # [Suc j..<Suc j + length ids]" by (subst upt_conv_Cons) auto
  ultimately show ?case
    using Cons.IH[OF rest] tx_exec_ok(4)[OF x2] by (simp add: sold_state_Cons tids)
qed simp

lemma sell_seats_new_seats:
  "sell_seats e j oid s u ids t = (Inr tids, t') \<Longrightarrow> set ids \<inter> t_seat_id ` set (tickets (tx_db t)) = {}"
proof (induction ids arbitrary: j t tids)
  case (Cons i ids)
  from sell_seats_step[OF Cons.prems] obtain n t1 m t2 tids' where
    x1: "tx_exec (sql_fault e (6 + 2 * j)) (update_seats (\<lambda>r. st_id r = i \<and> st_sale_id r = s \<and> st_status r = Held) Sold) t = (Inr n, t1)"
    and x2: "tx_exec (sql_fault e (7 + 2 * j)) (insert_ticket (new_ticket e j oid s u i)) t1 = (Inr m, t2)"
    and rest: "sell_seats e (Suc j) oid s u ids t2 = (Inr tids', t')" by blast
  have "tickets (tx_db t1) = tickets (tx_db t)"
    using tx_exec_ok(3)[OF x1, unfolded sell_one, THEN sym] by auto
  moreover have "i \<notin> t_seat_id ` set (tickets (tx_db t1))"
    using tx_exec_ok(3)[OF x2] by (auto simp: insert_ticket_def new_ticket_def split: if_splits)
  moreover have "t_seat_id ` set (tickets (tx_db t1)) \<subseteq> t_seat_id ` set (tickets (tx_db t2))"
    using insert_ticket_ok[OF tx_exec_ok(3)[OF x2]] by auto
  ultimately show ?case using Cons.IH[OF rest] by auto
qed simp

lemma sell_seats_distinct: "sell_seats e j oid s u ids t = (Inr tids, t') \<Longrightarrow> distinct ids"
proof (induction ids arbitrary: j t tids)
  case (Cons i ids)
  from sell_seats_step[OF Cons.prems] obtain n t1 m t2 tids' where
    x1: "tx_exec (sql_fault e (6 + 2 * j)) (update_seats (\<lambda>r. st_id r = i \<and> st_sale_id r = s \<and> st_status r = Held) Sold) t = (Inr n, t1)"
    and x2: "tx_exec (sql_fault e (7 + 2 * j)) (insert_ticket (new_ticket e j oid s u i)) t1 = (Inr m, t2)"
    and rest: "sell_seats e (Suc j) oid s u ids t2 = (Inr tids', t')" by blast
  have "i \<in> t_seat_id ` set (tickets (tx_db t2))"
    using insert_ticket_ok[OF tx_exec_ok(3)[OF x2]] by (auto simp: new_ticket_def)
  from sell_seats_new_seats[OF rest] this Cons.IH[OF rest] show ?case by auto
qed simp

lemma sell_seats_total:
  assumes nf: "no_faults e" and u: "inj (new_uuid e)"
  shows "\<not> tx_aborted t \<Longrightarrow> distinct ids
    \<Longrightarrow> \<forall>i\<in>set ids. (\<exists>r\<in>set (seats (tx_db t)). sellable s [i] r) \<and> i \<notin> t_seat_id ` set (tickets (tx_db t))
    \<Longrightarrow> \<forall>k\<ge>j. new_uuid e (Suc k) \<notin> t_id ` set (tickets (tx_db t))
    \<Longrightarrow> oid \<in> o_id ` set (orders (tx_db t)) \<Longrightarrow> s \<in> s_id ` set (sales (tx_db t)) \<Longrightarrow> v \<in> u_id ` set (users (tx_db t))
    \<Longrightarrow> is_ok (fst (sell_seats e j oid s v ids t))"
proof (induction ids arbitrary: j t)
  case (Cons i ids)
  let ?d = "tx_db t"
  let ?d1 = "?d\<lparr>seats := update_where (sellable s [i]) (set_status Sold) (seats ?d)\<rparr>"
  let ?d2 = "?d1\<lparr>tickets := tickets ?d @ [new_ticket e j oid s v i]\<rparr>"
  let ?t2 = "t\<lparr>tx_db := ?d2\<rparr>"
  obtain r where r: "r \<in> set (seats ?d)" "sellable s [i] r" using Cons.prems(3) by auto
  then have n: "rows_affected (sellable s [i]) (seats ?d) \<noteq> 0" unfolding rows_affected_0 by blast
  have "i \<in> st_id ` set (seats ?d1)" using r by (auto simp: sellable_def)
  then have ins: "insert_ticket (new_ticket e j oid s v i) ?d1 = Inr (?d2, 1)"
    using Cons.prems(3-7) by (auto simp: insert_ticket_def new_ticket_def)
  have "\<exists>r\<in>set (seats ?d2). sellable s [k] r" if k: "k \<in> set ids" for k
  proof -
    obtain q where q: "q \<in> set (seats ?d)" "sellable s [k] q" using Cons.prems(3) k by auto
    moreover have "k \<noteq> i" using Cons.prems(2) k by auto
    ultimately have "\<not> sellable s [i] q" by (auto simp: sellable_def)
    with q show ?thesis by (intro bexI[of _ q]) (auto simp: set_update_where intro!: image_eqI[of _ _ q])
  qed
  moreover have "new_uuid e (Suc k) \<noteq> new_uuid e (Suc j)" if "Suc j \<le> k" for k
    using that injD[OF u] by fastforce
  ultimately have "is_ok (fst (sell_seats e (Suc j) oid s v ids ?t2))"
    using Cons.prems by (intro Cons.IH) (auto simp: new_ticket_def)
  with n ins nf Cons.prems(1) show ?case
    by (auto simp: tx_exec_def sell_one is_ok_def split: prod.splits sum.splits)
qed simp

section \<open>The transaction never commits\<close>

lemma insert_order_ok:
  "insert_order r d = Inr (d', n) \<Longrightarrow> d' = d\<lparr>orders := orders d @ [r]\<rparr> \<and>
     (\<forall>h. o_hold_id r = Some h \<longrightarrow> h \<in> h_id ` set (holds d))"
  by (auto simp: insert_order_def split: if_splits option.splits)

lemma delete_referenced:
  "h \<in> h_id ` set (holds d) \<Longrightarrow> Some h \<in> o_hold_id ` set (orders d) \<Longrightarrow> delete_hold h d = Inl ForeignKeyViolation"
  by (simp add: delete_hold_def)

lemma checkout_tx_rolls_back:
  "\<exists>er. checkout_tx e s u idem hid ids d = (Inl er, d)
     \<and> (fst (tx_exec (sql_fault e 5) (insert_order (new_order e s u idem hid ids)) (begin_tx d)) = Inr 1
        \<longrightarrow> is_ok (fst (sell_seats e 0 (new_uuid e 0) s u ids
              (snd (tx_exec (sql_fault e 5) (insert_order (new_order e s u idem hid ids)) (begin_tx d)))))
        \<longrightarrow> no_faults e \<longrightarrow> er = CommitRollback)"
proof -
  obtain r1 t1 where x1: "tx_exec (sql_fault e 5) (insert_order (new_order e s u idem hid ids)) (begin_tx d) = (r1, t1)"
    by fastforce
  obtain r2 t2 where x2: "sell_seats e 0 (new_uuid e 0) s u ids t1 = (r2, t2)" by fastforce
  show ?thesis
  proof (cases "sql_fault e 4 \<or> \<not> is_ok r1 \<or> \<not> is_ok r2")
    case True
    with x1 x2 show ?thesis
      by (auto simp: checkout_tx_def Let_def is_ok_def split: sum.splits)
  next
    case False
    then obtain n tids where r: "r1 = Inr n" "r2 = Inr tids" by (auto simp: is_ok_def split: sum.splits)
    note o = insert_order_ok[OF tx_exec_ok(3)[OF x1[unfolded r]]]
    note l = sell_seats_ok[OF x2[unfolded r]]
    have "delete_hold hid (tx_db t2) = Inl ForeignKeyViolation"
      using o l by (intro delete_referenced) (simp_all add: begin_tx_def new_order_def)
    then have "tx_aborted (snd (tx_exec flt (delete_hold hid) t2))" for flt
      by (simp add: tx_exec_def)
    with False x1 x2 r show ?thesis
      by (auto simp: checkout_tx_def Let_def tx_commit_def split: sum.splits)
  qed
qed


lemma int64_small: "0 \<le> a \<Longrightarrow> a < 2 ^ 31 \<Longrightarrow> 0 \<le> b \<Longrightarrow> b \<le> 4 \<Longrightarrow> int64 (a + b) = a + b"
  by (intro int64_id) (simp add: in_int64_def)

lemma Checkout_dbs [simp]: "dbs (snd (Checkout e s u idem hid w)) = dbs w"
proof -
  have "snd (checkout_tx e s u idem hid ids d) = d \<and> \<not> is_ok (fst (checkout_tx e s u idem hid ids d))" for ids d
    using checkout_tx_rolls_back[of e s u idem hid ids d] by auto
  then show ?thesis
    by (auto simp: Checkout_def Let_def is_ok_def split: sum.splits prod.splits) (metis snd_conv)+
qed

text \<open>A ready checkout: everything the statements before the \<open>DELETE\<close> rely on.\<close>

definition may_order :: "env \<Rightarrow> string \<Rightarrow> string \<Rightarrow> string \<Rightarrow> db \<Rightarrow> bool" where
  "may_order e s u idem d \<longleftrightarrow> no_faults e \<and> inj (new_uuid e) \<and> s \<in> s_id ` set (sales d) \<and> u \<in> u_id ` set (users d)
     \<and> new_uuid e 0 \<notin> o_id ` set (orders d) \<and> range (new_uuid e) \<inter> t_id ` set (tickets d) = {}
     \<and> (\<forall>x\<in>set (orders d). \<not> (o_sale_id x = s \<and> o_user_id x = u \<and> o_idempotency_key x = idem))"

lemma checkout_tx_ready:
  assumes "stock_inv d" and m: "may_order e s u idem d" and h: "h \<in> set (holds d)" "h_sale_id h = s"
    and n: "length (hold_ids h) * 5000 < 2 ^ 31"
  shows "checkout_tx e s u idem (h_id h) (hold_ids h) d = (Inl CommitRollback, d)"
proof -
  let ?o = "new_order e s u idem (h_id h) (hold_ids h)"
  let ?d1 = "d\<lparr>orders := orders d @ [?o]\<rparr>"
  have "in_int32 (o_total_cents ?o)"
    using n int64_id[of "int (length (hold_ids h)) * 5000"] by (simp add: new_order_def in_int64_def in_int32_def)
  then have o: "insert_order ?o d = Inr (?d1, 1)"
    using m h by (auto simp: insert_order_def may_order_def) (auto simp: new_order_def)
  have "distinct (hold_ids h)"
    using assms(1) h(1) by (auto simp: stock_inv_def reserved_def distinct_concat_iff)
  moreover have fresh: "new_uuid e (Suc k) \<notin> t_id ` set (tickets d)" for k
    using m unfolding may_order_def by blast
  moreover have "(\<exists>r\<in>set (seats d). sellable s [i] r) \<and> i \<notin> t_seat_id ` set (tickets d)" if "i \<in> set (hold_ids h)" for i
    using hold_seat[OF assms(1) h(1) that] stock_inv_exclusive[OF assms(1) h(1) that] h(2)
    by (fastforce simp: sellable_def seat_at_def dest: find_SomeD)
  ultimately have "is_ok (fst (sell_seats e 0 (new_uuid e 0) s u (hold_ids h) ((begin_tx d)\<lparr>tx_db := ?d1\<rparr>)))"
    using m fresh by (intro sell_seats_total) (auto simp: may_order_def begin_tx_def new_order_def)
  then show ?thesis
    using checkout_tx_rolls_back[of e s u idem "h_id h" "hold_ids h" d] m o
    by (auto simp: tx_exec_def may_order_def begin_tx_def)
qed

section \<open>Properties\<close>

text \<open>
  C2. \<^bold>\<open>Checkout never sells.\<close> Whatever the request, the database and the faults: \<open>Checkout\<close> leaves
  the database as it is, and answers successfully only when an order with the same idempotency
  key was already there. The order row references the hold, so the \<open>DELETE\<close> of the hold in the
  same transaction violates the foreign key, aborts the block, and the commit rolls back.
\<close>

theorem checkout_never_sells:
  "dbs (snd (Checkout e s u idem hid w)) = dbs w \<and>
   (is_ok (fst (Checkout e s u idem hid w)) \<longleftrightarrow> \<not> sql_fault e 0 \<and>
      (\<exists>x\<in>set (orders (dbs w)). o_sale_id x = s \<and> o_user_id x = u \<and> o_idempotency_key x = idem))"
proof -
  have "\<not> is_ok (fst (checkout_tx e s u idem hid ids d))" for ids d
    using checkout_tx_rolls_back[of e s u idem hid ids d] by auto
  then have tx: "\<exists>er d'. checkout_tx e s u idem hid ids d = (Inl er, d')" for ids d
    by (metis checkout_tx_rolls_back)
  let ?p = "\<lambda>x. o_sale_id x = s \<and> o_user_id x = u \<and> o_idempotency_key x = idem"
  have "is_ok (fst (Checkout e s u idem hid w)) \<longleftrightarrow> \<not> sql_fault e 0 \<and> find ?p (orders (dbs w)) \<noteq> None"
    by (auto simp: Checkout_def Let_def query_row_def is_ok_def split: sum.splits prod.splits option.splits)
      (metis tx Pair_inject sum.distinct(1))+
  also have "find ?p (orders (dbs w)) \<noteq> None \<longleftrightarrow> (\<exists>x\<in>set (orders (dbs w)). ?p x)"
    unfolding find_None_iff by blast
  finally show ?thesis by simp
qed



text \<open>
  \<^bold>\<open>What the block would write.\<close> When the ticket loop of a checkout runs to its end, the block
  holds exactly the seats of the hold marked sold and one active ticket for each of them, in
  their order, with pairwise different seats, belonging to the order, the sale and the buyer, and
  nothing else has changed.
\<close>

theorem ticket_loop_sells_exactly:
  assumes "sell_seats e 0 oid s u ids t = (Inr tids, t')" and "\<not> tx_aborted t"
  shows "seats (tx_db t') = map (\<lambda>r. if st_id r \<in> set ids \<and> st_sale_id r = s \<and> st_status r = Held
              then set_status Sold r else r) (seats (tx_db t))
    \<and> (\<exists>new. tickets (tx_db t') = tickets (tx_db t) @ new \<and> map t_seat_id new = ids \<and> map t_id new = tids
        \<and> (\<forall>x\<in>set new. t_order_id x = oid \<and> t_sale_id x = s \<and> t_user_id x = u \<and> t_status x = Active))
    \<and> distinct ids \<and> \<not> tx_aborted t'
    \<and> holds (tx_db t') = holds (tx_db t) \<and> orders (tx_db t') = orders (tx_db t)"
proof -
  note l = sell_seats_ok[OF assms(1)]
  let ?new = "tickets_for e 0 oid s u ids"
  have "map t_seat_id ?new = ids"
    by (simp add: tickets_for_def new_ticket_def comp_def case_prod_beta enumerate_eq_zip)
  moreover have "map t_id ?new = map ((\<lambda>k. new_uuid e (Suc k)) \<circ> fst) (enumerate 0 ids)"
    by (simp add: tickets_for_def new_ticket_def comp_def case_prod_beta)
  then have "map t_id ?new = tids" using l by (simp add: map_map[symmetric] del: map_map)
  moreover have "\<forall>x\<in>set ?new. t_order_id x = oid \<and> t_sale_id x = s \<and> t_user_id x = u \<and> t_status x = Active"
    by (auto simp: tickets_for_def new_ticket_def)
  moreover have "distinct ids" by (rule sell_seats_distinct[OF assms(1)])
  ultimately show ?thesis
    using l assms(2) by (auto simp: sold_state_def update_where_def sellable_def)
qed

definition demo_block :: tx where
  "demo_block = begin_tx (demo_held\<lparr>orders := [new_order (calm_env 9 ''o'') ''A'' ''u1'' ''k'' ''h'' [''s1'']]\<rparr>)"

theorem ticket_loop_sells_exactly_witness:
  "\<exists>tids t'. sell_seats (calm_env 9 ''o'') 0 ''o'' ''A'' ''u1'' [''s1''] demo_block = (Inr tids, t')
     \<and> map st_status (seats (tx_db t')) = [Sold, Available] \<and> map t_seat_id (tickets (tx_db t')) = [''s1'']"
proof -
  have i: "inj (new_uuid (calm_env 9 ''o''))" by (auto intro!: injI dest: arg_cong[of _ _ length])
  have st: "seats (tx_db demo_block) = [(demo_seat ''s1'' 1)\<lparr>st_status := Held, st_version := 1\<rparr>, demo_seat ''s2'' 2]"
    "tickets (tx_db demo_block) = []" "\<not> tx_aborted demo_block"
    by (simp_all add: demo_block_def begin_tx_def demo_held_def hold_done_def takeable_def set_status_def demo_defs)
  have "is_ok (fst (sell_seats (calm_env 9 ''o'') 0 ''o'' ''A'' ''u1'' [''s1''] demo_block))"
    using st by (intro sell_seats_total[OF _ i])
      (simp_all add: demo_seat_def sellable_def, simp_all add: demo_block_def begin_tx_def new_order_def demo_held_def hold_done_def demo_defs)
  then obtain tids t' where l: "sell_seats (calm_env 9 ''o'') 0 ''o'' ''A'' ''u1'' [''s1''] demo_block = (Inr tids, t')"
    by (cases "sell_seats (calm_env 9 ''o'') 0 ''o'' ''A'' ''u1'' [''s1''] demo_block") (auto simp: is_ok_def split: sum.splits)
  from ticket_loop_sells_exactly[OF l st(3)] have "map st_status (seats (tx_db t')) = [Sold, Available]"
    "map t_seat_id (tickets (tx_db t')) = [''s1'']"
    unfolding st by (auto simp: demo_seat_def)
  with l show ?thesis by (intro exI conjI)
qed

end
