(* ===== verification/Auth.thy ===== *)
theory Auth
  imports Redis
begin

text \<open>
  \<open>internal/auth\<close>: user and admission tokens, the two middlewares, single-use admission.
  The JWT library is not code of the repository: it is the parameter \<open>jwt_api\<close> with the laws
  of the locale \<open>jwt_library\<close>. What the two token kinds share is modelled exactly, since the
  code signs and checks both with the one secret \<open>cfg.JWTSecret\<close>: a token carries a JSON
  object, and parsing decodes that object into whichever claims struct the caller names.
\<close>

section \<open>The JWT library\<close>

text \<open>
  The payload of a token as its JSON object; \<open>None\<close> is an absent member. \<open>exp\<close> and \<open>iat\<close>
  are JSON numbers of seconds.
\<close>

record payload =
  p_uid :: "string option"
  p_sid :: "string option"
  p_jti :: "string option"
  p_exp :: "int option"
  p_iat :: "int option"

record jwt_api =
  jwt_sign :: "string \<Rightarrow> payload \<Rightarrow> string result"
  jwt_verify :: "string \<Rightarrow> int \<Rightarrow> string \<Rightarrow> payload result"

definition expired :: "int \<Rightarrow> payload \<Rightarrow> bool" where
  "expired now p \<longleftrightarrow> (case p_exp p of None \<Rightarrow> False | Some x \<Rightarrow> x * 10 ^ 9 \<le> now)"

locale jwt_library =
  fixes J :: jwt_api
  assumes verify_signed: "jwt_sign J secret p = Inr tok \<Longrightarrow>
      jwt_verify J secret now tok = (if expired now p then Inl JwtError else Inr p)"
    and verify_valid: "jwt_verify J secret now tok = Inr p \<Longrightarrow> \<not> expired now p"
    and verify_later: "jwt_verify J secret now tok = Inr p \<Longrightarrow>
      jwt_verify J secret now' tok = (if expired now' p then Inl JwtError else Inr p)"

text \<open>A library that can sign.\<close>

locale jwt_signing = jwt_library +
  assumes sign_ok: "is_ok (jwt_sign J secret p)"

section \<open>Tokens\<close>

definition numeric_date :: "int \<Rightarrow> int" where
  "numeric_date t = t div 10 ^ 9"

record Claims =
  uid :: string

record AdmissionClaims =
  adm_uid :: string
  adm_sid :: string
  adm_jti :: string

definition str_or_zero :: "string option \<Rightarrow> string" where
  "str_or_zero x = (case x of None \<Rightarrow> [] | Some s \<Rightarrow> s)"

definition IssueUserToken :: "jwt_api \<Rightarrow> int \<Rightarrow> string \<Rightarrow> string \<Rightarrow> string \<Rightarrow> int \<Rightarrow> string result" where
  "IssueUserToken J now tokenID secret userID ttl =
     jwt_sign J secret \<lparr>p_uid = Some userID, p_sid = None,
       p_jti = (if tokenID = [] then None else Some tokenID),
       p_exp = Some (numeric_date (now + ttl)), p_iat = Some (numeric_date now)\<rparr>"

definition ParseUserToken :: "jwt_api \<Rightarrow> int \<Rightarrow> string \<Rightarrow> string \<Rightarrow> Claims result" where
  "ParseUserToken J now secret token = (case jwt_verify J secret now token of
     Inl err \<Rightarrow> Inl err
   | Inr p \<Rightarrow> Inr \<lparr>uid = str_or_zero (p_uid p)\<rparr>)"

definition IssueAdmissionToken ::
  "jwt_api \<Rightarrow> int \<Rightarrow> string \<Rightarrow> string \<Rightarrow> string \<Rightarrow> string \<Rightarrow> int \<Rightarrow> string result" where
  "IssueAdmissionToken J now secret userID saleID jti ttl =
     jwt_sign J secret \<lparr>p_uid = Some userID, p_sid = Some saleID, p_jti = Some jti,
       p_exp = Some (numeric_date (now + ttl)), p_iat = Some (numeric_date now)\<rparr>"

definition ParseAdmissionToken :: "jwt_api \<Rightarrow> int \<Rightarrow> string \<Rightarrow> string \<Rightarrow> AdmissionClaims result" where
  "ParseAdmissionToken J now secret token = (case jwt_verify J secret now token of
     Inl err \<Rightarrow> Inl err
   | Inr p \<Rightarrow> Inr \<lparr>adm_uid = str_or_zero (p_uid p), adm_sid = str_or_zero (p_sid p),
                   adm_jti = str_or_zero (p_jti p)\<rparr>)"

section \<open>Middlewares\<close>

text \<open>
  A middleware answers the request itself (status code and body) or hands the values it has put
  into the request context to the next handler.
\<close>

type_synonym http_error = "int \<times> string"

record reqctx =
  ctx_userID :: string
  ctx_saleID :: string
  ctx_jti :: string

definition Middleware :: "jwt_api \<Rightarrow> int \<Rightarrow> string \<Rightarrow> string \<Rightarrow> http_error + reqctx" where
  "Middleware J now secret h =
     (if \<not> prefix ''Bearer '' h then Inl (401, ''unauthorized'')
      else case ParseUserToken J now secret (drop (length ''Bearer '') h) of
        Inl _ \<Rightarrow> Inl (401, ''unauthorized'')
      | Inr claims \<Rightarrow> Inr \<lparr>ctx_userID = uid claims, ctx_saleID = [], ctx_jti = []\<rparr>)"

definition UserIDFromContext :: "reqctx \<Rightarrow> string" where
  "UserIDFromContext ctx = ctx_userID ctx"

definition AdmissionMiddleware :: "jwt_api \<Rightarrow> int \<Rightarrow> string \<Rightarrow> string \<Rightarrow> http_error + reqctx" where
  "AdmissionMiddleware J now secret h =
     (if \<not> prefix ''Admission '' h then Inl (403, ''admission required'')
      else case ParseAdmissionToken J now secret (drop (length ''Admission '') h) of
        Inl _ \<Rightarrow> Inl (403, ''invalid admission'')
      | Inr claims \<Rightarrow> Inr \<lparr>ctx_userID = adm_uid claims, ctx_saleID = adm_sid claims,
                          ctx_jti = adm_jti claims\<rparr>)"

section \<open>Single use of an admission\<close>

definition AdmissionUsedKey :: "string \<Rightarrow> string \<Rightarrow> string" where
  "AdmissionUsedKey saleID jti = ''admission:used:'' @ saleID @ '':'' @ jti"

definition ConsumeAdmission ::
  "'r redis_api \<Rightarrow> int \<Rightarrow> string \<Rightarrow> string \<Rightarrow> int \<Rightarrow> 'r \<Rightarrow> bool result \<times> 'r" where
  "ConsumeAdmission R now saleID jti ttl rd =
     r_setnx R now (AdmissionUsedKey saleID jti @ '':consumed'') 1 ttl rd"

section \<open>An executable token library\<close>

text \<open>
  A token is the secret followed by the payload's members, each in a self-delimiting code; it
  discharges the laws and serves the witnesses.
\<close>

definition enc_nat :: "nat \<Rightarrow> string" where
  "enc_nat n = replicate n CHR ''1'' @ ''0''"

definition dec_nat :: "string \<Rightarrow> (nat \<times> string)" where
  "dec_nat s = (length (takeWhile (\<lambda>c. c = CHR ''1'') s), tl (dropWhile (\<lambda>c. c = CHR ''1'') s))"

definition enc_str :: "string \<Rightarrow> string" where
  "enc_str s = enc_nat (length s) @ s"

definition dec_str :: "string \<Rightarrow> string \<times> string" where
  "dec_str x = (case dec_nat x of (n, r) \<Rightarrow> (take n r, drop n r))"

definition enc_opt :: "('a \<Rightarrow> string) \<Rightarrow> 'a option \<Rightarrow> string" where
  "enc_opt f x = (case x of None \<Rightarrow> ''n'' | Some v \<Rightarrow> CHR ''s'' # f v)"

definition dec_opt :: "(string \<Rightarrow> 'a \<times> string) \<Rightarrow> string \<Rightarrow> 'a option \<times> string" where
  "dec_opt f x = (case x of c # r \<Rightarrow> if c = CHR ''s'' then (case f r of (v, r') \<Rightarrow> (Some v, r'))
     else (None, r) | [] \<Rightarrow> (None, []))"

definition enc_int :: "int \<Rightarrow> string" where
  "enc_int i = (if i < 0 then ''-'' else ''+'') @ enc_nat (nat \<bar>i\<bar>)"

definition dec_int :: "string \<Rightarrow> int \<times> string" where
  "dec_int x = (case x of c # r \<Rightarrow> (case dec_nat r of (n, r') \<Rightarrow>
     (if c = CHR ''-'' then - int n else int n, r')) | [] \<Rightarrow> (0, []))"

lemma dec_nat_enc [simp]: "dec_nat (enc_nat n @ r) = (n, r)"
  unfolding dec_nat_def enc_nat_def by (induction n) auto

lemma dec_str_enc [simp]: "dec_str (enc_str s @ r) = (s, r)"
  by (simp add: dec_str_def enc_str_def)

lemma dec_int_enc [simp]: "dec_int (enc_int i @ r) = (i, r)"
  by (simp add: dec_int_def enc_int_def)

lemma dec_opt_enc:
  "(\<And>v r. f (g v @ r) = (v, r)) \<Longrightarrow> dec_opt f (enc_opt g x @ r) = (x, r)"
  by (cases x) (simp_all add: dec_opt_def enc_opt_def)

lemmas dec_opt_enc' [simp] = dec_opt_enc[of dec_str enc_str, simplified]
  dec_opt_enc[of dec_int enc_int, simplified]

definition enc_token :: "string \<Rightarrow> payload \<Rightarrow> string" where
  "enc_token secret p = enc_str secret @ enc_opt enc_str (p_uid p) @ enc_opt enc_str (p_sid p)
     @ enc_opt enc_str (p_jti p) @ enc_opt enc_int (p_exp p) @ enc_opt enc_int (p_iat p)"

definition dec_token :: "string \<Rightarrow> string \<times> payload" where
  "dec_token x0 = (let (sec, x1) = dec_str x0; (u, x2) = dec_opt dec_str x1; (s, x3) = dec_opt dec_str x2;
      (j, x4) = dec_opt dec_str x3; (e, x5) = dec_opt dec_int x4; (i, x6) = dec_opt dec_int x5
    in (sec, \<lparr>p_uid = u, p_sid = s, p_jti = j, p_exp = e, p_iat = i\<rparr>))"

lemma dec_enc_token: "dec_token (enc_token secret p) = (secret, p)"
proof -
  have "dec_opt dec_int (enc_opt enc_int x) = (x, [])" for x
    using dec_opt_enc'(2)[of x "[]"] by simp
  then show ?thesis by (simp add: dec_token_def enc_token_def)
qed

lemma enc_token_inj [simp]: "enc_token a p = enc_token b q \<longleftrightarrow> a = b \<and> p = q"
  by (metis dec_enc_token prod.inject)

definition mem_jwt :: jwt_api where
  "mem_jwt = \<lparr>jwt_sign = (\<lambda>secret p. Inr (enc_token secret p)),
     jwt_verify = (\<lambda>secret now tok. case dec_token tok of (sec, p) \<Rightarrow>
       if sec = secret \<and> tok = enc_token secret p \<and> \<not> expired now p then Inr p else Inl JwtError)\<rparr>"

interpretation tok: jwt_signing mem_jwt
  by unfold_locales (auto simp: mem_jwt_def dec_enc_token split: prod.splits if_splits)

lemma mem_jwt_sign: "jwt_sign mem_jwt secret p = Inr (enc_token secret p)"
  by (simp add: mem_jwt_def)

section \<open>What the middlewares accept\<close>

context jwt_library begin

lemma ParseUserToken_issued:
  assumes "jwt_sign J secret p = Inr tok" and "\<not> expired now p"
  shows "ParseUserToken J now secret tok = Inr \<lparr>uid = str_or_zero (p_uid p)\<rparr>"
  using verify_signed[OF assms(1), of now] assms(2) by (simp add: ParseUserToken_def)

lemma ParseAdmissionToken_issued:
  assumes "jwt_sign J secret p = Inr tok" and "\<not> expired now p"
  shows "ParseAdmissionToken J now secret tok = Inr \<lparr>adm_uid = str_or_zero (p_uid p),
    adm_sid = str_or_zero (p_sid p), adm_jti = str_or_zero (p_jti p)\<rparr>"
  using verify_signed[OF assms(1), of now] assms(2) by (simp add: ParseAdmissionToken_def)

lemma expired_issued:
  "now < numeric_date (t + ttl) * 10 ^ 9 \<Longrightarrow>
     \<not> expired now \<lparr>p_uid = u, p_sid = s, p_jti = j, p_exp = Some (numeric_date (t + ttl)), p_iat = i\<rparr>"
  by (simp add: expired_def)

lemma admission_round_trip:
  assumes "IssueAdmissionToken J t secret u s j ttl = Inr tok"
    and "now < numeric_date (t + ttl) * 10 ^ 9"
  shows "AdmissionMiddleware J now secret (''Admission '' @ tok)
    = Inr \<lparr>ctx_userID = u, ctx_saleID = s, ctx_jti = j\<rparr>"
  using ParseAdmissionToken_issued[OF assms(1)[unfolded IssueAdmissionToken_def]
      expired_issued[OF assms(2)]]
  by (simp add: AdmissionMiddleware_def str_or_zero_def)

lemma admission_expires:
  assumes "IssueAdmissionToken J t secret u s j ttl = Inr tok"
    and "numeric_date (t + ttl) * 10 ^ 9 \<le> now"
  shows "AdmissionMiddleware J now secret (''Admission '' @ tok) = Inl (403, ''invalid admission'')"
  using verify_signed[OF assms(1)[unfolded IssueAdmissionToken_def], of now] assms(2)
  by (simp add: AdmissionMiddleware_def ParseAdmissionToken_def expired_def)

text \<open>A token that passes now passes later with the same context, or is refused.\<close>

lemma AdmissionMiddleware_later:
  assumes "AdmissionMiddleware J now secret h = Inr ctx"
  shows "AdmissionMiddleware J now' secret h \<in> {Inl (403, ''invalid admission''), Inr ctx}"
  using assms
  by (auto simp: AdmissionMiddleware_def ParseAdmissionToken_def split: if_splits sum.splits
      dest: verify_later[where now'=now'])

text \<open>The token of a plain login, presented with the other scheme.\<close>

lemma login_token_as_admission:
  assumes "IssueUserToken J t j secret u ttl = Inr tok"
    and "now < numeric_date (t + ttl) * 10 ^ 9"
  shows "AdmissionMiddleware J now secret (''Admission '' @ tok)
    = Inr \<lparr>ctx_userID = u, ctx_saleID = [], ctx_jti = j\<rparr>"
  using ParseAdmissionToken_issued[OF assms(1)[unfolded IssueUserToken_def]
      expired_issued[OF assms(2)]]
  by (auto simp: AdmissionMiddleware_def str_or_zero_def)

end

section \<open>A mark is set once\<close>

lemma consume_once:
  assumes "redis_server R alpha"
    and "ConsumeAdmission R t s j ttl rd = (Inr True, rd1)" and "0 < ttl" and "t' < t + ttl"
    and "ConsumeAdmission R t' s j ttl' rd1 = (Inr b, rd2)"
  shows "\<not> b"
  using redis_server.setnx_once[OF assms(1) assms(2)[unfolded ConsumeAdmission_def] assms(3,4)
      assms(5)[unfolded ConsumeAdmission_def]] .

section \<open>Properties\<close>

text \<open>An admission token carries its admission until it expires and no longer: presented
  before the expiry second it yields exactly the user, sale and identifier it was issued for;
  presented at or after it the request is refused with 403.\<close>

theorem admission_token_lifetime:
  assumes "jwt_library J" and "IssueAdmissionToken J t secret u s j ttl = Inr tok"
  shows "AdmissionMiddleware J now secret (''Admission '' @ tok)
    = (if now < numeric_date (t + ttl) * 10 ^ 9
       then Inr \<lparr>ctx_userID = u, ctx_saleID = s, ctx_jti = j\<rparr>
       else Inl (403, ''invalid admission''))"
  using jwt_library.admission_round_trip[OF assms] jwt_library.admission_expires[OF assms]
  by (auto simp: not_less)

theorem admission_token_lifetime_witness:
  "AdmissionMiddleware mem_jwt (61 * 10 ^ 9) ''k'' (''Admission '' @ enc_token ''k''
      \<lparr>p_uid = Some ''u1'', p_sid = Some ''A'', p_jti = Some ''j'', p_exp = Some 61, p_iat = Some 1\<rparr>)
    = Inl (403, ''invalid admission'')"
  using admission_token_lifetime[OF tok.jwt_library_axioms,
      of "10 ^ 9" "''k''" "''u1''" "''A''" "''j''" "60 * 10 ^ 9"]
  by (simp add: IssueAdmissionToken_def mem_jwt_sign numeric_date_def)

end
