(* ===== verification/Antibot.thy ===== *)
theory Antibot
  imports Redis
begin

text \<open>
  \<open>internal/antibot/limiter.go\<close>: the Redis rate limiter. \<open>Allow\<close> sends \<open>INCR\<close> and
  \<open>EXPIRE\<close> in one pipeline, so every call, a refused one included, counts and renews the
  window. The lemmas follow a key through a series of calls.
\<close>

section \<open>The limiter\<close>

abbreviation minute :: int where
  "minute \<equiv> 60 * 10 ^ 9"

definition key :: "string \<Rightarrow> string \<Rightarrow> string" where
  "key kind i = ''ratelimit:'' @ kind @ '':'' @ i"

definition Allow ::
  "'r redis_api \<Rightarrow> int \<Rightarrow> string \<Rightarrow> string \<Rightarrow> int \<Rightarrow> int \<Rightarrow> 'r \<Rightarrow> bool result \<times> 'r" where
  "Allow R now kind i limit window rd =
     (let k = key kind i;
          (incr, rd1) = r_incr R now k rd;
          (expire, rd2) = r_expire R now k window rd1
      in case incr of
           Inl err \<Rightarrow> (Inl err, rd2)
         | Inr n \<Rightarrow> (case expire of
             Inl err \<Rightarrow> (Inl err, rd2)
           | Inr _ \<Rightarrow> (Inr (n \<le> limit), rd2)))"

definition AllowJoin :: "'r redis_api \<Rightarrow> int \<Rightarrow> string \<Rightarrow> string \<Rightarrow> 'r \<Rightarrow> bool result \<times> 'r" where
  "AllowJoin R now userID ip rd =
     (case Allow R now ''ip_join'' ip 30 minute rd of
        (Inl err, rd1) \<Rightarrow> (Inl err, rd1)
      | (Inr okIP, rd1) \<Rightarrow>
          if \<not> okIP then (Inr False, rd1)
          else (case Allow R now ''user_join'' userID 10 minute rd1 of
                  (Inl err, rd2) \<Rightarrow> (Inl err, rd2)
                | (Inr okUser, rd2) \<Rightarrow> if \<not> okUser then (Inr False, rd2) else (Inr True, rd2)))"

definition AllowCheckout :: "'r redis_api \<Rightarrow> int \<Rightarrow> string \<Rightarrow> string \<Rightarrow> 'r \<Rightarrow> bool result \<times> 'r" where
  "AllowCheckout R now userID ip rd =
     (case Allow R now ''ip_checkout'' ip 3 minute rd of
        (Inl err, rd1) \<Rightarrow> (Inl err, rd1)
      | (Inr okIP, rd1) \<Rightarrow>
          if \<not> okIP then (Inr False, rd1)
          else Allow R now ''user_checkout'' userID 5 minute rd1)"

section \<open>One call\<close>

lemma key_eq_iff: "key k i = key k j \<longleftrightarrow> i = j"
  by (simp add: key_def)

lemma key_not_sale: "key k i \<noteq> QueueSeq (Keys s)" "key k i \<noteq> NextAdmit (Keys s)"
  by (simp_all add: key_def Keys_def Let_def)

text \<open>The number of calls counted in the window that is open at time \<open>t\<close>.\<close>

definition window_count :: "int \<Rightarrow> keyspace \<Rightarrow> string \<Rightarrow> int" where
  "window_count t m k = (case live t m k of None \<Rightarrow> 0 | Some n \<Rightarrow> n)"

lemma live_ttl_future: "live_ttl t m k = Some x \<Longrightarrow> t < x"
  by (auto simp: live_ttl_def live_def split: option.splits if_splits)

context redis_server begin

lemma Allow_answer:
  assumes "Allow R t kind i limit w rd = (Inr b, rd')"
  shows "b \<longleftrightarrow> window_count t (alpha rd) (key kind i) + 1 \<le> limit"
    and "alpha rd' (key kind i) = Some (window_count t (alpha rd) (key kind i) + 1, Some (t + w))"
proof -
  let ?k = "key kind i"
  obtain n rd1 e where i: "r_incr R t ?k rd = (Inr n, rd1)" and x: "r_expire R t ?k w rd1 = (Inr e, rd')"
    and b: "b = (n \<le> limit)"
    using assms by (auto simp: Allow_def Let_def split: prod.splits sum.splits)
  note inc = incr_law[OF i] and exp = expire_law[OF x]
  have n: "n = window_count t (alpha rd) ?k + 1"
    and rd1: "alpha rd1 ?k = Some (n, live_ttl t (alpha rd) ?k)"
    using inc by (auto simp: spec_incrby_def Let_def window_count_def dest: fun_cong[of _ _ ?k])
  show "b \<longleftrightarrow> window_count t (alpha rd) ?k + 1 \<le> limit" using b n by simp
  have "live t (alpha rd1) ?k = Some n"
    using rd1 live_ttl_future[of t "alpha rd" ?k] by (auto simp: live_def split: option.splits)
  with exp n show "alpha rd' ?k = Some (window_count t (alpha rd) ?k + 1, Some (t + w))"
    by (auto simp: spec_expire_def dest: fun_cong[of _ _ ?k])
qed

lemma Allow_frame:
  assumes "Allow R t kind i limit w rd = (r, rd')" and "k \<noteq> key kind i"
  shows "alpha rd' k = alpha rd k"
proof -
  obtain ri rd1 rx where i: "r_incr R t (key kind i) rd = (ri, rd1)"
    and x: "r_expire R t (key kind i) w rd1 = (rx, rd')"
    using assms(1) by (auto simp: Allow_def Let_def split: prod.splits sum.splits)
  have "alpha rd' k = alpha rd1 k"
    using spec_expire_other[of k "key kind i" t w "alpha rd1"] expire_law[of t "key kind i" w rd1 _ rd']
      expire_err[of t "key kind i" w rd1 _ rd'] x assms(2)
    by (cases rx) (auto simp del: spec_expire_other)
  with incr_frame[OF i assms(2)] show ?thesis by simp
qed

end

section \<open>A series of calls\<close>

text \<open>The answers of a series of calls at the given times.\<close>

fun allow_run ::
  "'r redis_api \<Rightarrow> string \<Rightarrow> string \<Rightarrow> int \<Rightarrow> int \<Rightarrow> int list \<Rightarrow> 'r \<Rightarrow> bool result list" where
  "allow_run R kind i limit window [] rd = []"
| "allow_run R kind i limit window (t # ts) rd =
     (case Allow R t kind i limit window rd of
        (r, rd') \<Rightarrow> r # allow_run R kind i limit window ts rd')"

text \<open>Each call comes less than \<open>window\<close> after the one before.\<close>

fun close_together :: "int \<Rightarrow> int \<Rightarrow> int list \<Rightarrow> bool" where
  "close_together window t [] \<longleftrightarrow> True"
| "close_together window t (t' # ts) \<longleftrightarrow> t' < t + window \<and> close_together window t' ts"

context redis_reliable begin

lemma Allow_Inr: "\<exists>b rd'. Allow R t kind i limit w rd = (Inr b, rd')"
proof -
  obtain n rd1 where i: "r_incr R t (key kind i) rd = (Inr n, rd1)"
    using incr_ok[of t "key kind i" rd] by (cases "r_incr R t (key kind i) rd"; cases "fst (r_incr R t (key kind i) rd)") auto
  obtain x rd2 where "r_expire R t (key kind i) w rd1 = (Inr x, rd2)"
    using expire_ok[of t "key kind i" w rd1]
    by (cases "r_expire R t (key kind i) w rd1"; cases "fst (r_expire R t (key kind i) w rd1)") auto
  with i show ?thesis by (simp add: Allow_def)
qed

lemma allow_run_counts:
  assumes "alpha rd (key kind i) = Some (c, Some (t + w))" and "close_together w t ts"
  shows "allow_run R kind i limit w ts rd = map (\<lambda>j. Inr (c + int j \<le> limit)) [1..<Suc (length ts)]"
  using assms
proof (induction ts arbitrary: c t rd)
  case (Cons t' ts)
  obtain b rd' where a: "Allow R t' kind i limit w rd = (Inr b, rd')" using Allow_Inr by blast
  have c: "window_count t' (alpha rd) (key kind i) = c"
    using Cons.prems by (simp add: window_count_def live_def)
  have "allow_run R kind i limit w ts rd' = map (\<lambda>j. Inr (c + 1 + int j \<le> limit)) [1..<Suc (length ts)]"
    using Allow_answer(2)[OF a] c Cons.prems(2) by (intro Cons.IH[of rd' "c + 1" t']) auto
  also have "\<dots> = map (\<lambda>j. Inr (c + int j \<le> limit)) [2..<Suc (Suc (length ts))]"
    by (simp add: map_Suc_upt[symmetric] numeral_2_eq_2 o_def add_ac del: upt_Suc)
  finally show ?case
    using a Allow_answer(1)[OF a] c by (simp add: upt_conv_Cons numeral_2_eq_2 del: upt_Suc)
qed simp

end

section \<open>Properties\<close>

text \<open>A series of calls for one subject, each less than the window after the one before, is
  let through exactly \<open>limit\<close> times, at its start, however long it lasts: the limiter never
  admits more than its limit in a busy stretch, and since a refused call renews the window too,
  a caller that keeps calling stays locked out.\<close>

theorem allow_series:
  assumes "redis_reliable R alpha" and "live t (alpha rd) (key kind i) = None"
    and "close_together window t ts"
  shows "allow_run R kind i limit window (t # ts) rd
    = map (\<lambda>j. Inr (int j \<le> limit)) [1..<Suc (Suc (length ts))]"
proof -
  obtain b rd' where a: "Allow R t kind i limit window rd = (Inr b, rd')"
    using redis_reliable.Allow_Inr[OF assms(1)] by blast
  have s: "redis_server R alpha" using assms(1) by (simp add: redis_reliable_def)
  have c: "window_count t (alpha rd) (key kind i) = 0" using assms(2) by (simp add: window_count_def)
  have "allow_run R kind i limit window ts rd'
      = map (\<lambda>j. Inr (1 + int j \<le> limit)) [1..<Suc (length ts)]"
    using redis_server.Allow_answer(2)[OF s a] c
    by (intro redis_reliable.allow_run_counts[OF assms(1) _ assms(3)]) simp
  also have "\<dots> = map (\<lambda>j. Inr (int j \<le> limit)) [2..<Suc (Suc (length ts))]"
    by (simp add: map_Suc_upt[symmetric] numeral_2_eq_2 o_def add_ac del: upt_Suc)
  finally show ?thesis
    using a redis_server.Allow_answer(1)[OF s a] c by (simp add: upt_conv_Cons numeral_2_eq_2 del: upt_Suc)
qed

theorem allow_series_witness:
  "allow_run mem_redis ''user_checkout'' ''u1'' 2 minute [0, 50 * 10 ^ 9, 100 * 10 ^ 9, 150 * 10 ^ 9] Map.empty
    = [Inr True, Inr True, Inr False, Inr False]"
proof -
  have "live 0 Map.empty (key ''user_checkout'' ''u1'') = None" by (simp add: live_def)
  from allow_series[where rd = Map.empty and alpha = "\<lambda>m. m", OF mem.redis_reliable_axioms this,
      of minute "[50 * 10 ^ 9, 100 * 10 ^ 9, 150 * 10 ^ 9]" 2]
  show ?thesis by (simp add: upt_rec)
qed

end
