(* ===== verification/Json.thy ===== *)
theory Json
  imports Config
begin

text \<open>
  The part of Go's \<open>encoding/json\<close> the handlers use to read a request body: \<open>Decode\<close> of one JSON
  value into a struct. The body is given as the value its text parses to; member names match a
  field exactly or else without regard to ASCII case, \<open>null\<close> leaves a field as it is, a value of
  the wrong type leaves the field and makes \<open>Decode\<close> report an error after the other fields are set.
\<close>

section \<open>Values\<close>

text \<open>\<open>J_Frac\<close> is a number that is not an integer literal.\<close>

datatype json = J_Null | J_Bool bool | J_Int int | J_Frac | J_Str string | J_Arr "json list"
  | J_Obj "(string \<times> json) list"

text \<open>The body of a request: \<open>None\<close> when its text is not JSON.\<close>

type_synonym body = "json option"

section \<open>Decoding\<close>

definition decode_string :: "json \<Rightarrow> string \<Rightarrow> string \<times> bool" where
  "decode_string v old = (case v of J_Null \<Rightarrow> (old, True) | J_Str s \<Rightarrow> (s, True) | _ \<Rightarrow> (old, False))"

definition decode_int :: "json \<Rightarrow> int \<Rightarrow> int \<times> bool" where
  "decode_int v old = (case v of J_Null \<Rightarrow> (old, True)
     | J_Int i \<Rightarrow> if in_int64 i then (i, True) else (old, False) | _ \<Rightarrow> (old, False))"

definition decode_strings :: "json \<Rightarrow> string list \<Rightarrow> string list \<times> bool" where
  "decode_strings v old = (case v of J_Null \<Rightarrow> ([], True)
     | J_Arr vs \<Rightarrow> (map (\<lambda>x. fst (decode_string x [])) vs, list_all (\<lambda>x. snd (decode_string x [])) vs)
     | _ \<Rightarrow> (old, False))"

text \<open>The field of the struct that a member name selects.\<close>

definition field_of :: "string list \<Rightarrow> string \<Rightarrow> string option" where
  "field_of names k = (if k \<in> set names then Some k else find (\<lambda>f. ToLower f = ToLower k) names)"

text \<open>The value of one field after all members are read, and whether none of them was of a wrong type.\<close>

fun decode_field ::
  "(json \<Rightarrow> 'a \<Rightarrow> 'a \<times> bool) \<Rightarrow> string list \<Rightarrow> string \<Rightarrow> (string \<times> json) list \<Rightarrow> 'a \<Rightarrow> 'a \<times> bool" where
  "decode_field dec names name [] old = (old, True)"
| "decode_field dec names name ((k, v) # ms) old =
     (if field_of names k = Some name
      then (case dec v old of (x, ok) \<Rightarrow>
              (case decode_field dec names name ms x of (y, ok') \<Rightarrow> (y, ok \<and> ok')))
      else decode_field dec names name ms old)"

definition members :: "body \<Rightarrow> (string \<times> json) list" where
  "members b = (case b of Some (J_Obj ms) \<Rightarrow> ms | _ \<Rightarrow> [])"

definition is_struct :: "body \<Rightarrow> bool" where
  "is_struct b = (case b of Some (J_Obj ms) \<Rightarrow> True | Some J_Null \<Rightarrow> True | _ \<Rightarrow> False)"

section \<open>The request structs\<close>

record credentials =
  cr_Email :: string
  cr_Password :: string

definition decode_credentials :: "body \<Rightarrow> credentials \<times> bool" where
  "decode_credentials b =
     (let fs = [''email'', ''password'']; ms = members b;
          (email, ok1) = decode_field decode_string fs ''email'' ms [];
          (pw, ok2) = decode_field decode_string fs ''password'' ms []
      in (\<lparr>cr_Email = email, cr_Password = pw\<rparr>, is_struct b \<and> ok1 \<and> ok2))"

record event_req =
  er_Name :: string
  er_Venue :: string
  er_StartsAt :: string

definition decode_event :: "body \<Rightarrow> event_req \<times> bool" where
  "decode_event b =
     (let fs = [''name'', ''venue'', ''starts_at'']; ms = members b;
          (name, ok1) = decode_field decode_string fs ''name'' ms [];
          (venue, ok2) = decode_field decode_string fs ''venue'' ms [];
          (starts, ok3) = decode_field decode_string fs ''starts_at'' ms []
      in (\<lparr>er_Name = name, er_Venue = venue, er_StartsAt = starts\<rparr>, is_struct b \<and> ok1 \<and> ok2 \<and> ok3))"

record sale_req =
  sr_EventID :: string
  sr_OpensAt :: string
  sr_EndsAt :: string
  sr_TotalSeats :: int
  sr_AdmitPerMinute :: int
  sr_WaitingRoomCap :: int

definition decode_sale :: "body \<Rightarrow> sale_req \<times> bool" where
  "decode_sale b =
     (let fs = [''event_id'', ''opens_at'', ''ends_at'', ''total_seats'', ''admit_per_minute'', ''waiting_room_cap''];
          ms = members b;
          (ev, ok1) = decode_field decode_string fs ''event_id'' ms [];
          (opens, ok2) = decode_field decode_string fs ''opens_at'' ms [];
          (ends, ok3) = decode_field decode_string fs ''ends_at'' ms [];
          (n, ok4) = decode_field decode_int fs ''total_seats'' ms 0;
          (rate, ok5) = decode_field decode_int fs ''admit_per_minute'' ms 0;
          (cap, ok6) = decode_field decode_int fs ''waiting_room_cap'' ms 0
      in (\<lparr>sr_EventID = ev, sr_OpensAt = opens, sr_EndsAt = ends, sr_TotalSeats = n,
           sr_AdmitPerMinute = rate, sr_WaitingRoomCap = cap\<rparr>,
          is_struct b \<and> ok1 \<and> ok2 \<and> ok3 \<and> ok4 \<and> ok5 \<and> ok6))"

record hold_req =
  hr_SeatIDs :: "string list"
  hr_IdempotencyKey :: string

definition decode_hold :: "body \<Rightarrow> hold_req \<times> bool" where
  "decode_hold b =
     (let fs = [''seat_ids'', ''idempotency_key'']; ms = members b;
          (ids, ok1) = decode_field decode_strings fs ''seat_ids'' ms [];
          (k, ok2) = decode_field decode_string fs ''idempotency_key'' ms []
      in (\<lparr>hr_SeatIDs = ids, hr_IdempotencyKey = k\<rparr>, is_struct b \<and> ok1 \<and> ok2))"

record checkout_req =
  kr_HoldID :: string
  kr_IdempotencyKey :: string

definition decode_checkout :: "body \<Rightarrow> checkout_req \<times> bool" where
  "decode_checkout b =
     (let fs = [''hold_id'', ''idempotency_key'']; ms = members b;
          (h, ok1) = decode_field decode_string fs ''hold_id'' ms [];
          (k, ok2) = decode_field decode_string fs ''idempotency_key'' ms []
      in (\<lparr>kr_HoldID = h, kr_IdempotencyKey = k\<rparr>, is_struct b \<and> ok1 \<and> ok2))"

section \<open>Round trips\<close>

text \<open>A body written with the field names of a struct is read back as that struct.\<close>

lemma decode_credentials_obj [simp]:
  "decode_credentials (Some (J_Obj [(''email'', J_Str a), (''password'', J_Str p)]))
     = (\<lparr>cr_Email = a, cr_Password = p\<rparr>, True)"
  by (simp add: decode_credentials_def members_def is_struct_def field_of_def decode_string_def)

lemma decode_string_list [simp]:
  "map ((\<lambda>x. fst (decode_string x [])) \<circ> J_Str) ids = ids" "list_all (\<lambda>x. snd (decode_string (J_Str x) [])) ids"
  by (simp_all add: decode_string_def comp_def list_all_iff)

lemma decode_hold_obj [simp]:
  "decode_hold (Some (J_Obj [(''seat_ids'', J_Arr (map J_Str ids)), (''idempotency_key'', J_Str k)]))
     = (\<lparr>hr_SeatIDs = ids, hr_IdempotencyKey = k\<rparr>, True)"
  by (simp add: decode_hold_def members_def is_struct_def field_of_def decode_strings_def
      decode_string_def[of "J_Str k"] list_all_iff comp_def) (simp add: decode_string_def)

lemma decode_checkout_obj [simp]:
  "decode_checkout (Some (J_Obj [(''hold_id'', J_Str h), (''idempotency_key'', J_Str k)]))
     = (\<lparr>kr_HoldID = h, kr_IdempotencyKey = k\<rparr>, True)"
  by (simp add: decode_checkout_def members_def is_struct_def field_of_def decode_string_def)

end
