(* ===== verification/Clock.thy ===== *)
theory Clock
  imports Config
begin

text \<open>
  The part of Go's \<open>time\<close> that the program uses on instants: \<open>Format\<close> in UTC with the layouts
  \<open>time.RFC3339\<close> and \<open>time.RFC3339Nano\<close>, \<open>Parse\<close> with \<open>time.RFC3339\<close>, and the stricter reading of
  \<open>Time.UnmarshalJSON\<close>. An instant is a number of nanoseconds since the Unix epoch.
\<close>

section \<open>Fixed-width numbers\<close>

definition digit :: "nat \<Rightarrow> char" where
  "digit n = char_of (n + 48)"

fun pad :: "nat \<Rightarrow> nat \<Rightarrow> string" where
  "pad 0 n = []"
| "pad (Suc k) n = pad k (n div 10) @ [digit (n mod 10)]"

definition num :: "string \<Rightarrow> nat" where
  "num ds = foldl (\<lambda>a c. a * 10 + digit_val c) 0 ds"

lemma digit_simps [simp]: "n < 10 \<Longrightarrow> is_digit (digit n)" "n < 10 \<Longrightarrow> digit_val (digit n) = n"
  using digit_char[of n] by (simp_all add: digit_def)

lemma length_pad [simp]: "length (pad k n) = k"
  by (induction k arbitrary: n) auto

lemma digits_pad [simp]: "list_all is_digit (pad k n)"
  by (induction k arbitrary: n) auto

lemma num_snoc [simp]: "num (ds @ [c]) = num ds * 10 + digit_val c"
  by (simp add: num_def)

lemma num_pad: "num (pad k n) = n mod 10 ^ k"
proof (induction k arbitrary: n)
  case 0
  then show ?case by (simp add: num_def)
next
  case (Suc k)
  have "n mod (10 * 10 ^ k) = (n div 10 mod 10 ^ k) * 10 + n mod 10"
    by (simp add: mod_mult2_eq)
  with Suc show ?case by simp
qed

lemma num_zeros: "num (ds @ replicate k (digit 0)) = num ds * 10 ^ k"
  by (induction k) (simp_all add: replicate_append_same[symmetric] append_assoc[symmetric] del: append_assoc)

section \<open>The calendar\<close>

definition leap :: "int \<Rightarrow> bool" where
  "leap y \<longleftrightarrow> y mod 4 = 0 \<and> (y mod 100 \<noteq> 0 \<or> y mod 400 = 0)"

definition year_length :: "int \<Rightarrow> nat" where
  "year_length y = (if leap y then 366 else 365)"

definition month_lengths :: "int \<Rightarrow> nat list" where
  "month_lengths y = [31, if leap y then 29 else 28, 31, 30, 31, 30, 31, 31, 30, 31, 30, 31]"

text \<open>Days from 1 January of year 1 to 1 January of year \<open>y\<close>.\<close>

definition days_before :: "int \<Rightarrow> int" where
  "days_before y = 365 * (y - 1) + (y - 1) div 4 - (y - 1) div 100 + (y - 1) div 400"

definition days_of :: "int \<Rightarrow> nat \<Rightarrow> nat \<Rightarrow> int" where
  "days_of y m d = days_before y + int (sum_list (take (m - 1) (month_lengths y))) + int d - 1"

function year_of :: "int \<Rightarrow> nat \<Rightarrow> int \<times> nat" where
  "year_of y r = (if r < year_length y then (y, r) else year_of (y + 1) (r - year_length y))"
  by auto
termination by (relation "measure snd") (auto simp: year_length_def)

declare year_of.simps [simp del]

fun month_of :: "nat list \<Rightarrow> nat \<Rightarrow> nat \<Rightarrow> nat \<times> nat" where
  "month_of [] m r = (m, r + 1)"
| "month_of (l # ls) m r = (if r < l then (m, r + 1) else month_of ls (m + 1) (r - l))"

text \<open>A day, counted from 1 January of year 1, as year, month and day.\<close>

definition civil :: "int \<Rightarrow> int \<times> nat \<times> nat" where
  "civil d = (case year_of (400 * (d div 146097) + 1) (nat (d mod 146097)) of
     (y, r) \<Rightarrow> (y, month_of (month_lengths y) 1 r))"

lemma div_step: "0 < k \<Longrightarrow> (y::int) div k = (y - 1) div k + (if y mod k = 0 then 1 else 0)"
proof (cases "y mod k = 0")
  case True
  assume "0 < k"
  then have "(y - 1) div k = y div k - 1"
    using True mult_div_mod_eq[of k y] by (intro int_div_pos_eq[where r = "k - 1"]) (auto simp: algebra_simps)
  with True show ?thesis by simp
next
  case False
  assume k: "0 < k"
  then have "0 \<le> y mod k - 1" "y mod k - 1 < k" using False pos_mod_sign[of k y] pos_mod_bound[of k y] by linarith+
  then have "(y - 1) div k = y div k"
    using mult_div_mod_eq[of k y] by (intro int_div_pos_eq[where r = "y mod k - 1"]) auto
  with False show ?thesis by simp
qed

lemma leap_step:
  fixes a b c y :: int
  assumes "a' = a + (if P then 1 else 0)" and "b' = b + (if Q then 1 else 0)" and "c' = c + (if R then 1 else 0)"
    and "Q \<longrightarrow> P" and "R \<longrightarrow> Q"
  shows "365 * (y + 1 - 1) + a' - b' + c' = 365 * (y - 1) + a - b + c + int (if P \<and> (\<not> Q \<or> R) then 366 else 365)"
  using assms by auto

lemma days_before_Suc: "days_before (y + 1) = days_before y + int (year_length y)"
proof -
  have "y mod 100 = 0 \<longrightarrow> y mod 4 = 0" and "y mod 400 = 0 \<longrightarrow> y mod 100 = 0"
    using dvd_trans[of 4 100 y] dvd_trans[of 100 400 y] by (simp_all add: mod_eq_0_iff_dvd)
  note l = leap_step[OF div_step[of 4 y] div_step[of 100 y] div_step[of 400 y] this, of y]
  show ?thesis unfolding days_before_def year_length_def leap_def add_diff_cancel_right'
    by (rule l[unfolded add_diff_cancel_right']) simp_all
qed

lemma year_of_days: "year_of y r = (y', r') \<Longrightarrow> days_before y' + int r' = days_before y + int r \<and> r' < year_length y'"
proof (induction y r rule: year_of.induct)
  case (1 y r)
  show ?case
  proof (cases "r < year_length y")
    case True
    with "1.prems" show ?thesis by (simp add: year_of.simps)
  next
    case False
    with "1.prems" have "year_of (y + 1) (r - year_length y) = (y', r')" by (simp add: year_of.simps[of y])
    with "1.IH" False have "days_before y' + int r' = days_before (y + 1) + int (r - year_length y) \<and> r' < year_length y'"
      by simp
    with False show ?thesis by (simp add: days_before_Suc of_nat_diff)
  qed
qed

lemma sum_month_lengths: "sum_list (month_lengths y) = year_length y"
  by (simp add: month_lengths_def year_length_def)

lemma month_of_days:
  assumes "month_of ls m r = (m', d)" and "r < sum_list ls"
  shows "m \<le> m' \<and> m' < m + length ls \<and> sum_list (take (m' - m) ls) + d = r + 1 \<and> 1 \<le> d \<and> d \<le> ls ! (m' - m)"
  using assms
proof (induction ls m r rule: month_of.induct)
  case (2 l ls m r)
  show ?case
  proof (cases "r < l")
    case False
    with 2 have ih: "m + 1 \<le> m' \<and> m' < m + 1 + length ls \<and> sum_list (take (m' - (m + 1)) ls) + d = r - l + 1
        \<and> 1 \<le> d \<and> d \<le> ls ! (m' - (m + 1))"
      by simp
    then have "m' - m = Suc (m' - (m + 1))" by linarith
    with ih False show ?thesis by simp linarith
  qed (use 2 in auto)
qed simp

lemma civil_days:
  assumes "civil n = (y, m, d)"
  shows "days_of y m d = n" and "1 \<le> m" and "m \<le> 12" and "1 \<le> d" and "d \<le> month_lengths y ! (m - 1)"
proof -
  obtain r where y: "year_of (400 * (n div 146097) + 1) (nat (n mod 146097)) = (y, r)"
    and m: "month_of (month_lengths y) 1 r = (m, d)"
    using assms by (auto simp: civil_def split: prod.splits)
  have e: "(400 * k) div 4 = 100 * k" "(400 * k) div 100 = 4 * k" "(400 * k) div 400 = k" for k :: int
    using nonzero_mult_div_cancel_left[of 4 "100 * k"] nonzero_mult_div_cancel_left[of 100 "4 * k"] by simp_all
  have "days_before (400 * (n div 146097) + 1) = 146097 * (n div 146097)" by (simp add: days_before_def e)
  with year_of_days[OF y] have r: "days_before y + int r = n" "r < year_length y" by simp_all
  have "r < sum_list (month_lengths y)" using r(2) by (simp add: sum_month_lengths)
  note c = month_of_days[OF m this]
  show "1 \<le> m" "m \<le> 12" "1 \<le> d" "d \<le> month_lengths y ! (m - 1)"
    using c by (simp_all add: month_lengths_def)
  have "int (sum_list (take (m - 1) (month_lengths y))) + int d = int r + 1"
    using c by (metis of_nat_1 of_nat_add)
  with r(1) show "days_of y m d = n" by (simp add: days_of_def)
qed

section \<open>Formatting\<close>

text \<open>Days from 1 January of year 1 to the epoch.\<close>

definition epoch_day :: int where
  "epoch_day = 719162"

definition nanos_per_sec :: int where
  "nanos_per_sec = 10 ^ 9"

definition zpad4 :: "nat \<Rightarrow> string" where
  "zpad4 n = (if n < 10 ^ 4 then pad 4 n else show_nat n)"

definition show_year :: "int \<Rightarrow> string" where
  "show_year y = (if y < 0 then CHR ''-'' # zpad4 (nat (- y)) else zpad4 (nat y))"

definition trim_zeros :: "string \<Rightarrow> string" where
  "trim_zeros ds = rev (dropWhile (\<lambda>c. c = digit 0) (rev ds))"

definition show_frac :: "nat \<Rightarrow> string" where
  "show_frac ns = (if ns = 0 then [] else CHR ''.'' # trim_zeros (pad 9 ns))"

text \<open>\<open>t.UTC().Format(...)\<close>; \<open>nano\<close> selects \<open>RFC3339Nano\<close>.\<close>

definition show_clock :: "nat \<Rightarrow> string" where
  "show_clock sod = pad 2 (sod div 3600) @ '':'' @ pad 2 (sod div 60 mod 60) @ '':'' @ pad 2 (sod mod 60)"

definition year_at :: "int \<Rightarrow> int" where
  "year_at t = fst (civil (t div nanos_per_sec div 86400 + epoch_day))"

definition Format :: "bool \<Rightarrow> int \<Rightarrow> string" where
  "Format nano t =
     (let secs = t div nanos_per_sec in
      case civil (secs div 86400 + epoch_day) of (y, m, d) \<Rightarrow>
        show_year y @ ''-'' @ pad 2 m @ ''-'' @ pad 2 d @ ''T'' @ show_clock (nat (secs mod 86400))
        @ (if nano then show_frac (nat (t mod nanos_per_sec)) else []) @ ''Z'')"

section \<open>Parsing\<close>

text \<open>Exactly \<open>k\<close> digits; one or two digits (\<open>getnum\<close> that is not fixed); a literal character.\<close>

definition take_num :: "nat \<Rightarrow> string \<Rightarrow> (nat \<times> string) option" where
  "take_num k s =
     (if k \<le> length s \<and> list_all is_digit (take k s) then Some (num (take k s), drop k s) else None)"

definition take_hour :: "string \<Rightarrow> (nat \<times> string) option" where
  "take_hour s = (case take_num 2 s of Some r \<Rightarrow> Some r | None \<Rightarrow> take_num 1 s)"

definition take_char :: "char \<Rightarrow> string \<Rightarrow> string option" where
  "take_char c s = (case s of [] \<Rightarrow> None | x # r \<Rightarrow> if x = c then Some r else None)"

text \<open>A fraction is taken when there is one; digits after the ninth are dropped.\<close>

definition take_frac :: "string \<Rightarrow> nat \<times> string" where
  "take_frac s = (case s of
       c # x # r \<Rightarrow>
         if (c = CHR ''.'' \<or> c = CHR '','') \<and> is_digit x
         then let ds = takeWhile is_digit (x # r)
              in (num (take 9 (ds @ replicate 9 (digit 0))), dropWhile is_digit (x # r))
         else (0, s)
     | _ \<Rightarrow> (0, s))"

text \<open>The zone, as seconds east of UTC; hours up to 24 and minutes up to 60 pass.\<close>

definition take_zone :: "string \<Rightarrow> (int \<times> string) option" where
  "take_zone s =
     (case s of [] \<Rightarrow> None
      | c # r \<Rightarrow>
        if c = CHR ''Z'' then Some (0, r)
        else if length s < 6 \<or> s ! 3 \<noteq> CHR '':'' then None
        else case (take_num 2 r, take_num 2 (drop 4 s)) of
          (Some (hh, _), Some (mm, rest)) \<Rightarrow>
            if 24 < hh \<or> 60 < mm then None
            else if c = CHR ''+'' then Some (int ((hh * 60 + mm) * 60), rest)
            else if c = CHR ''-'' then Some (- int ((hh * 60 + mm) * 60), rest)
            else None
        | _ \<Rightarrow> None)"

text \<open>
  \<open>time.Parse(time.RFC3339, s)\<close>: the fields one after the other, then the end of the text and the
  day of the month. \<open>None\<close> is an error (the value is then the zero time).
\<close>

definition parse_date :: "string \<Rightarrow> ((int \<times> nat \<times> nat) \<times> string) option" where
  "parse_date s0 =
     Option.bind (take_num 4 s0) (\<lambda>(y, s1). Option.bind (take_char CHR ''-'' s1) (\<lambda>s2.
     Option.bind (take_num 2 s2) (\<lambda>(m, s3). if m < 1 \<or> 12 < m then None else
     Option.bind (take_char CHR ''-'' s3) (\<lambda>s4.
     Option.bind (take_num 2 s4) (\<lambda>(d, s5). Some ((int y, m, d), s5))))))"

definition parse_clock :: "string \<Rightarrow> (nat \<times> string) option" where
  "parse_clock s0 =
     Option.bind (take_hour s0) (\<lambda>(h, s1). if 24 \<le> h then None else
     Option.bind (take_char CHR '':'' s1) (\<lambda>s2.
     Option.bind (take_num 2 s2) (\<lambda>(mi, s3). if 60 \<le> mi then None else
     Option.bind (take_char CHR '':'' s3) (\<lambda>s4.
     Option.bind (take_num 2 s4) (\<lambda>(sec, s5). if 60 \<le> sec then None else
       Some (h * 3600 + mi * 60 + sec, s5))))))"

definition ParseTime :: "string \<Rightarrow> int option" where
  "ParseTime s =
     Option.bind (parse_date s) (\<lambda>((y, m, d), s1).
     Option.bind (take_char CHR ''T'' s1) (\<lambda>s2.
     Option.bind (parse_clock s2) (\<lambda>(sod, s3).
     case take_frac s3 of (ns, s4) \<Rightarrow>
     Option.bind (take_zone s4) (\<lambda>(off, rest).
       if rest \<noteq> [] \<or> d < 1 \<or> month_lengths y ! (m - 1) < d then None
       else Some (((days_of y m d - epoch_day) * 86400 + int sod - off) * nanos_per_sec + int ns)))))"

text \<open>The zero time, 1 January of year 1, which a failed parse leaves.\<close>

definition zero_time :: int where
  "zero_time = - epoch_day * 86400 * nanos_per_sec"

section \<open>Round trips\<close>

lemma take_num_pad [simp]: "n < 10 ^ k \<Longrightarrow> take_num k (pad k n @ s) = Some (n, s)"
  by (simp add: take_num_def num_pad)

lemma take_hour_pad [simp]: "n < 100 \<Longrightarrow> take_hour (pad 2 n @ s) = Some (n, s)"
  using take_num_pad[of n 2 s] by (simp add: take_hour_def)

lemma take_char_Cons [simp]: "take_char c (c # s) = Some s"
  by (simp add: take_char_def)

lemma trim_zeros: "\<exists>k. ds = trim_zeros ds @ replicate k (digit 0)"
  unfolding trim_zeros_def
proof -
  let ?z = "digit 0"
  have "rev (takeWhile (\<lambda>c. c = ?z) (rev ds)) = replicate (length (takeWhile (\<lambda>c. c = ?z) (rev ds))) ?z"
    by (metis (mono_tags) replicate_length_same set_rev set_takeWhileD length_rev)
  then show "\<exists>k. ds = rev (dropWhile (\<lambda>c. c = ?z) (rev ds)) @ replicate k ?z"
    using arg_cong[OF takeWhile_dropWhile_id[of "\<lambda>c. c = ?z" "rev ds"], of rev] by (metis rev_append rev_rev_ident)
qed

lemma takeWhile_digits: "list_all is_digit ds \<Longrightarrow> \<not> is_digit c \<Longrightarrow>
    takeWhile is_digit (ds @ c # s) = ds \<and> dropWhile is_digit (ds @ c # s) = c # s"
  by (induction ds) auto

lemma take_frac_show:
  assumes "ns < 10 ^ 9"
  shows "take_frac (show_frac ns @ ''Z'') = (ns, ''Z'')"
proof (cases "ns = 0")
  case False
  let ?ds = "trim_zeros (pad 9 ns)"
  obtain k where k: "pad 9 ns = ?ds @ replicate k (digit 0)" using trim_zeros[of "pad 9 ns"] by (elim exE)
  have n: "num (pad 9 ns) = ns" using assms by (simp add: num_pad)
  have "?ds \<noteq> []"
  proof
    assume "?ds = []"
    then have "pad 9 ns = [] @ replicate k (digit 0)" using k by metis
    then have "num (pad 9 ns) = num [] * 10 ^ k" by (metis num_zeros)
    with n False show False by (simp add: num_def)
  qed
  then obtain x r where x: "?ds = x # r" by (cases ?ds) auto
  have d: "list_all is_digit ?ds" by (metis digits_pad k list_all_append)
  have z: "\<not> is_digit CHR ''Z''" by (simp add: is_digit_def)
  have l: "length ?ds + k = 9" by (metis k length_pad length_append length_replicate)
  have "take 9 (?ds @ replicate 9 (digit 0)) = ?ds @ replicate k (digit 0)" using l by simp
  with k n have "num (take 9 (?ds @ replicate 9 (digit 0))) = ns" by metis
  with takeWhile_digits[OF d z, of "[]"] d False show ?thesis
    unfolding x by (simp add: take_frac_def show_frac_def x Let_def)
qed (simp add: take_frac_def show_frac_def)

lemma month_length_le: "m \<ge> 1 \<Longrightarrow> m \<le> 12 \<Longrightarrow> month_lengths y ! (m - 1) \<le> 31"
proof -
  assume "m \<ge> 1" "m \<le> 12"
  then have "m - 1 < length (month_lengths y)" by (simp add: month_lengths_def)
  then have "month_lengths y ! (m - 1) \<in> set (month_lengths y)" by (rule nth_mem)
  then show ?thesis by (auto simp: month_lengths_def)
qed

lemma parse_clock_show:
  assumes "sod < 86400"
  shows "parse_clock (show_clock sod @ s) = Some (sod, s)"
proof -
  have "sod div 3600 < 24" using assms by (simp add: less_mult_imp_div_less)
  moreover have "sod div 3600 * 3600 + sod div 60 mod 60 * 60 + sod mod 60 = sod"
  proof -
    have "sod div 3600 = sod div 60 div 60" by (simp add: div_mult2_eq[symmetric])
    then have "sod div 3600 * 60 + sod div 60 mod 60 = sod div 60" by simp
    then show ?thesis using div_mult_mod_eq[of sod 60] by linarith
  qed
  moreover have "sod mod 60 < 60" "sod div 60 mod 60 < 60" by simp_all
  ultimately show ?thesis
    by (simp add: parse_clock_def show_clock_def not_le)
qed

text \<open>Reading back a formatted instant, to the second with \<open>RFC3339\<close>, exactly with \<open>RFC3339Nano\<close>.\<close>

lemma ParseTime_Format:
  assumes "0 \<le> year_at t" and "year_at t < 10000"
  shows "ParseTime (Format nano t) = Some (if nano then t else t - t mod nanos_per_sec)"
proof -
  let ?secs = "t div nanos_per_sec" and ?ns = "if nano then nat (t mod nanos_per_sec) else 0"
  obtain y m d where c: "civil (?secs div 86400 + epoch_day) = (y, m, d)" by (metis prod_cases3)
  note cd = civil_days[OF c]
  have y: "0 \<le> y" "y < 10000" using assms c by (simp_all add: year_at_def)
  have ny: "nat y < 10 ^ 4" using y by simp
  have d31: "d \<le> 31" using cd(2,3,5) month_length_le[of m y] by linarith
  have sod: "nat (?secs mod 86400) < 86400" by simp
  have ns: "?ns < 10 ^ 9" by (simp add: nanos_per_sec_def nat_less_iff)
  have date: "parse_date (show_year y @ ''-'' @ pad 2 m @ ''-'' @ pad 2 d @ ''T'' @ s) = Some ((y, m, d), ''T'' @ s)" for s
  proof -
    have "show_year y = pad 4 (nat y)" using ny y(1) by (simp only: show_year_def zpad4_def not_less[symmetric] if_True if_False)
    with ny y(1) cd(2,3) d31 show ?thesis by (simp add: parse_date_def)
  qed
  have frac: "take_frac ((if nano then show_frac (nat (t mod nanos_per_sec)) else []) @ ''Z'') = (?ns, ''Z'')"
    using take_frac_show[of "nat (t mod nanos_per_sec)"] ns by (cases nano) (simp_all add: take_frac_def)
  have "ParseTime (Format nano t)
      = Some (((days_of y m d - epoch_day) * 86400 + int (nat (?secs mod 86400))) * nanos_per_sec + int ?ns)"
    unfolding ParseTime_def Format_def Let_def c prod.case date
    using frac parse_clock_show[OF sod] cd(4,5) by (simp add: take_zone_def not_less)
  moreover have "(days_of y m d - epoch_day) * 86400 + int (nat (?secs mod 86400)) = ?secs"
    using div_mult_mod_eq[of ?secs 86400] by (simp add: cd(1))
  moreover have "?secs * nanos_per_sec = t - t mod nanos_per_sec"
    by (simp add: minus_mod_eq_div_mult)
  ultimately show ?thesis by (simp add: nanos_per_sec_def)
qed

end
