(* ===== verification/Httpapi.thy ===== *)
theory Httpapi
  imports Waitingroom Orders Auth Antibot Json Clock
begin

text \<open>
  \<open>internal/httpapi/handlers.go\<close> and \<open>response.go\<close>: the handlers of the public API, the middleware
  in front of them and the routes that join the two. A request is what the handlers read of it; a
  response is its status and the value that is encoded into its body. Routing itself, the JSON text
  and the demo, load-test and static routes are not modelled.
\<close>

section \<open>Requests, responses and dependencies\<close>

record request =
  rq_Authorization :: string
  rq_XForwardedFor :: string
  rq_RemoteAddr :: string
  rq_AdminKey :: string
  rq_DemoKey :: string
  rq_demo_key_param :: string
  rq_body :: body
  rq_flusher :: bool       \<comment> \<open>whether the response writer is an \<open>http.Flusher\<close>\<close>

datatype reply =
    R_Error string string                \<comment> \<open>\<open>Error\<close> with a code and a fixed message\<close>
  | R_ErrorOf string error               \<comment> \<open>\<open>Error\<close> with a code and \<open>err.Error()\<close>\<close>
  | R_Plain string                       \<comment> \<open>\<open>http.Error\<close>\<close>
  | R_UserToken string string
  | R_EventID string
  | R_SaleID string
  | R_Position int string
  | R_Status queue_status
  | R_Stream "queue_status list"
  | R_Seats "seat_row list"
  | R_Hold HoldResult
  | R_Checkout CheckoutResult
  | R_Order string order_status
  | R_Stats sale_stats
  | R_Entries "queue_entry list"
  | R_Health string

type_synonym response = "int \<times> reply"

text \<open>
  What the server uses of packages outside the repository: JWT, Redis, \<open>bcrypt\<close> (with its random
  salt) and the database's collation.
\<close>

record 'r deps =
  dp_cfg :: config
  dp_jwt :: jwt_api
  dp_redis :: "'r redis_api"
  dp_hash :: "string \<Rightarrow> string \<Rightarrow> string result"
  dp_check :: "string \<Rightarrow> string \<Rightarrow> bool"
  dp_collate :: "string \<Rightarrow> int"

text \<open>The environment of a call that a handler makes after \<open>k\<close> statements of its own.\<close>

definition shift_env :: "nat \<Rightarrow> env \<Rightarrow> env" where
  "shift_env k e = e\<lparr>sql_fault := (\<lambda>n. sql_fault e (n + k)), new_uuid := (\<lambda>n. new_uuid e (n + k))\<rparr>"

text \<open>The bytes of an em dash, which one of the messages contains.\<close>

definition em_dash :: string where
  "em_dash = [CHR 0xE2, CHR 0x80, CHR 0x94]"

definition used_message :: string where
  "used_message = ''admission token already used '' @ em_dash @ '' request a new one from queue status''"

definition join_message :: string where
  "join_message = ''Refreshing does not change your place in line.''"

section \<open>Middleware\<close>

text \<open>\<open>None\<close> lets the request through.\<close>

definition adminAuth :: "config \<Rightarrow> request \<Rightarrow> response option" where
  "adminAuth cfg rq =
     (if rq_AdminKey rq \<noteq> AdminAPIKey cfg then Some (401, R_Error ''unauthorized'' ''invalid admin key'') else None)"

definition demoAuth :: "config \<Rightarrow> request \<Rightarrow> response option" where
  "demoAuth cfg rq =
     (if DemoAPIKey cfg = [] then None
      else let key = (if rq_DemoKey rq = [] then rq_demo_key_param rq else rq_DemoKey rq) in
        if key \<noteq> DemoAPIKey cfg
        then Some (401, R_Error ''unauthorized'' ''invalid or missing demo key (X-Demo-Key header)'') else None)"

definition clientIP :: "request \<Rightarrow> string" where
  "clientIP rq = (if rq_XForwardedFor rq \<noteq> [] then rq_XForwardedFor rq else rq_RemoteAddr rq)"

section \<open>Accounts\<close>

definition new_user :: "env \<Rightarrow> string \<Rightarrow> string \<Rightarrow> user_row" where
  "new_user e email hash = \<lparr>u_id = new_uuid e 0, u_email = email, u_password_hash = hash,
     u_premium_member = False, u_partner_card = False, u_created_at = sql_now e\<rparr>"

abbreviation day :: int where
  "day \<equiv> 24 * 60 * 60 * 10 ^ 9"

definition register :: "'r deps \<Rightarrow> env \<Rightarrow> request \<Rightarrow> 'r world \<Rightarrow> response \<times> 'r world" where
  "register D e rq w =
     (case decode_credentials (rq_body rq) of (req, ok) \<Rightarrow>
        if \<not> ok then ((400, R_Error ''bad_request'' ''invalid body''), w)
        else case dp_hash D (new_uuid e 2) (cr_Password req) of
          Inl _ \<Rightarrow> ((500, R_Error ''internal'' ''hash failed''), w)
        | Inr hash \<Rightarrow>
          (case exec_stmt (sql_fault e 0) (insert_user (new_user e (cr_Email req) hash)) (dbs w) of
             (Inl _, d) \<Rightarrow> ((409, R_Error ''exists'' ''email already registered''), w\<lparr>dbs := d\<rparr>)
           | (Inr _, d) \<Rightarrow>
               let userID = new_uuid e 0;
                   token = scan_or [] (IssueUserToken (dp_jwt D) (go_now e) (new_uuid e 1) (JWTSecret (dp_cfg D)) userID day)
               in ((201, R_UserToken userID token), w\<lparr>dbs := d\<rparr>)))"

definition login :: "'r deps \<Rightarrow> env \<Rightarrow> request \<Rightarrow> 'r world \<Rightarrow> response \<times> 'r world" where
  "login D e rq w =
     (case decode_credentials (rq_body rq) of (req, ok) \<Rightarrow>
        if \<not> ok then ((400, R_Error ''bad_request'' ''invalid body''), w)
        else case query_row (sql_fault e 0) (\<lambda>u. u_email u = cr_Email req) (users (dbs w)) of
          Inl _ \<Rightarrow> ((401, R_Error ''unauthorized'' ''invalid credentials''), w)
        | Inr u \<Rightarrow>
            if \<not> dp_check D (u_password_hash u) (cr_Password req)
            then ((401, R_Error ''unauthorized'' ''invalid credentials''), w)
            else let token = scan_or [] (IssueUserToken (dp_jwt D) (go_now e) (new_uuid e 0) (JWTSecret (dp_cfg D)) (u_id u) day)
                 in ((200, R_UserToken (u_id u) token), w))"

section \<open>Administration\<close>

text \<open>\<open>t, _ := time.Parse(time.RFC3339, s)\<close>\<close>

definition parse_time :: "string \<Rightarrow> int" where
  "parse_time s = (case ParseTime s of None \<Rightarrow> zero_time | Some t \<Rightarrow> t)"

definition createEvent :: "'r deps \<Rightarrow> env \<Rightarrow> request \<Rightarrow> 'r world \<Rightarrow> response \<times> 'r world" where
  "createEvent D e rq w =
     (let req = fst (decode_event (rq_body rq));
          row = \<lparr>ev_id = new_uuid e 0, ev_name = er_Name req, ev_venue = er_Venue req,
                 ev_starts_at = parse_time (er_StartsAt req), ev_created_at = sql_now e\<rparr>
      in case exec_stmt (sql_fault e 0) (insert_event row) (dbs w) of
           (Inl _, d) \<Rightarrow> ((201, R_EventID []), w\<lparr>dbs := d\<rparr>)
         | (Inr _, d) \<Rightarrow> ((201, R_EventID (ev_id row)), w\<lparr>dbs := d\<rparr>))"

text \<open>The columns the \<open>INSERT\<close> does not name take the schema's defaults.\<close>

definition new_sale :: "env \<Rightarrow> sale_req \<Rightarrow> sale_row" where
  "new_sale e req =
     \<lparr>s_id = new_uuid e 0, s_event_id = sr_EventID req, s_phase = General_sale,
      s_opens_at = parse_time (sr_OpensAt req), s_ends_at = parse_time (sr_EndsAt req),
      s_max_tickets_per_user = 4,
      s_waiting_room_cap = (if sr_WaitingRoomCap req \<le> 0 then 100000 else sr_WaitingRoomCap req),
      s_admit_per_minute = (if sr_AdmitPerMinute req \<le> 0 then 5000 else sr_AdmitPerMinute req),
      s_total_seats = (if sr_TotalSeats req \<le> 0 then 2000 else sr_TotalSeats req),
      s_created_at = sql_now e\<rparr>"

definition createSale :: "'r deps \<Rightarrow> env \<Rightarrow> request \<Rightarrow> 'r world \<Rightarrow> response \<times> 'r world" where
  "createSale D e rq w =
     (let row = new_sale e (fst (decode_sale (rq_body rq))) in
      case exec_stmt (sql_fault e 0) (insert_sale row) (dbs w) of
        (Inl err, d) \<Rightarrow> ((400, R_ErrorOf ''bad_request'' err), w\<lparr>dbs := d\<rparr>)
      | (Inr _, d) \<Rightarrow> ((201, R_SaleID (s_id row)),
            w\<lparr>dbs := snd (CreateSeats (shift_env 1 e) (s_id row) (s_total_seats row) d)\<rparr>))"

definition saleStats :: "env \<Rightarrow> string \<Rightarrow> 'r world \<Rightarrow> response \<times> 'r world" where
  "saleStats e saleID w = ((200, R_Stats (Stats e saleID (dbs w))), w)"

definition queueEntries :: "env \<Rightarrow> string \<Rightarrow> 'r world \<Rightarrow> response \<times> 'r world" where
  "queueEntries e saleID w =
     ((case QueueEntriesForAssert (sql_fault e 0) saleID (dbs w) of
         Inl err \<Rightarrow> (500, R_ErrorOf ''internal'' err)
       | Inr entries \<Rightarrow> (200, R_Entries entries)), w)"

section \<open>The waiting room\<close>

definition queueJoin :: "'r deps \<Rightarrow> env \<Rightarrow> request \<Rightarrow> string \<Rightarrow> string \<Rightarrow> 'r world \<Rightarrow> response \<times> 'r world" where
  "queueJoin D e rq saleID userID w =
     (case AllowJoin (dp_redis D) (redis_now e) userID (clientIP rq) (redis w) of
        (res, rd) \<Rightarrow>
          if res \<noteq> Inr True
          then ((429, R_Error ''rate_limited'' ''too many join attempts''), w\<lparr>redis := rd\<rparr>)
          else (case Join (dp_redis D) e saleID userID (w\<lparr>redis := rd\<rparr>) of
                  (Inl err, w') \<Rightarrow>
                    if err = ErrSaleNotOpen
                    then ((403, R_Error ''sale_closed'' ''sale is not open for queue joining''), w')
                    else if err = ErrWaitingRoomFull
                    then ((503, R_Error ''room_full'' ''waiting room at capacity''), w')
                    else ((500, R_ErrorOf ''internal'' err), w')
                | (Inr (pos, isNew), w') \<Rightarrow>
                    ((if isNew then 201 else 200, R_Position pos join_message), w')))"

text \<open>\<open>auth.IssueAdmissionToken\<close> as the queue service calls it.\<close>

definition issue_admission :: "'r deps \<Rightarrow> env \<Rightarrow> string \<Rightarrow> string \<Rightarrow> string \<Rightarrow> string result" where
  "issue_admission D e userID saleID jti =
     IssueAdmissionToken (dp_jwt D) (go_now e) (JWTSecret (dp_cfg D)) userID saleID jti (AdmissionTTL (dp_cfg D))"

definition queueStatus :: "'r deps \<Rightarrow> env \<Rightarrow> string \<Rightarrow> string \<Rightarrow> 'r world \<Rightarrow> response \<times> 'r world" where
  "queueStatus D e saleID userID w =
     (case Status (dp_redis D) (issue_admission D e) e saleID userID w of
        (Inl err, w') \<Rightarrow>
          if err = ErrNotInQueue then ((404, R_Error ''not_in_queue'' ''join the waiting room first''), w')
          else ((500, R_ErrorOf ''internal'' err), w')
      | (Inr st, w') \<Rightarrow> ((200, R_Status st), w'))"

text \<open>
  The loop of \<open>queueStream\<close>: at most \<open>n\<close> more polls, the \<open>i\<close>-th in its own environment (the code
  sleeps between two of them), ending at an error or at the admission.
\<close>

fun stream_loop :: "'r deps \<Rightarrow> (nat \<Rightarrow> env) \<Rightarrow> string \<Rightarrow> string \<Rightarrow> nat \<Rightarrow> nat \<Rightarrow> 'r world \<Rightarrow> queue_status list \<times> 'r world" where
  "stream_loop D es saleID userID i 0 w = ([], w)"
| "stream_loop D es saleID userID i (Suc n) w =
     (case Status (dp_redis D) (issue_admission D (es i)) (es i) saleID userID w of
        (Inl err, w') \<Rightarrow> ([], w')
      | (Inr st, w') \<Rightarrow>
          if Admitted st then ([st], w')
          else (case stream_loop D es saleID userID (Suc i) n w' of (sts, w'') \<Rightarrow> (st # sts, w'')))"

definition queueStream :: "'r deps \<Rightarrow> (nat \<Rightarrow> env) \<Rightarrow> request \<Rightarrow> string \<Rightarrow> string \<Rightarrow> 'r world \<Rightarrow> response \<times> 'r world" where
  "queueStream D es rq saleID userID w =
     (if \<not> rq_flusher rq then ((500, R_Error ''internal'' ''streaming not supported''), w)
      else case stream_loop D es saleID userID 0 5 w of (sts, w') \<Rightarrow> ((200, R_Stream sts), w'))"

section \<open>Seats, holds and orders\<close>

definition listSeats :: "'r deps \<Rightarrow> env \<Rightarrow> string \<Rightarrow> 'r world \<Rightarrow> response \<times> 'r world" where
  "listSeats D e saleID w =
     ((case ListAvailable (dp_collate D) (sql_fault e 0) saleID 200 (dbs w) of
         Inl err \<Rightarrow> (500, R_ErrorOf ''internal'' err)
       | Inr rows \<Rightarrow> (200, R_Seats rows)), w)"

definition createHold :: "'r deps \<Rightarrow> env \<Rightarrow> request \<Rightarrow> string \<Rightarrow> string \<Rightarrow> 'r world \<Rightarrow> response \<times> 'r world" where
  "createHold D e rq saleID userID w =
     (case decode_hold (rq_body rq) of (req, ok) \<Rightarrow>
        if \<not> ok then ((400, R_Error ''bad_request'' ''invalid body''), w)
        else let idem = (if hr_IdempotencyKey req = [] then ''default'' else hr_IdempotencyKey req) in
          (case Hold (dp_cfg D) e saleID userID idem (hr_SeatIDs req) (dbs w) of
             (Inl err, d) \<Rightarrow>
               ((if err = ErrSeatUnavailable then (409, R_Error ''unavailable'' ''seat not available'')
                 else (400, R_ErrorOf ''bad_request'' err)), w\<lparr>dbs := d\<rparr>)
           | (Inr hold, d) \<Rightarrow> ((200, R_Hold hold), w\<lparr>dbs := d\<rparr>)))"

definition checkout :: "'r deps \<Rightarrow> env \<Rightarrow> request \<Rightarrow> string \<Rightarrow> string \<Rightarrow> string \<Rightarrow> 'r world \<Rightarrow> response \<times> 'r world" where
  "checkout D e rq saleID userID jti w =
     (case ConsumeAdmission (dp_redis D) (redis_now e) saleID jti (AdmissionTTL (dp_cfg D) * 2) (redis w) of
        (res, rd) \<Rightarrow>
          if res \<noteq> Inr True
          then ((403, R_Error ''admission_used'' used_message),
                w\<lparr>redis := rd\<rparr>)
          else (case AllowCheckout (dp_redis D) (redis_now e) userID (clientIP rq) rd of
            (res', rd') \<Rightarrow>
              if res' \<noteq> Inr True
              then ((429, R_Error ''rate_limited'' ''checkout rate limit exceeded''), w\<lparr>redis := rd'\<rparr>)
              else let req = fst (decode_checkout (rq_body rq));
                       idem = (if kr_IdempotencyKey req = [] then ''default'' else kr_IdempotencyKey req)
                   in (case Checkout e saleID userID idem (kr_HoldID req) (w\<lparr>redis := rd'\<rparr>) of
                         (Inl err, w') \<Rightarrow>
                           ((if err = ErrTicketCapReached then (403, R_Error ''cap_exceeded'' ''ticket purchase limit reached'')
                             else (400, R_ErrorOf ''bad_request'' err)), w')
                       | (Inr res, w') \<Rightarrow> ((200, R_Checkout res), w'))))"

definition getOrder :: "env \<Rightarrow> string \<Rightarrow> string \<Rightarrow> 'r world \<Rightarrow> response \<times> 'r world" where
  "getOrder e orderID userID w =
     ((case query_row (sql_fault e 0) (\<lambda>x. o_id x = orderID \<and> o_user_id x = userID) (orders (dbs w)) of
         Inl _ \<Rightarrow> (404, R_Error ''not_found'' ''order not found'')
       | Inr x \<Rightarrow> (200, R_Order orderID (o_status x))), w)"

section \<open>Routes\<close>

datatype route =
    Rt_Register | Rt_Login
  | Rt_Join string | Rt_Status string | Rt_Stream string | Rt_Order string
  | Rt_Seats string | Rt_Hold string | Rt_Checkout string
  | Rt_CreateEvent | Rt_CreateSale | Rt_SaleStats string | Rt_QueueEntries string
  | Rt_Transfer | Rt_Live | Rt_Ready

text \<open>\<open>ready\<close> pings the database.\<close>

definition ready :: "env \<Rightarrow> 'r world \<Rightarrow> response \<times> 'r world" where
  "ready e w =
     ((if sql_fault e 0 then (503, R_Error ''not_ready'' ''database unavailable'') else (200, R_Health ''ready'')), w)"

text \<open>The three groups of routes behind a middleware.\<close>

definition with_user :: "'r deps \<Rightarrow> env \<Rightarrow> request \<Rightarrow> (string \<Rightarrow> response \<times> 'r world) \<Rightarrow> 'r world \<Rightarrow> response \<times> 'r world" where
  "with_user D e rq next w =
     (case Middleware (dp_jwt D) (go_now e) (JWTSecret (dp_cfg D)) (rq_Authorization rq) of
        Inl (status, msg) \<Rightarrow> ((status, R_Plain msg), w)
      | Inr ctx \<Rightarrow> next (UserIDFromContext ctx))"

definition with_admission ::
  "'r deps \<Rightarrow> env \<Rightarrow> request \<Rightarrow> (string \<Rightarrow> string \<Rightarrow> response \<times> 'r world) \<Rightarrow> 'r world \<Rightarrow> response \<times> 'r world" where
  "with_admission D e rq next w =
     (case AdmissionMiddleware (dp_jwt D) (go_now e) (JWTSecret (dp_cfg D)) (rq_Authorization rq) of
        Inl (status, msg) \<Rightarrow> ((status, R_Plain msg), w)
      | Inr ctx \<Rightarrow> next (UserIDFromContext ctx) (ctx_jti ctx))"

definition with_admin :: "'r deps \<Rightarrow> request \<Rightarrow> response \<times> 'r world \<Rightarrow> 'r world \<Rightarrow> response \<times> 'r world" where
  "with_admin D rq next w = (case adminAuth (dp_cfg D) rq of Some r \<Rightarrow> (r, w) | None \<Rightarrow> next)"

text \<open>
  \<open>Routes\<close>: the environments \<open>es\<close> serve the polls of a stream, \<open>es 0\<close> every other call.
\<close>

fun serve :: "'r deps \<Rightarrow> (nat \<Rightarrow> env) \<Rightarrow> route \<Rightarrow> request \<Rightarrow> 'r world \<Rightarrow> response \<times> 'r world" where
  "serve D es Rt_Register rq w = register D (es 0) rq w"
| "serve D es Rt_Login rq w = login D (es 0) rq w"
| "serve D es (Rt_Join s) rq w = with_user D (es 0) rq (\<lambda>u. queueJoin D (es 0) rq s u w) w"
| "serve D es (Rt_Status s) rq w = with_user D (es 0) rq (\<lambda>u. queueStatus D (es 0) s u w) w"
| "serve D es (Rt_Stream s) rq w = with_user D (es 0) rq (\<lambda>u. queueStream D es rq s u w) w"
| "serve D es (Rt_Order oid) rq w = with_user D (es 0) rq (\<lambda>u. getOrder (es 0) oid u w) w"
| "serve D es (Rt_Seats s) rq w = with_admission D (es 0) rq (\<lambda>u j. listSeats D (es 0) s w) w"
| "serve D es (Rt_Hold s) rq w = with_admission D (es 0) rq (\<lambda>u j. createHold D (es 0) rq s u w) w"
| "serve D es (Rt_Checkout s) rq w = with_admission D (es 0) rq (\<lambda>u j. checkout D (es 0) rq s u j w) w"
| "serve D es Rt_CreateEvent rq w = with_admin D rq (createEvent D (es 0) rq w) w"
| "serve D es Rt_CreateSale rq w = with_admin D rq (createSale D (es 0) rq w) w"
| "serve D es (Rt_SaleStats s) rq w = with_admin D rq (saleStats (es 0) s w) w"
| "serve D es (Rt_QueueEntries s) rq w = with_admin D rq (queueEntries (es 0) s w) w"
| "serve D es Rt_Transfer rq w =
     (case Transfer of _ \<Rightarrow> ((403, R_Error ''transfer_blocked'' ''Tickets are non-transferable''), w))"
| "serve D es Rt_Live rq w = ((200, R_Health ''ok''), w)"
| "serve D es Rt_Ready rq w = ready (es 0) w"

end
