(* ===== verification/Worker.thy ===== *)
theory Worker
  imports Waitingroom Stock
begin

text \<open>
  \<open>cmd/worker/main.go\<close>: the background process that, every five seconds, advances the admission
  window of each open sale and releases expired holds.
\<close>

section \<open>One tick\<close>

definition batch_size :: "int \<Rightarrow> int" where
  "batch_size admitPerMin = (let batch = go_div admitPerMin 12 in if batch < 1 then 1 else batch)"

definition admits :: "env \<Rightarrow> sale_row \<Rightarrow> bool" where
  "admits e s \<longleftrightarrow> (s_phase s = General_sale \<or> s_phase s = Presale) \<and> sql_now e < s_ends_at s"

text \<open>An error of one sale is logged and the loop goes on.\<close>

fun admit_loop :: "'r redis_api \<Rightarrow> env \<Rightarrow> sale_row list \<Rightarrow> 'r world \<Rightarrow> 'r world" where
  "admit_loop R e [] w = w"
| "admit_loop R e (s # rows) w =
     admit_loop R e rows (snd (AdvanceAdmission R e (s_id s) (batch_size (s_admit_per_minute s)) w))"

definition runAdmission ::
  "'r redis_api \<Rightarrow> (sale_row list \<Rightarrow> sale_row list) \<Rightarrow> env \<Rightarrow> 'r world \<Rightarrow> 'r world" where
  "runAdmission R pick e w =
     (case query_rows (sql_fault e 0) (admits e) (sales (dbs w)) of
        Inl _ \<Rightarrow> w
      | Inr rows \<Rightarrow> admit_loop R e (pick rows) w)"

text \<open>
  One round of the loop in \<open>main\<close>. The two calls run in environments of their own; the number of
  released holds is only logged.
\<close>

definition worker_tick ::
  "'r redis_api \<Rightarrow> (sale_row list \<Rightarrow> sale_row list) \<Rightarrow> (hold_row list \<Rightarrow> hold_row list) \<Rightarrow>
     env \<times> env \<Rightarrow> 'r world \<Rightarrow> 'r world" where
  "worker_tick R pick pick' es w =
     (let w1 = runAdmission R pick (fst es) w
      in w1\<lparr>dbs := snd (ReleaseExpired pick' (snd es) (dbs w1))\<rparr>)"

fun worker_run ::
  "'r redis_api \<Rightarrow> (sale_row list \<Rightarrow> sale_row list) \<Rightarrow> (hold_row list \<Rightarrow> hold_row list) \<Rightarrow>
     (env \<times> env) list \<Rightarrow> 'r world \<Rightarrow> 'r world" where
  "worker_run R pick pick' [] w = w"
| "worker_run R pick pick' (es # rest) w = worker_run R pick pick' rest (worker_tick R pick pick' es w)"

section \<open>Frames\<close>

lemma release_loop_frame:
  "release_loop e k hs c d = (r, d') \<Longrightarrow> sales d' = sales d \<and> queue_entries d' = queue_entries d
     \<and> users d' = users d \<and> orders d' = orders d \<and> tickets d' = tickets d"
proof (induction hs arbitrary: k c d)
  case (Cons h hs)
  obtain b d1 where x: "release_hold e (k + 2) h d = (b, d1)" by fastforce
  have "sales d1 = sales d \<and> queue_entries d1 = queue_entries d \<and> users d1 = users d
      \<and> orders d1 = orders d \<and> tickets d1 = tickets d"
    using release_hold_cases[OF x] by (simp add: freed_def)
  with Cons x show ?case by (fastforce split: if_splits)
qed simp

lemma ReleaseExpired_frame [simp]:
  "sales (snd (ReleaseExpired pick e d)) = sales d"
  "queue_entries (snd (ReleaseExpired pick e d)) = queue_entries d"
  "orders (snd (ReleaseExpired pick e d)) = orders d" "tickets (snd (ReleaseExpired pick e d)) = tickets d"
  using release_loop_frame[of e 1 "take 100 (pick (filter (\<lambda>h. h_expires_at h < sql_now e) (holds d)))" 0 d]
  by (auto simp: ReleaseExpired_def query_rows_def)
    (metis prod.collapse)+

lemma AdvanceAdmission_dbs [simp]: "dbs (snd (AdvanceAdmission R e s n w)) = dbs w"
  by (simp add: AdvanceAdmission_def split: prod.splits sum.splits)

lemma admit_loop_dbs [simp]: "dbs (admit_loop R e rows w) = dbs w"
  by (induction rows arbitrary: w) auto

lemma runAdmission_dbs [simp]: "dbs (runAdmission R pick e w) = dbs w"
  by (simp add: runAdmission_def split: sum.splits)

lemma worker_tick_db: "dbs (worker_tick R pick pick' es w) = snd (ReleaseExpired pick' (snd es) (dbs w))"
  and worker_tick_redis: "redis (worker_tick R pick pick' es w) = redis (runAdmission R pick (fst es) w)"
  by (simp_all add: worker_tick_def Let_def)

lemma worker_run_db:
  "sales (dbs (worker_run R pick pick' ess w)) = sales (dbs w)
   \<and> queue_entries (dbs (worker_run R pick pick' ess w)) = queue_entries (dbs w)"
  by (induction ess arbitrary: w) (simp_all add: worker_tick_db)

section \<open>The admission window\<close>

definition next_admit :: "keyspace \<Rightarrow> string \<Rightarrow> int" where
  "next_admit m s = counter m (NextAdmit (Keys s))"

definition windows_persist :: "keyspace \<Rightarrow> bool" where
  "windows_persist m \<longleftrightarrow> (\<forall>s. persistent m (NextAdmit (Keys s)))"

text \<open>How far one tick moves the window of the sale \<open>s\<close>.\<close>

definition drip :: "env \<Rightarrow> string \<Rightarrow> sale_row list \<Rightarrow> int" where
  "drip e s rows = (\<Sum>r\<leftarrow>filter (\<lambda>r. admits e r \<and> s_id r = s) rows. batch_size (s_admit_per_minute r))"

lemma sum_list_delivered: "mset xs = mset ys \<Longrightarrow> (\<Sum>x\<leftarrow>xs. f x :: int) = (\<Sum>y\<leftarrow>ys. f y)"
  by (metis mset_map sum_mset_sum_list)

context redis_reliable begin

lemma AdvanceAdmission_window:
  assumes "windows_persist (alpha (redis w))"
  shows "windows_persist (alpha (redis (snd (AdvanceAdmission R e s n w))))
    \<and> next_admit (alpha (redis (snd (AdvanceAdmission R e s n w)))) s'
        = next_admit (alpha (redis w)) s' + (if s' = s then n else 0)
    \<and> (\<forall>k. k \<noteq> NextAdmit (Keys s) \<longrightarrow> alpha (redis (snd (AdvanceAdmission R e s n w))) k = alpha (redis w) k)"
proof -
  obtain v rd where x: "r_incrby R (redis_now e) (NextAdmit (Keys s)) n (redis w) = (Inr v, rd)"
    using incrby_ok[of "redis_now e" "NextAdmit (Keys s)" n "redis w"]
    by (cases "r_incrby R (redis_now e) (NextAdmit (Keys s)) n (redis w)") (auto simp: is_ok_def split: sum.splits)
  have p: "persistent (alpha (redis w)) (NextAdmit (Keys s))" using assms by (simp add: windows_persist_def)
  note c = incrby_counter[OF x p] and f = incrby_frame[OF x]
  have "persistent (alpha rd) (NextAdmit (Keys a)) \<and>
      next_admit (alpha rd) a = next_admit (alpha (redis w)) a + (if a = s then n else 0)" for a
  proof (cases "a = s")
    case False
    then have "alpha rd (NextAdmit (Keys a)) = alpha (redis w) (NextAdmit (Keys a))" by (intro f) simp
    with False assms show ?thesis by (simp add: next_admit_def counter_def persistent_def windows_persist_def)
  qed (use c in \<open>simp add: next_admit_def\<close>)
  with f x show ?thesis by (auto simp: AdvanceAdmission_def windows_persist_def)
qed

lemma admit_loop_window:
  "windows_persist (alpha (redis w)) \<Longrightarrow>
     windows_persist (alpha (redis (admit_loop R e rows w)))
   \<and> next_admit (alpha (redis (admit_loop R e rows w))) s
       = next_admit (alpha (redis w)) s + (\<Sum>r\<leftarrow>filter (\<lambda>r. s_id r = s) rows. batch_size (s_admit_per_minute r))
   \<and> queue_seq (alpha (redis (admit_loop R e rows w))) s = queue_seq (alpha (redis w)) s"
proof (induction rows arbitrary: w)
  case (Cons r rows)
  let ?w = "snd (AdvanceAdmission R e (s_id r) (batch_size (s_admit_per_minute r)) w)"
  note a = AdvanceAdmission_window[OF Cons.prems, of e "s_id r" "batch_size (s_admit_per_minute r)"]
  have "queue_seq (alpha (redis ?w)) s = queue_seq (alpha (redis w)) s"
    using a by (simp add: queue_seq_def counter_def)
  with Cons.IH[of ?w] a show ?case by (auto simp: algebra_simps)
qed simp

lemma worker_tick_window:
  assumes "windows_persist (alpha (redis w))" and "delivers pick" and "\<not> sql_fault (fst es) 0"
  shows "windows_persist (alpha (redis (worker_tick R pick pick' es w)))
   \<and> next_admit (alpha (redis (worker_tick R pick pick' es w))) s
       = next_admit (alpha (redis w)) s + drip (fst es) s (sales (dbs w))
   \<and> queue_seq (alpha (redis (worker_tick R pick pick' es w))) s = queue_seq (alpha (redis w)) s"
proof -
  let ?rows = "filter (admits (fst es)) (sales (dbs w))"
  have "mset (pick ?rows) = mset ?rows" using assms(2) unfolding delivers_def by blast
  then have "mset (filter (\<lambda>r. s_id r = s) (pick ?rows)) = mset (filter (\<lambda>r. s_id r = s) ?rows)"
    by (simp only: mset_filter)
  then have "(\<Sum>r\<leftarrow>filter (\<lambda>r. s_id r = s) (pick ?rows). batch_size (s_admit_per_minute r)) = drip (fst es) s (sales (dbs w))"
    unfolding drip_def by (subst sum_list_delivered[where ys="filter (\<lambda>r. s_id r = s) ?rows"]) (auto simp: conj_commute intro!: arg_cong[where f=sum_list] map_cong filter_cong)
  with admit_loop_window[OF assms(1), of "fst es" "pick ?rows" s] assms(3) show ?thesis
    by (simp add: worker_tick_redis runAdmission_def query_rows_def)
qed

lemma worker_run_window:
  assumes "delivers pick"
  shows "windows_persist (alpha (redis w)) \<Longrightarrow> \<forall>es\<in>set ess. \<not> sql_fault (fst es) 0 \<Longrightarrow>
     windows_persist (alpha (redis (worker_run R pick pick' ess w)))
   \<and> next_admit (alpha (redis (worker_run R pick pick' ess w))) s
       = next_admit (alpha (redis w)) s + (\<Sum>es\<leftarrow>ess. drip (fst es) s (sales (dbs w)))
   \<and> queue_seq (alpha (redis (worker_run R pick pick' ess w))) s = queue_seq (alpha (redis w)) s"
proof (induction ess arbitrary: w)
  case (Cons es ess)
  have "sales (dbs (worker_tick R pick pick' es w)) = sales (dbs w)" by (simp add: worker_tick_db)
  with Cons.IH[of "worker_tick R pick pick' es w"] worker_tick_window[OF Cons.prems(1) assms, of es pick'] Cons.prems
  show ?case by (auto simp: algebra_simps)
qed simp

end

context redis_server begin

text \<open>A join that draws a number stores it, and touches no window.\<close>

lemma Join_new_row:
  assumes "Join R e s u w = (Inr (p, True), w')"
  shows "number_of s u (dbs w') = Some p \<and> alpha (redis w') (NextAdmit (Keys a)) = alpha (redis w) (NextAdmit (Keys a))"
  using assms
proof (cases rule: Join_cases)
  case (numbered info n rd cur)
  from numbered(7) show ?thesis
  proof (cases rule: join_insert_cases)
    case (inserted d k)
    then have "queue_entries (dbs w') = queue_entries (dbs w) @ [new_queue_row e s u p]"
      using insert_queue_entry_Inr(1)[OF inserted(4)] by simp
    then have "number_of s u (dbs w') = Some p"
      using numbered(3) by (auto simp: number_of_def find_append new_queue_row_def find_None_iff split: option.splits dest!: find_SomeD)
    with inserted incr_frame[OF numbered(6), of "NextAdmit (Keys a)"] show ?thesis by simp
  qed simp_all
qed simp_all

end

lemma drip_one:
  assumes "distinct (map s_id rows)" and "r \<in> set rows"
  shows "drip e (s_id r) rows = (if admits e r then batch_size (s_admit_per_minute r) else 0)"
  using assms
proof (induction rows)
  case (Cons x rows)
  show ?case
  proof (cases "r = x")
    case True
    with Cons.prems have "filter (\<lambda>y. admits e y \<and> s_id y = s_id r) rows = []"
      by (auto simp: filter_empty_conv image_iff)
    with True show ?thesis by (simp add: drip_def)
  next
    case False
    with Cons.prems have "s_id x \<noteq> s_id r" "r \<in> set rows" by (auto simp: image_iff)
    with Cons show ?thesis by (simp add: drip_def)
  qed
qed simp

lemma drip_none: "s \<notin> s_id ` set rows \<Longrightarrow> drip e s rows = 0"
  by (induction rows) (auto simp: drip_def)

lemma batch_size_eq: "batch_size a = max 1 (a div 12)"
proof (cases "0 \<le> a")
  case False
  then have "go_div a 12 \<le> 0" "a div 12 \<le> 0" by (auto intro: go_div_neg_le_0)
  then show ?thesis by (simp add: batch_size_def Let_def)
qed (simp add: batch_size_def go_div_nonneg Let_def max_def)

text \<open>A sale that stays open through a run moves by its batch in every tick.\<close>

lemma run_drip:
  assumes "redis_reliable R alpha" and "delivers pick" and "windows_persist (alpha (redis w))"
    and "\<forall>es\<in>set ess. \<not> sql_fault (fst es) 0 \<and> admits (fst es) r"
    and "distinct (map s_id (sales (dbs w)))" and "r \<in> set (sales (dbs w))"
  shows "next_admit (alpha (redis (worker_run R pick pick' ess w))) (s_id r)
    = next_admit (alpha (redis w)) (s_id r) + int (length ess) * max 1 (s_admit_per_minute r div 12)"
proof -
  have "drip (fst es) (s_id r) (sales (dbs w)) = max 1 (s_admit_per_minute r div 12)" if "es \<in> set ess" for es
    using drip_one[OF assms(5,6)] assms(4) that by (simp add: batch_size_eq)
  then have "(\<Sum>es\<leftarrow>ess. drip (fst es) (s_id r) (sales (dbs w))) = int (length ess) * max 1 (s_admit_per_minute r div 12)"
    by (simp add: sum_list_triv cong: map_cong)
  with redis_reliable.worker_run_window[OF assms(1,2,3)] assms(4) show ?thesis by simp
qed

section \<open>Properties\<close>

text \<open>
  \<^bold>\<open>One tick.\<close> A tick moves the admission window of every sale that is in its general sale or presale
  and has not ended by a twelfth of its rate per minute, at least by one, and no other window; it
  changes neither the queue, nor its counter, nor the sales.
\<close>

lemma tick_moves_windows:
  assumes "redis_reliable R alpha" and "delivers pick" and "windows_persist (alpha (redis w))"
    and "\<not> sql_fault (fst es) 0" and "distinct (map s_id (sales (dbs w)))"
  shows "(\<forall>r\<in>set (sales (dbs w)). next_admit (alpha (redis (worker_tick R pick pick' es w))) (s_id r)
        = next_admit (alpha (redis w)) (s_id r)
          + (if s_phase r \<in> {General_sale, Presale} \<and> sql_now (fst es) < s_ends_at r
             then max 1 (s_admit_per_minute r div 12) else 0))
    \<and> queue_seq (alpha (redis (worker_tick R pick pick' es w))) s = queue_seq (alpha (redis w)) s
    \<and> queue_entries (dbs (worker_tick R pick pick' es w)) = queue_entries (dbs w)
    \<and> sales (dbs (worker_tick R pick pick' es w)) = sales (dbs w)"
  using redis_reliable.worker_tick_window[OF assms(1,3,2,4)] drip_one[OF assms(5)]
  by (simp add: worker_tick_db batch_size_eq admits_def)

text \<open>
  \<^bold>\<open>The rate of a minute.\<close> Twelve ticks, a minute of them, admit the sale's rate rounded down to a
  multiple of twelve: never more than the rate and less than twelve short of it. A rate below
  twelve is not respected: twelve are admitted.
\<close>

theorem minute_of_ticks:
  assumes "redis_reliable R alpha" and "delivers pick" and "windows_persist (alpha (redis w))"
    and "\<forall>es\<in>set ess. \<not> sql_fault (fst es) 0 \<and> admits (fst es) r"
    and "distinct (map s_id (sales (dbs w)))" and "r \<in> set (sales (dbs w))" and "length ess = 12"
  shows "let moved = next_admit (alpha (redis (worker_run R pick pick' ess w))) (s_id r)
                    - next_admit (alpha (redis w)) (s_id r)
         in if 12 \<le> s_admit_per_minute r
            then moved \<le> s_admit_per_minute r \<and> s_admit_per_minute r - 12 < moved
            else moved = 12"
  using run_drip[OF assms(1-6), of pick'] assms(7) by (simp add: Let_def max_def) linarith

text \<open>A user at position \<open>p\<close> is admitted after at most \<open>p\<close> ticks.\<close>

lemma worker_admits:
  assumes "redis_reliable R alpha" and "delivers pick" and "windows_persist (alpha (redis w))"
    and "\<forall>es\<in>set ess. \<not> sql_fault (fst es) 0 \<and> admits (fst es) r"
    and "distinct (map s_id (sales (dbs w)))" and "r \<in> set (sales (dbs w))"
    and "0 \<le> next_admit (alpha (redis w)) (s_id r)"
    and "number_of (s_id r) u (dbs w) = Some p" and "p \<le> int (length ess)"
    and "no_faults e" and "issue u (s_id r) (new_uuid e 0) = Inr tok"
  shows "\<exists>st. fst (Status R issue e (s_id r) u (worker_run R pick pick' ess w)) = Inr st
    \<and> Admitted st \<and> Position st = p \<and> AdmissionToken st = tok"
proof -
  let ?w = "worker_run R pick pick' ess w"
  have win: "next_admit (alpha (redis ?w)) (s_id r) \<ge> p"
  proof -
    have "int (length ess) * 1 \<le> int (length ess) * max 1 (s_admit_per_minute r div 12)"
      by (intro mult_left_mono) simp_all
    with run_drip[OF assms(1-6), of pick'] assms(7,9) show ?thesis by simp
  qed
  have wp: "windows_persist (alpha (redis ?w))"
    using redis_reliable.worker_run_window[OF assms(1-3)] assms(4) by blast
  obtain q where q: "find (\<lambda>q. q_sale_id q = s_id r \<and> q_user_id q = u) (queue_entries (dbs ?w)) = Some q" "q_position q = p"
    using assms(8) worker_run_db[of R pick pick' ess w] by (auto simp: number_of_def split: option.splits)
  obtain info where info: "getSale False (s_id r) (dbs ?w) = Inr info"
    using assms(6) worker_run_db[of R pick pick' ess w] find_unique[of r "sales (dbs w)" "\<lambda>x. s_id x = s_id r"]
      distinct_map_inj[OF assms(5)] by (simp add: getSale_def query_row_def)
  obtain nx where nx: "r_get R (redis_now e) (NextAdmit (Keys (s_id r))) (redis ?w) = Inr nx"
    using redis_reliable.get_Inr[OF assms(1)] by blast
  have "(case nx of None \<Rightarrow> 0 | Some n \<Rightarrow> n) = next_admit (alpha (redis ?w)) (s_id r)"
    using redis_server.get_counter[OF redis_reliable.axioms(1)[OF assms(1)] nx] wp
    by (simp add: windows_persist_def next_admit_def)
  with q info nx win assms(10,11) show ?thesis
    by (simp add: Status_def query_row_def Let_def)
qed

text \<open>
  \<^bold>\<open>Everyone is admitted in the end.\<close> A user at position \<open>p\<close> of a sale that stays open is admitted
  after at most \<open>p\<close> ticks: the next status call without a failing statement says so and carries a
  token.
\<close>

theorem worker_admits_everyone:
  assumes "redis_reliable R alpha" and "delivers pick" and "windows_persist (alpha (redis w))"
    and "\<forall>es\<in>set ess. \<not> sql_fault (fst es) 0 \<and> admits (fst es) r"
    and "distinct (map s_id (sales (dbs w)))" and "r \<in> set (sales (dbs w))"
    and "0 \<le> next_admit (alpha (redis w)) (s_id r)"
    and "number_of (s_id r) u (dbs w) = Some p" and "p \<le> int (length ess)"
    and "no_faults e" and "issue u (s_id r) (new_uuid e 0) = Inr tok"
  shows "\<exists>st. fst (Status R issue e (s_id r) u (worker_run R pick pick' ess w)) = Inr st
    \<and> Admitted st \<and> Position st = p \<and> AdmissionToken st = tok"
  by (rule worker_admits[where alpha = alpha and w = w and issue = issue, OF assms])

text \<open>
  C26. \<^bold>\<open>The window runs ahead of the queue.\<close> The worker moves a sale's window whether or not anybody
  waits and whether or not the sale has opened: after \<open>n\<close> ticks, everyone who then joins and draws
  a number up to \<open>n\<close> is admitted at once.
\<close>

theorem early_ticks_admit_later_joins:
  assumes "redis_reliable R alpha" and "delivers pick" and "windows_persist (alpha (redis w))"
    and "\<forall>es\<in>set ess. \<not> sql_fault (fst es) 0 \<and> admits (fst es) r"
    and "distinct (map s_id (sales (dbs w)))" and "r \<in> set (sales (dbs w))"
    and "0 \<le> next_admit (alpha (redis w)) (s_id r)"
    and "Join R e (s_id r) u (worker_run R pick pick' ess w) = (Inr (p, True), w')" and "p \<le> int (length ess)"
    and "Status R issue e' (s_id r) u w' = (Inr st, w'')"
  shows "Admitted st \<and> Position st = p"
proof -
  let ?w = "worker_run R pick pick' ess w"
  have "int (length ess) * 1 \<le> int (length ess) * max 1 (s_admit_per_minute r div 12)"
    by (intro mult_left_mono) simp_all
  with run_drip[OF assms(1-6), of pick'] assms(7,9)
  have win: "next_admit (alpha (redis ?w)) (s_id r) \<ge> p" by simp
  have wp: "windows_persist (alpha (redis ?w))"
    using redis_reliable.worker_run_window[OF assms(1-3)] assms(4) by blast
  from Status_answer[OF assms(10)] obtain q info nx tok where
    q: "find (\<lambda>q. q_sale_id q = s_id r \<and> q_user_id q = u) (queue_entries (dbs w')) = Some q"
    and "getSale False (s_id r) (dbs w') = Inr info"
    and nx: "r_get R (redis_now e') (NextAdmit (Keys (s_id r))) (redis w') = Inr nx"
    and st: "st = status_fields (q_position q) (case nx of None \<Rightarrow> 0 | Some n \<Rightarrow> n) (q_admitted_at q)
            (AdmitPerMinute info)\<lparr>AdmissionToken := tok\<rparr>"
    by (elim exE conjE)
  have new: "number_of (s_id r) u (dbs w') = Some p \<and> alpha (redis w') (NextAdmit (Keys (s_id r))) = alpha (redis ?w) (NextAdmit (Keys (s_id r)))"
    using redis_server.Join_new_row[OF redis_reliable.axioms(1)[OF assms(1)] assms(8)] .
  with q have "q_position q = p" by (simp add: number_of_def)
  moreover have "persistent (alpha (redis w')) (NextAdmit (Keys (s_id r)))"
    using new wp by (simp add: windows_persist_def persistent_def)
  then have "(case nx of None \<Rightarrow> 0 | Some n \<Rightarrow> n) = next_admit (alpha (redis ?w)) (s_id r)"
    using redis_server.get_counter[OF redis_reliable.axioms(1)[OF assms(1)] nx] new
    by (simp add: next_admit_def counter_def)
  ultimately show ?thesis using st win by simp
qed

definition demo_tick :: "env \<times> env" where
  "demo_tick = (calm_env 50 ''w'', calm_env 50 ''w'')"

definition demo_ticked :: "keyspace world" where
  "demo_ticked = demo_world\<lparr>redis := [NextAdmit (Keys ''A'') \<mapsto> (5, None), NextAdmit (Keys ''B'') \<mapsto> (5, None)]\<rparr>"

lemma delivers_self [simp]: "delivers (\<lambda>x. x)"
  by (simp add: delivers_def)

lemma demo_sales: "sales demo_db = [demo_sale ''A'', demo_sale ''B'']"
  by (simp add: demo_db_def empty_db_def)

lemma demo_sale_simps [simp]:
  "s_id (demo_sale s) = s" "s_admit_per_minute (demo_sale s) = 60" "s_phase (demo_sale s) = General_sale"
  "s_ends_at (demo_sale s) = 10 ^ 15"
  by (simp_all add: demo_sale_def)

lemma demo_admits [simp]: "admits (calm_env 50 u) (demo_sale s)"
  by (simp add: admits_def)

lemma demo_tick_fst [simp]: "fst demo_tick = calm_env 50 ''w''"
  by (simp add: demo_tick_def)

lemma demo_windows: "windows_persist (redis demo_world)"
  by (simp add: windows_persist_def persistent_def demo_world_def)

lemma demo_run: "worker_run mem_redis (\<lambda>x. x) (\<lambda>x. x) [demo_tick] demo_world = demo_ticked"
  by (simp add: worker_tick_def runAdmission_def query_rows_def AdvanceAdmission_def batch_size_eq demo_tick_def
      admits_def demo_sales ReleaseExpired_def redis_eval demo_world_def demo_ticked_def)
    (simp add: demo_db_def empty_db_def)

theorem minute_of_ticks_witness:
  "next_admit (redis (worker_run mem_redis (\<lambda>x. x) (\<lambda>x. x) (replicate 12 demo_tick) demo_world)) ''A'' \<le> 60"
  using minute_of_ticks[where R=mem_redis and alpha="\<lambda>m. m" and pick="\<lambda>x. x" and pick'="\<lambda>x. x" and w=demo_world
      and ess="replicate 12 demo_tick" and r="demo_sale ''A''"] mem.redis_reliable_axioms demo_windows
  by (simp add: Let_def demo_world_def demo_sales next_admit_def counter_def demo_sales)

theorem worker_admits_everyone_witness:
  "\<exists>st. fst (Status mem_redis demo_issue (calm_env 300 ''j'') ''A'' ''u1''
       (worker_run mem_redis (\<lambda>x. x) (\<lambda>x. x) [demo_tick] demo_joined)) = Inr st \<and> Admitted st \<and> Position st = 1"
proof -
  have "windows_persist (redis demo_joined)" "0 \<le> next_admit (redis demo_joined) ''A''"
    by (simp_all add: windows_persist_def persistent_def next_admit_def counter_def demo_joined_def)
  moreover have "number_of ''A'' ''u1'' (dbs demo_joined) = Some 1"
    by (simp add: number_of_def demo_joined_def demo_row_def)
  moreover have "sales (dbs demo_joined) = [demo_sale ''A'', demo_sale ''B'']"
    by (simp add: demo_joined_def demo_world_def demo_sales)
  ultimately show ?thesis
    using worker_admits_everyone[where R=mem_redis and alpha="\<lambda>m. m" and pick="\<lambda>x. x" and pick'="\<lambda>x. x" and w=demo_joined
        and ess="[demo_tick]" and r="demo_sale ''A''" and u="''u1''" and p=1 and e="calm_env 300 ''j''" and issue=demo_issue
        and tok="''u1Aj''"] mem.redis_reliable_axioms
    by (auto simp: demo_issue_def demo_sales)
qed

theorem early_ticks_admit_later_joins_witness:
  "\<exists>w' st. Join mem_redis (calm_env 200 ''q'') ''A'' ''u1'' demo_ticked = (Inr (1, True), w')
     \<and> fst (Status mem_redis demo_issue (calm_env 200 ''j'') ''A'' ''u1'' w') = Inr st \<and> Admitted st"
proof -
  obtain w' where j: "Join mem_redis (calm_env 200 ''q'') ''A'' ''u1'' demo_ticked = (Inr (1, True), w')"
    and s: "is_ok (fst (Status mem_redis demo_issue (calm_env 200 ''j'') ''A'' ''u1'' w'))"
    by (simp add: wr_eval redis_eval demo_defs demo_ticked_def Status_def demo_issue_def)
  obtain st w'' where st: "Status mem_redis demo_issue (calm_env 200 ''j'') ''A'' ''u1'' w' = (Inr st, w'')"
    using s by (cases "Status mem_redis demo_issue (calm_env 200 ''j'') ''A'' ''u1'' w'") (auto simp: is_ok_def split: sum.splits)
  have "0 \<le> next_admit (redis demo_world) ''A''" "dbs demo_world = demo_db"
    by (simp_all add: next_admit_def counter_def demo_world_def)
  then have "Admitted st"
    using early_ticks_admit_later_joins[where R=mem_redis and alpha="\<lambda>m. m" and pick="\<lambda>x. x" and pick'="\<lambda>x. x" and w=demo_world
        and ess="[demo_tick]" and r="demo_sale ''A''" and e="calm_env 200 ''q''" and u="''u1''" and p=1 and w'=w'
        and e'="calm_env 200 ''j''" and issue=demo_issue and st=st and w''=w''] mem.redis_reliable_axioms demo_windows j st
    by (simp add: demo_run[simplified] demo_sales)
  with j st show ?thesis by (intro exI[of _ w'] exI[of _ st]) simp
qed

end
