(* ===== verification/System.thy ===== *)
theory System
  imports Httpapi Worker
begin

text \<open>
  The running system: the API server and the worker on one database and one Redis server. An event
  is a request or a tick of the worker; a run is a sequence of them, each atomic (theory
  \<open>Join_Race\<close> takes the joins apart). This theory shows what holds in every state a run reaches and
  what the routes let through.
\<close>

section \<open>Events\<close>

datatype event =
    Ev_Http "nat \<Rightarrow> env" route request
  | Ev_Tick "env \<times> env"

fun system_exec ::
  "'r deps \<Rightarrow> (sale_row list \<Rightarrow> sale_row list) \<Rightarrow> (hold_row list \<Rightarrow> hold_row list) \<Rightarrow> event \<Rightarrow> 'r world \<Rightarrow> 'r world" where
  "system_exec D pick pick' (Ev_Http es rt rq) w = snd (serve D es rt rq w)"
| "system_exec D pick pick' (Ev_Tick es) w = worker_tick (dp_redis D) pick pick' es w"

definition system_inv :: "keyspace \<Rightarrow> db \<Rightarrow> bool" where
  "system_inv m d \<longleftrightarrow> queue_inv m d \<and> stock_inv d \<and> orders d = [] \<and> tickets d = []"

section \<open>What each operation leaves alone\<close>

lemma stock_inv_cong:
  "seats d' = seats d \<Longrightarrow> holds d' = holds d \<Longrightarrow> tickets d' = tickets d \<Longrightarrow> stock_inv d' = stock_inv d"
  by (simp add: stock_inv_def reserved_def seat_at_def)

lemma system_inv_cong:
  assumes "\<And>s. m' (QueueSeq (Keys s)) = m (QueueSeq (Keys s))"
    and "queue_entries d' = queue_entries d" and "stock_inv d'" and "orders d' = orders d" and "tickets d' = tickets d"
    and "system_inv m d"
  shows "system_inv m' d'"
  using assms queue_inv_cong[of m' m d' d] by (simp add: system_inv_def)

lemma queue_inv_columns:
  assumes "map (\<lambda>q. (q_id q, q_sale_id q, q_user_id q, q_position q, q_joined_at q)) (queue_entries d')
    = map (\<lambda>q. (q_id q, q_sale_id q, q_user_id q, q_position q, q_joined_at q)) (queue_entries d)"
  shows "queue_inv m d' = queue_inv m d"
proof -
  have f: "map (\<lambda>q. f (q_sale_id q) (q_user_id q) (q_position q)) (queue_entries d')
      = map (\<lambda>q. f (q_sale_id q) (q_user_id q) (q_position q)) (queue_entries d)" for f :: "string \<Rightarrow> string \<Rightarrow> int \<Rightarrow> 'a"
    using arg_cong[OF assms, of "map (\<lambda>(i, s, u, p, j). f s u p)"] by (simp add: comp_def)
  have "(\<forall>q\<in>set (queue_entries d'). 1 \<le> q_position q \<and> q_position q \<le> queue_seq m (q_sale_id q))
      \<longleftrightarrow> (\<forall>q\<in>set (queue_entries d). 1 \<le> q_position q \<and> q_position q \<le> queue_seq m (q_sale_id q))"
    using arg_cong[OF f[of "\<lambda>s u p. 1 \<le> p \<and> p \<le> queue_seq m s"], of "\<lambda>xs. False \<notin> set xs"] by (auto simp: image_iff)
  then show ?thesis
    using f[of "\<lambda>s u p. (s, u)"] f[of "\<lambda>s u p. (s, p)"] by (simp add: queue_inv_def queue_unique_def)
qed

lemma exec_stmt_same:
  "exec_stmt flt stmt d = (r, d') \<Longrightarrow> (\<And>d1 n. stmt d = Inr (d1, n) \<Longrightarrow> f d1 = f d) \<Longrightarrow> f d' = f d"
  by (auto dest!: exec_stmt_effect)

text \<open>The parts of the database that the invariant speaks of, apart from the queue.\<close>

definition shop :: "db \<Rightarrow> seat_row list \<times> hold_row list \<times> order_row list \<times> ticket_row list" where
  "shop d = (seats d, holds d, orders d, tickets d)"

lemma shop_stock: "shop d' = shop d \<Longrightarrow> stock_inv d' = stock_inv d"
  using stock_inv_cong[of d' d] by (simp add: shop_def)

lemma Join_shop: "Join R e s u w = (r, w') \<Longrightarrow> shop (dbs w') = shop (dbs w)"
  by (auto elim!: Join_cases join_insert_cases dest!: insert_queue_entry_Inr(1) simp: shop_def)

lemma Status_shop: "Status R issue e s u w = (r, w') \<Longrightarrow> shop (dbs w') = shop (dbs w)"
  by (auto elim!: Status_cases simp: mark_admitted_queue shop_def)

lemma Hold_rest:
  assumes "Hold cfg e s u idem ids d = (r, d')"
  shows "queue_entries d' = queue_entries d \<and> orders d' = orders d \<and> tickets d' = tickets d"
  using assms by (rule Hold_cases) (auto dest: hold_tx_ok(1))

lemma insert_seat_rest:
  "insert_seat_or_nothing r d = Inr (d', n) \<Longrightarrow>
     queue_entries d' = queue_entries d \<and> orders d' = orders d \<and> tickets d' = tickets d \<and> sales d' = sales d"
  by (auto simp: insert_seat_or_nothing_def split: if_splits)

lemma create_cols_rest:
  "create_cols e s m r ns k d = (x, d') \<Longrightarrow>
     queue_entries d' = queue_entries d \<and> orders d' = orders d \<and> tickets d' = tickets d \<and> sales d' = sales d"
proof (induction ns arbitrary: k d)
  case (Cons n ns)
  obtain y d1 where i: "exec_stmt (sql_fault e k) (insert_seat_or_nothing (new_seat (new_uuid e k) s r n)) d = (y, d1)"
    by fastforce
  have "queue_entries d1 = queue_entries d \<and> orders d1 = orders d \<and> tickets d1 = tickets d \<and> sales d1 = sales d"
    using exec_stmt_effect[OF i] by (auto dest: insert_seat_rest)
  with Cons i show ?case by (fastforce split: if_splits sum.splits)
qed simp

lemma create_rows_rest:
  "create_rows e s m rs k d = (x, d') \<Longrightarrow>
     queue_entries d' = queue_entries d \<and> orders d' = orders d \<and> tickets d' = tickets d \<and> sales d' = sales d"
proof (induction rs arbitrary: k d)
  case (Cons r rs)
  obtain y d1 where c: "create_cols e s m r [1..50] k d = (y, d1)" by fastforce
  with Cons create_cols_rest[OF c] show ?case by (fastforce split: sum.splits)
qed simp

lemma CreateSeats_rest:
  "queue_entries (snd (CreateSeats e s m d)) = queue_entries d \<and> orders (snd (CreateSeats e s m d)) = orders d
     \<and> tickets (snd (CreateSeats e s m d)) = tickets d \<and> sales (snd (CreateSeats e s m d)) = sales d"
  unfolding CreateSeats_def by (rule create_rows_rest[OF prod.collapse[symmetric]])

lemma Checkout_redis [simp]: "redis (snd (Checkout e s u idem hid w)) = redis w"
  by (simp add: Checkout_def Let_def split: sum.splits prod.splits)

text \<open>The keys of the limiter and of consumed admissions are no sale's counters.\<close>

lemma consumed_not_sale: "AdmissionUsedKey s j @ x \<noteq> QueueSeq (Keys a)"
  by (simp add: AdmissionUsedKey_def Keys_def Let_def)

context redis_server begin

lemma Allow_seq: "Allow R t kind i limit w rd = (r, rd') \<Longrightarrow> alpha rd' (QueueSeq (Keys s)) = alpha rd (QueueSeq (Keys s))"
  using Allow_frame key_not_sale(1) by metis

lemma AllowJoin_seq:
  "AllowJoin R t u ip rd = (r, rd') \<Longrightarrow> alpha rd' (QueueSeq (Keys s)) = alpha rd (QueueSeq (Keys s))"
  by (auto simp: AllowJoin_def dest!: Allow_seq[where s=s] split: prod.splits sum.splits if_splits)

lemma AllowCheckout_seq:
  "AllowCheckout R t u ip rd = (r, rd') \<Longrightarrow> alpha rd' (QueueSeq (Keys s)) = alpha rd (QueueSeq (Keys s))"
  by (auto simp: AllowCheckout_def dest!: Allow_seq[where s=s] split: prod.splits sum.splits if_splits)

lemma ConsumeAdmission_seq:
  assumes "ConsumeAdmission R t a j ttl rd = (r, rd')"
  shows "alpha rd' (QueueSeq (Keys s)) = alpha rd (QueueSeq (Keys s))"
proof -
  let ?k = "AdmissionUsedKey a j @ '':consumed''"
  have x: "r_setnx R t ?k 1 ttl rd = (r, rd')" using assms by (simp add: ConsumeAdmission_def)
  have "QueueSeq (Keys s) \<noteq> ?k" using consumed_not_sale by metis
  then show ?thesis
    using spec_setnx_other[of "QueueSeq (Keys s)" ?k t 1 ttl "alpha rd"] setnx_law[of t ?k 1 ttl rd _ rd']
      setnx_err[of t ?k 1 ttl rd _ rd'] x
    by (cases r) (auto simp del: spec_setnx_other)
qed

lemma admit_loop_seq:
  "alpha (redis (admit_loop R e rows w)) (QueueSeq (Keys s)) = alpha (redis w) (QueueSeq (Keys s))"
proof (induction rows arbitrary: w)
  case (Cons r rows)
  have "alpha (redis (snd (AdvanceAdmission R e a n w))) (QueueSeq (Keys s)) = alpha (redis w) (QueueSeq (Keys s))" for a n
    by (auto simp: AdvanceAdmission_def dest!: incrby_frame[where k'="QueueSeq (Keys s)"] split: prod.splits sum.splits)
  with Cons show ?case by simp
qed simp

end

section \<open>The invariant of the system\<close>

context redis_server begin

lemma worker_tick_inv:
  assumes "system_inv (alpha (redis w)) (dbs w)" and "delivers pick'"
  shows "system_inv (alpha (redis (worker_tick R pick pick' es w))) (dbs (worker_tick R pick pick' es w))"
proof (rule system_inv_cong[OF _ _ _ _ _ assms(1)])
  show "alpha (redis (worker_tick R pick pick' es w)) (QueueSeq (Keys s)) = alpha (redis w) (QueueSeq (Keys s))" for s
    by (simp add: worker_tick_redis runAdmission_def admit_loop_seq split: sum.splits)
  show "stock_inv (dbs (worker_tick R pick pick' es w))"
    using assms by (simp add: worker_tick_db ReleaseExpired_stock system_inv_def)
qed (simp_all add: worker_tick_db)

text \<open>A change of the database outside queue and shop, and of keys that are no counters.\<close>

lemma system_inv_frame:
  assumes "system_inv (alpha rd) d" and "\<And>s. alpha rd' (QueueSeq (Keys s)) = alpha rd (QueueSeq (Keys s))"
    and "queue_entries d' = queue_entries d" and "shop d' = shop d"
  shows "system_inv (alpha rd') d'"
  using assms shop_stock[OF assms(4)]
  by (intro system_inv_cong[OF assms(2,3) _ _ _ assms(1)]) (auto simp: system_inv_def shop_def)

lemma queueJoin_inv:
  assumes "system_inv (alpha (redis w)) (dbs w)" and "R = dp_redis D"
  shows "system_inv (alpha (redis (snd (queueJoin D e rq s u w)))) (dbs (snd (queueJoin D e rq s u w)))"
proof -
  obtain res rd where a: "AllowJoin R (redis_now e) u (clientIP rq) (redis w) = (res, rd)" by fastforce
  let ?w1 = "w\<lparr>redis := rd\<rparr>"
  have 1: "system_inv (alpha rd) (dbs w)"
    using system_inv_frame[OF assms(1) AllowJoin_seq[OF a] refl refl] .
  obtain r w' where j: "Join R e s u ?w1 = (r, w')" by fastforce
  have "system_inv (alpha (redis w')) (dbs w')"
    using 1 Join_inv[OF j] Join_shop[OF j] shop_stock[of "dbs w'" "dbs w"]
    by (auto simp: system_inv_def shop_def)
  with 1 a j show ?thesis
    by (auto simp: queueJoin_def assms(2)[symmetric] split: sum.splits prod.splits)
qed

lemma Status_inv:
  assumes "Status R issue e s u w = (r, w')" and "system_inv (alpha (redis w)) (dbs w)"
  shows "system_inv (alpha (redis w')) (dbs w')"
  using assms(2) queue_inv_columns[OF Status_columns(1)[OF assms(1)]] Status_columns(2)[OF assms(1)]
    Status_shop[OF assms(1)] shop_stock[OF Status_shop[OF assms(1)]]
  by (simp add: system_inv_def shop_def)

lemma stream_loop_inv:
  "R = dp_redis D \<Longrightarrow> stream_loop D es s u i n w = (sts, w') \<Longrightarrow> system_inv (alpha (redis w)) (dbs w) \<Longrightarrow>
     system_inv (alpha (redis w')) (dbs w')"
proof (induction n arbitrary: i w sts)
  case (Suc n)
  obtain r w1 where x: "Status R (issue_admission D (es i)) (es i) s u w = (r, w1)" by fastforce
  from Status_inv[OF this Suc.prems(3)] Suc.IH[OF Suc.prems(1), of "Suc i" w1] Suc.prems x show ?case
    by (auto split: sum.splits if_splits prod.splits)
qed simp

lemma checkout_inv:
  assumes "system_inv (alpha (redis w)) (dbs w)" and "R = dp_redis D"
  shows "system_inv (alpha (redis (snd (checkout D e rq s u j w)))) (dbs (snd (checkout D e rq s u j w)))"
proof -
  obtain res rd where c: "ConsumeAdmission R (redis_now e) s j (AdmissionTTL (dp_cfg D) * 2) (redis w) = (res, rd)" by fastforce
  obtain res' rd' where a: "AllowCheckout R (redis_now e) u (clientIP rq) rd = (res', rd')" by fastforce
  have 1: "system_inv (alpha rd) (dbs w)"
    using system_inv_frame[OF assms(1) ConsumeAdmission_seq[OF c] refl refl] .
  have 2: "system_inv (alpha rd') (dbs w)"
    using system_inv_frame[OF 1 AllowCheckout_seq[OF a] refl refl] .
  let ?req = "fst (decode_checkout (rq_body rq))"
  let ?k = "if kr_IdempotencyKey ?req = [] then ''default'' else kr_IdempotencyKey ?req"
  obtain r w' where x: "Checkout e s u ?k (kr_HoldID ?req) (w\<lparr>redis := rd'\<rparr>) = (r, w')" by fastforce
  have "redis w' = rd'" "dbs w' = dbs w"
    using arg_cong[OF x, of "redis \<circ> snd"] arg_cong[OF x, of "dbs \<circ> snd"] by simp_all
  with 1 2 show ?thesis
    unfolding checkout_def assms(2)[symmetric] c prod.case a Let_def x
    by (cases "res = Inr True"; cases "res' = Inr True"; cases r) simp_all
qed

lemma createHold_inv:
  assumes "system_inv (alpha (redis w)) (dbs w)"
  shows "system_inv (alpha (redis (snd (createHold D e rq s u w)))) (dbs (snd (createHold D e rq s u w)))"
proof -
  obtain req ok where b: "decode_hold (rq_body rq) = (req, ok)" by fastforce
  let ?k = "if hr_IdempotencyKey req = [] then ''default'' else hr_IdempotencyKey req"
  obtain r d' where h: "Hold (dp_cfg D) e s u ?k (hr_SeatIDs req) (dbs w) = (r, d')" by fastforce
  have "stock_inv d'" using Hold_stock[OF h] assms by (simp add: system_inv_def)
  then have "system_inv (alpha (redis w)) d'"
    using system_inv_cong[OF refl _ _ _ _ assms] Hold_rest[OF h] by simp
  with assms b h show ?thesis
    unfolding createHold_def Let_def b prod.case h by (cases ok; cases r) simp_all
qed

lemma createSale_inv:
  assumes "system_inv (alpha (redis w)) (dbs w)"
  shows "system_inv (alpha (redis (snd (createSale D e rq w)))) (dbs (snd (createSale D e rq w)))"
proof -
  let ?row = "new_sale e (fst (decode_sale (rq_body rq)))"
  obtain r d where i: "exec_stmt (sql_fault e 0) (insert_sale ?row) (dbs w) = (r, d)" by fastforce
  have "queue_entries d = queue_entries (dbs w) \<and> shop d = shop (dbs w)"
    using exec_stmt_effect[OF i] by (auto simp: insert_sale_def shop_def split: if_splits)
  then have 1: "system_inv (alpha (redis w)) d" using system_inv_frame[OF assms refl] by simp
  have "system_inv (alpha (redis w)) (snd (CreateSeats e' a n d))" for e' a n
    using 1 CreateSeats_rest[of e' a n d] CreateSeats_stock[OF prod.collapse[symmetric]]
    by (intro system_inv_cong[OF refl _ _ _ _ 1]) (auto simp: system_inv_def)
  with 1 i show ?thesis by (auto simp: createSale_def Let_def split: sum.splits prod.splits)
qed

lemma accounts_inv:
  assumes "system_inv (alpha (redis w)) (dbs w)"
  shows "system_inv (alpha (redis (snd (register D e rq w)))) (dbs (snd (register D e rq w)))"
    and "system_inv (alpha (redis (snd (login D e rq w)))) (dbs (snd (login D e rq w)))"
    and "system_inv (alpha (redis (snd (createEvent D e rq w)))) (dbs (snd (createEvent D e rq w)))"
proof -
  have "queue_entries d = queue_entries (dbs w) \<and> shop d = shop (dbs w)"
    if "exec_stmt flt (insert_user row) (dbs w) = (r, d)" for flt row r d
    using exec_stmt_effect[OF that] by (auto simp: insert_user_def shop_def split: if_splits)
  then have u: "system_inv (alpha (redis w)) d" if "exec_stmt flt (insert_user row) (dbs w) = (r, d)" for flt row r d
    using system_inv_frame[OF assms refl] that by blast
  have "queue_entries d = queue_entries (dbs w) \<and> shop d = shop (dbs w)"
    if "exec_stmt flt (insert_event row) (dbs w) = (r, d)" for flt row r d
    using exec_stmt_effect[OF that] by (auto simp: insert_event_def shop_def split: if_splits)
  then have ev: "system_inv (alpha (redis w)) d" if "exec_stmt flt (insert_event row) (dbs w) = (r, d)" for flt row r d
    using system_inv_frame[OF assms refl] that by blast
  show "system_inv (alpha (redis (snd (register D e rq w)))) (dbs (snd (register D e rq w)))"
    using assms u by (auto simp: register_def Let_def split: sum.splits prod.splits)
  show "system_inv (alpha (redis (snd (login D e rq w)))) (dbs (snd (login D e rq w)))"
    using assms by (auto simp: login_def Let_def split: sum.splits prod.splits)
  show "system_inv (alpha (redis (snd (createEvent D e rq w)))) (dbs (snd (createEvent D e rq w)))"
    using assms ev by (auto simp: createEvent_def Let_def split: sum.splits prod.splits)
qed

lemma queueStatus_inv:
  assumes "system_inv (alpha (redis w)) (dbs w)" and "R = dp_redis D"
  shows "system_inv (alpha (redis (snd (queueStatus D e s u w)))) (dbs (snd (queueStatus D e s u w)))"
proof -
  obtain r w' where x: "Status R (issue_admission D e) e s u w = (r, w')" by fastforce
  with Status_inv[OF x assms(1)] show ?thesis
    by (auto simp: queueStatus_def assms(2)[symmetric] split: sum.splits)
qed

lemma queueStream_inv:
  assumes "system_inv (alpha (redis w)) (dbs w)" and "R = dp_redis D"
  shows "system_inv (alpha (redis (snd (queueStream D es rq s u w)))) (dbs (snd (queueStream D es rq s u w)))"
proof -
  obtain sts w' where x: "stream_loop D es s u 0 5 w = (sts, w')" by fastforce
  with stream_loop_inv[OF assms(2) x assms(1)] assms(1) show ?thesis by (simp add: queueStream_def)
qed

lemma guarded_inv:
  assumes "system_inv (alpha (redis w)) (dbs w)"
    and "\<And>u. system_inv (alpha (redis (snd (next1 u)))) (dbs (snd (next1 u)))"
    and "\<And>u j. system_inv (alpha (redis (snd (next2 u j)))) (dbs (snd (next2 u j)))"
    and "system_inv (alpha (redis (snd next3))) (dbs (snd next3))"
  shows "system_inv (alpha (redis (snd (with_user D e rq next1 w)))) (dbs (snd (with_user D e rq next1 w)))"
    and "system_inv (alpha (redis (snd (with_admission D e rq next2 w)))) (dbs (snd (with_admission D e rq next2 w)))"
    and "system_inv (alpha (redis (snd (with_admin D rq next3 w)))) (dbs (snd (with_admin D rq next3 w)))"
  using assms by (auto simp: with_user_def with_admission_def with_admin_def split: sum.splits option.splits)

lemma serve_inv:
  assumes inv: "system_inv (alpha (redis w)) (dbs w)" and R: "R = dp_redis D"
  shows "system_inv (alpha (redis (snd (serve D es rt rq w)))) (dbs (snd (serve D es rt rq w)))"
proof (cases rt)
  case (Rt_Seats s)
  have "snd (listSeats D (es 0) s w) = w" by (simp add: listSeats_def)
  with Rt_Seats inv show ?thesis by (simp add: with_admission_def split: sum.splits)
next
  case (Rt_Order i)
  have "snd (getOrder (es 0) i u w) = w" for u by (simp add: getOrder_def)
  with Rt_Order inv show ?thesis by (simp add: with_user_def split: sum.splits)
next
  case (Rt_SaleStats s)
  with inv show ?thesis by (simp add: with_admin_def saleStats_def split: option.splits)
next
  case (Rt_QueueEntries s)
  with inv show ?thesis by (simp add: with_admin_def queueEntries_def split: option.splits)
next
  case Rt_Ready
  with inv show ?thesis by (simp add: ready_def)
qed (use inv accounts_inv[OF inv] queueJoin_inv[OF inv R] queueStatus_inv[OF inv R] queueStream_inv[OF inv R]
      createHold_inv[OF inv] checkout_inv[OF inv R] createSale_inv[OF inv] in
      \<open>simp_all add: with_user_def with_admission_def with_admin_def split: sum.splits option.splits\<close>)

end

lemma system_keeper:
  fixes D :: "'r deps"
  assumes "redis_server (dp_redis D) alpha" and "delivers pick'"
  shows "keeper (system_exec D pick pick') (\<lambda>_ _. True) (\<lambda>w. system_inv (alpha (redis w)) (dbs w))"
proof
  fix w :: "'r world" and c assume "system_inv (alpha (redis w)) (dbs w)"
  then show "system_inv (alpha (redis (system_exec D pick pick' c w))) (dbs (system_exec D pick pick' c w))"
    by (cases c) (simp_all add: redis_server.serve_inv[OF assms(1)] redis_server.worker_tick_inv[OF assms(1) _ assms(2)])
qed

lemma valid_run_True [simp]: "valid_run f (\<lambda>_ _. True) cs s"
  by (induction cs arbitrary: s) simp_all

section \<open>Tokens on the routes\<close>

lemma login_token:
  assumes "jwt_signing (dp_jwt D)" and "login D e rq w = ((200, R_UserToken u tok), w1)"
  shows "IssueUserToken (dp_jwt D) (go_now e) (new_uuid e 0) (JWTSecret (dp_cfg D)) u day = Inr tok"
proof -
  have "is_ok (IssueUserToken (dp_jwt D) t j secret v ttl)" for t j secret v ttl
    using jwt_signing.sign_ok[OF assms(1)] by (simp add: IssueUserToken_def)
  then have s: "IssueUserToken (dp_jwt D) t j secret v ttl = Inr (scan_or [] (IssueUserToken (dp_jwt D) t j secret v ttl))" for t j secret v ttl
    by (cases "IssueUserToken (dp_jwt D) t j secret v ttl") (metis is_ok_simps(2), simp)
  have "tok = scan_or [] (IssueUserToken (dp_jwt D) (go_now e) (new_uuid e 0) (JWTSecret (dp_cfg D)) u day)"
    using assms(2) by (auto simp: login_def Let_def split: prod.splits sum.splits if_splits)
  with s show ?thesis by metis
qed

lemma serve_hold_admitted:
  assumes "AdmissionMiddleware (dp_jwt D) (go_now (es 0)) (JWTSecret (dp_cfg D)) (rq_Authorization rq)
    = Inr \<lparr>ctx_userID = u, ctx_saleID = a, ctx_jti = j\<rparr>"
  shows "serve D es (Rt_Hold s) rq w = createHold D (es 0) rq s u w"
  using assms by (simp add: with_admission_def UserIDFromContext_def)

text \<open>A checkout that gets past the admission leaves its mark.\<close>

definition mark_key :: "string \<Rightarrow> string \<Rightarrow> string" where
  "mark_key s j = AdmissionUsedKey s j @ '':consumed''"

lemma mark_key_not_limit: "mark_key s j \<noteq> key kind i"
  by (simp add: mark_key_def AdmissionUsedKey_def key_def)

context redis_server begin

lemma AllowCheckout_mark:
  "AllowCheckout R t u ip rd = (r, rd') \<Longrightarrow> alpha rd' (mark_key s j) = alpha rd (mark_key s j)"
  by (auto simp: AllowCheckout_def dest!: Allow_frame[OF _ mark_key_not_limit, where s1=s and j1=j]
      split: prod.splits sum.splits if_splits)

lemma checkout_marks:
  assumes "R = dp_redis D" and "checkout D e rq s u j w = ((c, r), w')" and "0 < AdmissionTTL (dp_cfg D)"
    and "\<And>msg. r \<noteq> R_Error ''admission_used'' msg"
  shows "alpha (redis w') (mark_key s j) = Some (1, Some (redis_now e + AdmissionTTL (dp_cfg D) * 2))"
proof -
  obtain res rd where x: "ConsumeAdmission R (redis_now e) s j (AdmissionTTL (dp_cfg D) * 2) (redis w) = (res, rd)" by fastforce
  obtain res' rd' where a: "AllowCheckout R (redis_now e) u (clientIP rq) rd = (res', rd')" by fastforce
  have res: "res = Inr True"
    using assms(2,4) x by (auto simp: checkout_def assms(1)[symmetric] split: if_splits)
  have "alpha rd (mark_key s j) = Some (1, Some (redis_now e + AdmissionTTL (dp_cfg D) * 2))"
    using setnx_law[OF x[unfolded ConsumeAdmission_def res]] assms(3)
    by (auto simp: spec_setnx_def mark_key_def split: option.splits dest: fun_cong[of _ _ "mark_key s j"])
  then have m: "alpha rd' (mark_key s j) = Some (1, Some (redis_now e + AdmissionTTL (dp_cfg D) * 2))"
    using AllowCheckout_mark[OF a] by simp
  let ?req = "fst (decode_checkout (rq_body rq))"
  let ?k = "if kr_IdempotencyKey ?req = [] then ''default'' else kr_IdempotencyKey ?req"
  obtain q w2 where y: "Checkout e s u ?k (kr_HoldID ?req) (w\<lparr>redis := rd'\<rparr>) = (q, w2)" by fastforce
  have "redis w2 = rd'" using arg_cong[OF y, of "redis \<circ> snd"] by simp
  then have "redis w' = rd'"
    using assms(2) unfolding checkout_def assms(1)[symmetric] x prod.case a Let_def y res
    by (cases "res' = Inr True"; cases q) auto
  with m show ?thesis by simp
qed

lemma checkout_refused:
  assumes "R = dp_redis D" and "alpha (redis w) (mark_key s j) = Some (v, Some x)" and "redis_now e < x"
  shows "fst (fst (checkout D e rq s u j w)) = 403 \<and> dbs (snd (checkout D e rq s u j w)) = dbs w"
proof -
  obtain res rd where c: "ConsumeAdmission R (redis_now e) s j (AdmissionTTL (dp_cfg D) * 2) (redis w) = (res, rd)" by fastforce
  have "live (redis_now e) (alpha (redis w)) (mark_key s j) = Some v" using assms(2,3) by (simp add: live_def)
  then have "res \<noteq> Inr True"
    using setnx_law[of "redis_now e" "mark_key s j" 1 "AdmissionTTL (dp_cfg D) * 2" "redis w" True rd] c
    by (auto simp: ConsumeAdmission_def mark_key_def spec_setnx_def)
  with c show ?thesis by (simp add: checkout_def assms(1)[symmetric])
qed

end

lemma no_seat_sold: "system_inv m d \<Longrightarrow> \<forall>x\<in>set (seats d). st_status x \<noteq> Sold"
  using sold_ticket[OF _ seat_at_row] by (fastforce simp: system_inv_def stock_inv_def)

section \<open>Properties\<close>

text \<open>
  \<^bold>\<open>The running system never sells a ticket.\<close> From a consistent state without orders, through any
  sequence of requests and worker ticks, with whatever faults of the database and Redis: no order and
  no ticket is ever stored, no seat is ever sold, and the queue and the stock stay consistent.
\<close>

theorem system_never_sells:
  assumes "redis_server (dp_redis D) alpha" and "delivers pick'" and "system_inv (alpha (redis w)) (dbs w)"
  shows "let w' = run_calls (system_exec D pick pick') evs w in
    orders (dbs w') = [] \<and> tickets (dbs w') = [] \<and> (\<forall>r\<in>set (seats (dbs w')). st_status r \<noteq> Sold)
    \<and> queue_inv (alpha (redis w')) (dbs w') \<and> stock_inv (dbs w')"
proof -
  let ?w' = "run_calls (system_exec D pick pick') evs w"
  have i: "system_inv (alpha (redis ?w')) (dbs ?w')"
    using keeper.run_keeps[OF system_keeper[OF assms(1,2)], where s=w and cs=evs] assms(3) by simp
  with no_seat_sold[OF i] show ?thesis by (simp add: system_inv_def Let_def)
qed

text \<open>
  \<^bold>\<open>Seats, holds and checkouts need an admission.\<close> A request to one of these routes whose
  \<open>Authorization\<close> is not \<open>Admission\<close> followed by a token the parser accepts is answered 403 and
  changes nothing.
\<close>

theorem admission_required:
  assumes "\<forall>tok. rq_Authorization rq = ''Admission '' @ tok \<longrightarrow>
      (\<exists>er. ParseAdmissionToken (dp_jwt D) (go_now (es 0)) (JWTSecret (dp_cfg D)) tok = Inl er)"
    and "rt \<in> {Rt_Seats s, Rt_Hold s, Rt_Checkout s}"
  shows "\<exists>msg. serve D es rt rq w = ((403, R_Plain msg), w)"
proof -
  have "\<exists>msg. AdmissionMiddleware (dp_jwt D) (go_now (es 0)) (JWTSecret (dp_cfg D)) (rq_Authorization rq) = Inl (403, msg)"
    using assms(1) by (auto simp: AdmissionMiddleware_def prefix_def split: sum.splits)
  with assms(2) show ?thesis by (auto simp: with_admission_def)
qed



text \<open>
  \<^bold>\<open>One checkout for one token.\<close> Once a checkout request has got past the admission (whatever it
  was answered then), every further checkout on the sale with the same token, within twice the
  admission's lifetime and while the mark in Redis is kept, is answered 403 and leaves the database
  as it is.
\<close>

theorem checkout_token_once:
  assumes "redis_server (dp_redis D) alpha" and "0 < AdmissionTTL (dp_cfg D)"
    and "serve D es (Rt_Checkout s) rq w = ((c, r), wa)"
    and "\<forall>msg. r \<noteq> R_Plain msg \<and> r \<noteq> R_Error ''admission_used'' msg"
    and "\<forall>j. alpha (redis wb) (AdmissionUsedKey s j @ '':consumed'') = alpha (redis wa) (AdmissionUsedKey s j @ '':consumed'')"
    and "rq_Authorization rq' = rq_Authorization rq"
    and "redis_now (es' 0) < redis_now (es 0) + AdmissionTTL (dp_cfg D) * 2"
    and "jwt_library (dp_jwt D)"
  shows "fst (fst (serve D es' (Rt_Checkout s) rq' wb)) = 403 \<and> dbs (snd (serve D es' (Rt_Checkout s) rq' wb)) = dbs wb"
proof -
  obtain ctx where m: "AdmissionMiddleware (dp_jwt D) (go_now (es 0)) (JWTSecret (dp_cfg D)) (rq_Authorization rq) = Inr ctx"
    and x: "checkout D (es 0) rq s (UserIDFromContext ctx) (ctx_jti ctx) w = ((c, r), wa)"
    using assms(3,4) by (auto simp: with_admission_def split: sum.splits)
  have "alpha (redis wa) (mark_key s (ctx_jti ctx)) = Some (1, Some (redis_now (es 0) + AdmissionTTL (dp_cfg D) * 2))"
    using redis_server.checkout_marks[OF assms(1) refl x assms(2)] assms(4) by blast
  then have k: "alpha (redis wb) (mark_key s (ctx_jti ctx)) = Some (1, Some (redis_now (es 0) + AdmissionTTL (dp_cfg D) * 2))"
    using assms(5) by (simp add: mark_key_def)
  have "AdmissionMiddleware (dp_jwt D) (go_now (es' 0)) (JWTSecret (dp_cfg D)) (rq_Authorization rq')
      \<in> {Inl (403, ''invalid admission''), Inr ctx}"
    using m unfolding assms(6) by (rule jwt_library.AdmissionMiddleware_later[OF assms(8)])
  with redis_server.checkout_refused[OF assms(1) refl k assms(7)] show ?thesis
    by (auto simp: with_admission_def)
qed

text \<open>
  \<^bold>\<open>Registering, then logging in.\<close> An account that registration has answered with 201 can log in
  with the same body as long as the users table is kept: the answer is 200 with the same user, and
  its token passes the user middleware with that user.
\<close>

theorem register_then_login:
  assumes "jwt_signing (dp_jwt D)" and "\<forall>salt pw h. dp_hash D salt pw = Inr h \<longrightarrow> dp_check D h pw"
    and "serve D es Rt_Register rq w = ((201, R_UserToken u tok), wa)"
    and "users (dbs wb) = users (dbs wa)" and "\<not> sql_fault (es' 0) 0" and "rq_body rq' = rq_body rq"
    and "now < numeric_date (go_now (es' 0) + day) * 10 ^ 9"
  shows "\<exists>tok'. serve D es' Rt_Login rq' wb = ((200, R_UserToken u tok'), wb)
    \<and> Middleware (dp_jwt D) now (JWTSecret (dp_cfg D)) (''Bearer '' @ tok')
        = Inr \<lparr>ctx_userID = u, ctx_saleID = [], ctx_jti = []\<rparr>"
proof -
  obtain req where b: "decode_credentials (rq_body rq) = (req, True)"
    using assms(3) by (cases "decode_credentials (rq_body rq)") (auto simp: register_def split: if_splits)
  obtain h d n where h: "dp_hash D (new_uuid (es 0) 2) (cr_Password req) = Inr h"
    and i: "insert_user (new_user (es 0) (cr_Email req) h) (dbs w) = Inr (d, n)"
    and u: "u = new_uuid (es 0) 0" and wa: "wa = w\<lparr>dbs := d\<rparr>"
    using assms(3) b by (auto simp: register_def exec_stmt_def Let_def split: sum.splits prod.splits if_splits)
  have "users d = users (dbs w) @ [new_user (es 0) (cr_Email req) h]"
    and "cr_Email req \<notin> u_email ` set (users (dbs w))"
    using i by (auto simp: insert_user_def new_user_def split: if_splits)
  moreover from this(2) have "find (\<lambda>x. u_email x = cr_Email req) (users (dbs w)) = None"
    unfolding find_None_iff by (metis image_eqI)
  ultimately have "find (\<lambda>x. u_email x = cr_Email req) (users (dbs wb)) = Some (new_user (es 0) (cr_Email req) h)"
    using assms(4) wa by (simp add: find_append new_user_def)
  moreover have "dp_check D h (cr_Password req)" using assms(2) h by blast
  ultimately have l: "serve D es' Rt_Login rq' wb = ((200, R_UserToken u (scan_or [] (IssueUserToken (dp_jwt D)
      (go_now (es' 0)) (new_uuid (es' 0) 0) (JWTSecret (dp_cfg D)) u day))), wb)"
    using b assms(5,6) u by (simp add: login_def query_row_def new_user_def)
  then have "login D (es' 0) rq' wb = ((200, R_UserToken u (scan_or [] (IssueUserToken (dp_jwt D)
      (go_now (es' 0)) (new_uuid (es' 0) 0) (JWTSecret (dp_cfg D)) u day))), wb)" by simp
  note t = login_token[OF assms(1) this]
  have "ParseUserToken (dp_jwt D) now (JWTSecret (dp_cfg D)) (scan_or [] (IssueUserToken (dp_jwt D)
      (go_now (es' 0)) (new_uuid (es' 0) 0) (JWTSecret (dp_cfg D)) u day)) = Inr \<lparr>uid = u\<rparr>"
    using jwt_library.ParseUserToken_issued[OF jwt_signing.axioms(1)[OF assms(1)] t[unfolded IssueUserToken_def]
        jwt_library.expired_issued[OF jwt_signing.axioms(1)[OF assms(1)] assms(7)]]
    by (simp add: str_or_zero_def IssueUserToken_def)
  then have "Middleware (dp_jwt D) now (JWTSecret (dp_cfg D)) (''Bearer '' @ scan_or [] (IssueUserToken (dp_jwt D)
      (go_now (es' 0)) (new_uuid (es' 0) 0) (JWTSecret (dp_cfg D)) u day))
    = Inr \<lparr>ctx_userID = u, ctx_saleID = [], ctx_jti = []\<rparr>" by (simp add: Middleware_def)
  with l show ?thesis by blast
qed

section \<open>Concrete requests\<close>

definition demo_deps :: "keyspace deps" where
  "demo_deps = \<lparr>dp_cfg = demo_config, dp_jwt = mem_jwt, dp_redis = mem_redis,
     dp_hash = (\<lambda>salt pw. Inr (''h'' @ pw)), dp_check = (\<lambda>h pw. h = ''h'' @ pw),
     dp_collate = (\<lambda>_. 0)\<rparr>"

lemma demo_deps_simps [simp]:
  "dp_cfg demo_deps = demo_config" "dp_jwt demo_deps = mem_jwt" "dp_redis demo_deps = mem_redis"
  "dp_hash demo_deps salt pw = Inr (''h'' @ pw)" "dp_check demo_deps h pw \<longleftrightarrow> h = ''h'' @ pw"
  by (simp_all add: demo_deps_def)

lemma demo_admission_ttl [simp]: "AdmissionTTL demo_config = 60000000000"
  by (simp add: demo_config_def Load_def Let_def)

definition demo_request :: "string \<Rightarrow> body \<Rightarrow> request" where
  "demo_request auth b = \<lparr>rq_Authorization = auth, rq_XForwardedFor = [], rq_RemoteAddr = ''1.2.3.4:55'',
     rq_AdminKey = [], rq_DemoKey = [], rq_demo_key_param = [], rq_body = b, rq_flusher = True\<rparr>"

lemma demo_request_simps [simp]:
  "rq_Authorization (demo_request auth b) = auth" "rq_body (demo_request auth b) = b"
  by (simp_all add: demo_request_def)

definition demo_credentials :: "string \<Rightarrow> string \<Rightarrow> body" where
  "demo_credentials email pw = Some (J_Obj [(''email'', J_Str email), (''password'', J_Str pw)])"

definition demo_seats_body :: body where
  "demo_seats_body = Some (J_Obj [(''seat_ids'', J_Arr (map J_Str [''s1''])), (''idempotency_key'', J_Str ''k'')])"

lemma demo_createHold:
  "fst (createHold demo_deps (calm_env 5 ''h'') (demo_request auth demo_seats_body) ''A'' ''u1'' demo_world)
     = (200, R_Hold \<lparr>HoldID = ''h'', SeatIDs = [''s1''], ExpiresAt = 720000000005\<rparr>)"
  using demo_hold by (simp add: createHold_def demo_seats_body_def demo_world_def del: list.map)

lemma demo_system_inv: "system_inv (redis demo_world) (dbs demo_world)"
  using demo_queue_inv demo_stock by (simp add: system_inv_def demo_world_def) (simp add: demo_db_def empty_db_def)

theorem system_never_sells_witness:
  "orders (dbs (run_calls (system_exec demo_deps (\<lambda>x. x) (\<lambda>x. x))
     [Ev_Tick demo_tick, Ev_Http (\<lambda>_. calm_env 5 ''h'') (Rt_Checkout ''A'') (demo_request [] None)] demo_world)) = []"
  using system_never_sells[where D=demo_deps and alpha="\<lambda>m. m" and pick="\<lambda>x. x" and pick'="\<lambda>x. x" and w=demo_world
      and evs="[Ev_Tick demo_tick, Ev_Http (\<lambda>_. calm_env 5 ''h'') (Rt_Checkout ''A'') (demo_request [] None)]"]
    mem_redis_server demo_system_inv by (simp add: Let_def)

theorem admission_required_witness:
  "\<exists>msg. serve demo_deps (\<lambda>_. calm_env 5 ''h'') (Rt_Hold ''A'') (demo_request ''Bearer x'' demo_seats_body) demo_world
     = ((403, R_Plain msg), demo_world)"
  by (rule admission_required[where s="''A''"]) simp_all



definition demo_admitted :: request where
  "demo_admitted = demo_request (''Admission '' @ enc_token (JWTSecret demo_config)
     \<lparr>p_uid = Some ''u1'', p_sid = Some ''A'', p_jti = Some ''j'', p_exp = Some 60, p_iat = Some 0\<rparr>) None"

lemma demo_admitted_ok:
  "AdmissionMiddleware mem_jwt 5 (JWTSecret demo_config) (rq_Authorization demo_admitted)
     = Inr \<lparr>ctx_userID = ''u1'', ctx_saleID = ''A'', ctx_jti = ''j''\<rparr>"
  using tok.ParseAdmissionToken_issued[OF mem_jwt_sign, where now=5 and secret="JWTSecret demo_config"
      and p="\<lparr>p_uid = Some ''u1'', p_sid = Some ''A'', p_jti = Some ''j'', p_exp = Some 60, p_iat = Some 0\<rparr>"]
  by (simp add: demo_admitted_def AdmissionMiddleware_def expired_def str_or_zero_def)

lemma demo_allow: "rd (key kind i) = None \<Longrightarrow> 0 < win \<Longrightarrow>
    Allow mem_redis t kind i limit win rd = (Inr (1 \<le> limit), rd(key kind i \<mapsto> (1, Some (t + win))))"
  by (simp add: Allow_def redis_eval)

lemma demo_limit: "AllowCheckout mem_redis 5 ''u1'' ip [mark_key ''A'' ''j'' \<mapsto> v]
    = (Inr True, [mark_key ''A'' ''j'' \<mapsto> v, key ''ip_checkout'' ip \<mapsto> (1, Some 60000000005),
        key ''user_checkout'' ''u1'' \<mapsto> (1, Some 60000000005)])"
proof -
  have "key ''user_checkout'' ''u1'' \<noteq> key ''ip_checkout'' ip" by (simp add: key_def)
  then show ?thesis
    by (simp add: AllowCheckout_def demo_allow mark_key_not_limit mark_key_not_limit[symmetric])
qed

lemma demo_checkout:
  "fst (serve demo_deps (\<lambda>_. calm_env 5 ''o'') (Rt_Checkout ''A'') demo_admitted demo_world)
     = (400, R_ErrorOf ''bad_request'' ErrHoldNotFound)"
proof -
  have c: "ConsumeAdmission mem_redis 5 ''A'' ''j'' 120000000000 (\<lambda>_. None)
      = (Inr True, [mark_key ''A'' ''j'' \<mapsto> (1, Some 120000000005)])"
    by (simp add: ConsumeAdmission_def redis_eval mark_key_def)
  have d: "orders (dbs demo_world) = []" "holds (dbs demo_world) = []"
    by (simp_all add: demo_world_def demo_db_def empty_db_def)
  have k: "Checkout (calm_env 5 ''o'') ''A'' ''u1'' k hid (demo_world\<lparr>redis := rd\<rparr>)
      = (Inl ErrHoldNotFound, emit (Checkouts ''A'' ''rejected'') (demo_world\<lparr>redis := rd\<rparr>))" for k hid rd
    by (simp add: Checkout_def Let_def query_row_def d)
  have "redis demo_world = (\<lambda>_. None)" by (simp add: demo_world_def)
  then show ?thesis
    using demo_admitted_ok c k
    by (simp add: with_admission_def UserIDFromContext_def checkout_def demo_limit Let_def)
qed

theorem checkout_token_once_witness:
  "fst (fst (serve demo_deps (\<lambda>_. calm_env 9 ''p'') (Rt_Checkout ''A'') demo_admitted
      (snd (serve demo_deps (\<lambda>_. calm_env 5 ''o'') (Rt_Checkout ''A'') demo_admitted demo_world)))) = 403"
proof -
  let ?w1 = "snd (serve demo_deps (\<lambda>_. calm_env 5 ''o'') (Rt_Checkout ''A'') demo_admitted demo_world)"
  have s: "serve demo_deps (\<lambda>_. calm_env 5 ''o'') (Rt_Checkout ''A'') demo_admitted demo_world
      = ((400, R_ErrorOf ''bad_request'' ErrHoldNotFound), ?w1)"
    using demo_checkout by (metis prod.collapse)
  show ?thesis
    using checkout_token_once[where D=demo_deps and alpha="\<lambda>m. m" and wa="?w1" and wb="?w1" and rq'=demo_admitted
        and es'="\<lambda>_. calm_env 9 ''p''", OF _ _ s] mem_redis_server tok.jwt_library_axioms
    by (simp del: serve.simps)
qed

theorem register_then_login_witness:
  "\<exists>tok. fst (serve demo_deps (\<lambda>_. calm_env 9 ''l'') Rt_Login (demo_request [] (demo_credentials ''n@x'' ''pw''))
       (snd (serve demo_deps (\<lambda>_. calm_env 5 ''n'') Rt_Register (demo_request [] (demo_credentials ''n@x'' ''pw'')) demo_world)))
     = (200, R_UserToken ''n'' tok)"
proof -
  let ?rq = "demo_request [] (demo_credentials ''n@x'' ''pw'')"
  let ?w1 = "snd (serve demo_deps (\<lambda>_. calm_env 5 ''n'') Rt_Register ?rq demo_world)"
  have "\<exists>tok. fst (serve demo_deps (\<lambda>_. calm_env 5 ''n'') Rt_Register ?rq demo_world) = (201, R_UserToken ''n'' tok)"
    by (simp add: register_def demo_credentials_def exec_stmt_def insert_user_def new_user_def Let_def demo_defs)
  then obtain tok where s: "serve demo_deps (\<lambda>_. calm_env 5 ''n'') Rt_Register ?rq demo_world = ((201, R_UserToken ''n'' tok), ?w1)"
    by (metis prod.collapse)
  have "9 < numeric_date (go_now (calm_env 9 ''l'') + day) * 10 ^ 9" by (simp add: numeric_date_def)
  with register_then_login[where D=demo_deps and wa="?w1" and wb="?w1" and es'="\<lambda>_. calm_env 9 ''l''" and rq'="?rq" and now=9, OF _ _ s]
    tok.jwt_signing_axioms
  show ?thesis by (auto simp del: serve.simps)
qed

end
