(* ===== verification/Duration.thy ===== *)
theory Duration
  imports Clock
begin

text \<open>
  The part of Go's \<open>time\<close> that the program uses on durations: \<open>ParseDuration\<close> and \<open>Duration.String\<close>,
  with a duration as its number of nanoseconds. The fraction of a parsed number is computed exactly
  here and in 64-bit floating point there.
\<close>

section \<open>\<open>ParseDuration\<close>\<close>

definition micro_sign :: string where
  "micro_sign = [CHR 0xC2, CHR 0xB5]"

definition greek_mu :: string where
  "greek_mu = [CHR 0xCE, CHR 0xBC]"

definition unit_of :: "string \<Rightarrow> nat option" where
  "unit_of u =
     (if u = ''ns'' then Some 1
      else if u = ''us'' \<or> u = micro_sign @ ''s'' \<or> u = greek_mu @ ''s'' then Some (10 ^ 3)
      else if u = ''ms'' then Some (10 ^ 6)
      else if u = ''s'' then Some (10 ^ 9)
      else if u = ''m'' then Some (60 * 10 ^ 9)
      else if u = ''h'' then Some (3600 * 10 ^ 9)
      else None)"

text \<open>\<open>leadingInt\<close> and \<open>leadingFraction\<close>, on the digits that lead.\<close>

fun lead_int :: "nat \<Rightarrow> string \<Rightarrow> nat option" where
  "lead_int x [] = Some x"
| "lead_int x (c # cs) =
     (if 2 ^ 63 div 10 < x then None
      else let y = x * 10 + digit_val c in if 2 ^ 63 < y then None else lead_int y cs)"

fun lead_frac :: "nat \<Rightarrow> nat \<Rightarrow> bool \<Rightarrow> string \<Rightarrow> nat \<times> nat" where
  "lead_frac x scale overflow [] = (x, scale)"
| "lead_frac x scale overflow (c # cs) =
     (if overflow then lead_frac x scale True cs
      else if (2 ^ 63 - 1) div 10 < x then lead_frac x scale True cs
      else let y = x * 10 + digit_val c in
        if 2 ^ 63 < y then lead_frac x scale True cs else lead_frac y (scale * 10) False cs)"

text \<open>One round of the loop: a number with its unit, and the rest of the text.\<close>

definition dur_unit :: "nat \<Rightarrow> nat \<Rightarrow> nat \<Rightarrow> string \<Rightarrow> (nat \<times> string) option" where
  "dur_unit v f scale s =
     (let in_unit = (\<lambda>c. c \<noteq> CHR ''.'' \<and> \<not> is_digit c); u = takeWhile in_unit s; rest = dropWhile in_unit s in
      if u = [] then None
      else case unit_of u of None \<Rightarrow> None
        | Some ns \<Rightarrow>
            if 2 ^ 63 div ns < v then None
            else let w = v * ns + f * ns div scale
                 in if 2 ^ 63 < w then None else Some (w, rest))"

definition dur_item :: "string \<Rightarrow> (nat \<times> string) option" where
  "dur_item s =
     (let ds = takeWhile is_digit s; s1 = dropWhile is_digit s in
      if s = [] \<or> (hd s \<noteq> CHR ''.'' \<and> \<not> is_digit (hd s)) then None
      else case lead_int 0 ds of None \<Rightarrow> None
        | Some v \<Rightarrow>
          if s1 \<noteq> [] \<and> hd s1 = CHR ''.''
          then let fs = takeWhile is_digit (tl s1) in
            if ds = [] \<and> fs = [] then None
            else (case lead_frac 0 1 False fs of (f, scale) \<Rightarrow> dur_unit v f scale (dropWhile is_digit (tl s1)))
          else dur_unit v 0 1 s1)"

lemma dur_unit_shorter: "dur_unit v f scale s = Some (w, rest) \<Longrightarrow> length rest < length s"
proof -
  assume a: "dur_unit v f scale s = Some (w, rest)"
  let ?p = "\<lambda>c. c \<noteq> CHR ''.'' \<and> \<not> is_digit c"
  have "takeWhile ?p s \<noteq> []" and r: "rest = dropWhile ?p s"
    using a by (auto simp: dur_unit_def Let_def split: if_splits option.splits)
  then show ?thesis using arg_cong[OF takeWhile_dropWhile_id[of ?p s], of length] by (cases "takeWhile ?p s") simp_all
qed

lemma dur_item_shorter: "dur_item s = Some (w, rest) \<Longrightarrow> length rest < length s"
proof -
  assume a: "dur_item s = Some (w, rest)"
  have l: "length (dropWhile p xs) \<le> length xs" for p and xs :: string by (rule length_dropWhile_le)
  from a l[of is_digit s] l[of is_digit "tl (dropWhile is_digit s)"] show ?thesis
    by (auto simp: dur_item_def Let_def split: if_splits option.splits prod.splits dest!: dur_unit_shorter)
qed

function dur_loop :: "string \<Rightarrow> nat \<Rightarrow> nat option" where
  "dur_loop s d =
     (if s = [] then Some d
      else case dur_item s of None \<Rightarrow> None
        | Some (v, rest) \<Rightarrow>
            let d' = (d + v) mod 2 ^ 64 in if 2 ^ 63 < d' then None else dur_loop rest d')"
  by auto
termination by (relation "measure (length \<circ> fst)") (auto dest: dur_item_shorter)

declare dur_loop.simps [simp del]

definition ParseDuration :: "string \<Rightarrow> int option" where
  "ParseDuration s0 =
     (case parse_sign s0 of (neg, s) \<Rightarrow>
        if s = ''0'' then Some 0
        else if s = [] then None
        else case dur_loop s 0 of None \<Rightarrow> None
          | Some d \<Rightarrow> if neg then Some (- int d)
                      else if 2 ^ 63 - 1 < d then None else Some (int d))"

section \<open>\<open>Duration.String\<close>\<close>

definition fmt_frac :: "nat \<Rightarrow> nat \<Rightarrow> string" where
  "fmt_frac prec u = (if u mod 10 ^ prec = 0 then [] else CHR ''.'' # trim_zeros (pad prec (u mod 10 ^ prec)))"

definition fmt_abs :: "nat \<Rightarrow> string" where
  "fmt_abs u =
     (if u = 0 then ''0s''
      else if u < 10 ^ 3 then show_nat u @ ''ns''
      else if u < 10 ^ 6 then show_nat (u div 10 ^ 3) @ fmt_frac 3 u @ micro_sign @ ''s''
      else if u < 10 ^ 9 then show_nat (u div 10 ^ 6) @ fmt_frac 6 u @ ''ms''
      else let secs = u div 10 ^ 9; tail = show_nat (secs mod 60) @ fmt_frac 9 u @ ''s'' in
        if secs div 60 = 0 then tail
        else let mins = secs div 60; tail' = show_nat (mins mod 60) @ ''m'' @ tail in
          if mins div 60 = 0 then tail' else show_nat (mins div 60) @ ''h'' @ tail')"

definition DurationString :: "int \<Rightarrow> string" where
  "DurationString d = (if d < 0 then CHR ''-'' # fmt_abs (nat (- d)) else fmt_abs (nat d))"

section \<open>Round trip\<close>

lemma show_nat_digits [simp]: "list_all is_digit (show_nat n)"
proof (induction n rule: show_nat.induct)
  case (1 n)
  then show ?case using digit_char[of n] digit_char[of "n mod 10"] by (subst show_nat.simps) simp
qed

lemma show_nat_ne [simp]: "show_nat n \<noteq> []"
  using show_nat_hd[of n] by auto

lemma show_nat_Cons: obtains x r where "show_nat n = x # r" "is_digit x"
  using show_nat_digits[of n] show_nat_ne[of n] by (cases "show_nat n") auto

lemma num_show_nat [simp]: "num (show_nat n) = n"
proof (induction n rule: show_nat.induct)
  case (1 n)
  then show ?case using digit_char[of n] digit_char[of "n mod 10"]
    by (subst show_nat.simps) (auto simp: num_def)
qed

lemma digit_val_le: "is_digit c \<Longrightarrow> digit_val c < 10"
  by (auto simp: is_digit_def digit_val_def)

lemma foldl_digits_ge: "x \<le> foldl (\<lambda>a c. a * 10 + digit_val c) x ds"
proof (induction ds arbitrary: x)
  case (Cons c cs)
  have "x \<le> x * 10 + digit_val c" by simp
  also note Cons[of "x * 10 + digit_val c"]
  finally show ?case by simp
qed simp

lemma lead_int_ok:
  "foldl (\<lambda>a c. a * 10 + digit_val c) x ds \<le> 2 ^ 63 \<Longrightarrow> lead_int x ds = Some (foldl (\<lambda>a c. a * 10 + digit_val c) x ds)"
proof (induction ds arbitrary: x)
  case (Cons c cs)
  have "x * 10 + digit_val c \<le> 2 ^ 63"
    using Cons.prems foldl_digits_ge[of "x * 10 + digit_val c" cs] by simp
  with Cons show ?case by (simp add: Let_def)
qed simp

lemma lead_int_show [simp]: "n \<le> 2 ^ 63 \<Longrightarrow> lead_int 0 (show_nat n) = Some n"
  using lead_int_ok[of 0 "show_nat n"] num_show_nat[of n] by (simp add: num_def)

lemma lead_frac_ok:
  "list_all is_digit ds \<Longrightarrow> x < 10 ^ j \<Longrightarrow> j + length ds \<le> 18 \<Longrightarrow>
   lead_frac x sc False ds = (foldl (\<lambda>a c. a * 10 + digit_val c) x ds, sc * 10 ^ length ds)"
proof (induction ds arbitrary: x sc j)
  case (Cons c cs)
  have "(10::nat) ^ j \<le> 10 ^ 17" using Cons.prems(3) by (intro power_increasing) simp_all
  then have x: "x < 10 ^ 17" using Cons.prems(2) by simp
  have "x * 10 + digit_val c < 10 ^ Suc j" using Cons.prems(1,2) digit_val_le[of c] by simp
  with Cons.IH[of "x * 10 + digit_val c" "Suc j" "sc * 10"] Cons.prems x digit_val_le[of c] show ?case
    by (simp add: Let_def)
qed simp

text \<open>A text that continues with another number, or ends.\<close>

definition starts_number :: "string \<Rightarrow> bool" where
  "starts_number s \<longleftrightarrow> (s \<noteq> [] \<longrightarrow> is_digit (hd s))"

definition unit_text :: "string \<Rightarrow> bool" where
  "unit_text u \<longleftrightarrow> u \<noteq> [] \<and> list_all (\<lambda>c. c \<noteq> CHR ''.'' \<and> \<not> is_digit c) u"

lemma takeWhile_all: "list_all p xs \<Longrightarrow> (ys \<noteq> [] \<longrightarrow> \<not> p (hd ys)) \<Longrightarrow>
    takeWhile p (xs @ ys) = xs \<and> dropWhile p (xs @ ys) = ys"
  by (induction xs) (cases ys; simp)+

lemma dur_unit_ok:
  assumes "unit_text u" and "unit_of u = Some ns" and "starts_number rest"
    and "0 < ns" and "v * ns + f * ns div scale \<le> 2 ^ 63"
  shows "dur_unit v f scale (u @ rest) = Some (v * ns + f * ns div scale, rest)"
proof -
  have "v * ns \<le> 2 ^ 63" using assms(5) by simp
  then have "v \<le> 2 ^ 63 div ns" using assms(4) by (simp add: less_eq_div_iff_mult_less_eq)
  moreover have "takeWhile (\<lambda>c. c \<noteq> CHR ''.'' \<and> \<not> is_digit c) (u @ rest) = u
      \<and> dropWhile (\<lambda>c. c \<noteq> CHR ''.'' \<and> \<not> is_digit c) (u @ rest) = rest"
    using assms(1,3) by (intro takeWhile_all) (auto simp: unit_text_def starts_number_def)
  ultimately show ?thesis using assms(1,2,5) by (simp add: dur_unit_def unit_text_def Let_def)
qed

lemma dur_item_whole:
  assumes "unit_text u" and "unit_of u = Some ns" and "starts_number rest" and "0 < ns" and "n * ns \<le> 2 ^ 63"
  shows "dur_item (show_nat n @ u @ rest) = Some (n * ns, rest)"
proof -
  have u: "u \<noteq> []" "hd u \<noteq> CHR ''.''" "\<not> is_digit (hd u)" using assms(1) by (cases u; simp add: unit_text_def)+
  have n: "n \<le> 2 ^ 63" using assms(4,5) by (metis le_trans mult.right_neutral mult_le_mono2 One_nat_def Suc_leI)
  have t: "takeWhile is_digit (show_nat n @ u @ rest) = show_nat n" "dropWhile is_digit (show_nat n @ u @ rest) = u @ rest"
    using takeWhile_all[of is_digit "show_nat n" "u @ rest"] u by simp_all
  obtain x r where "show_nat n = x # r" "is_digit x" by (rule show_nat_Cons)
  then have h: "is_digit (hd (show_nat n @ u @ rest))" by simp
  from dur_unit_ok[OF assms(1-4), of n 0 1] assms(5)
  show ?thesis unfolding dur_item_def t Let_def using n u h by simp
qed

lemma dur_item_frac:
  assumes "unit_text u" and "unit_of u = Some (10 ^ prec)" and "starts_number rest" and "prec \<le> 9"
    and "n * 10 ^ prec + w mod 10 ^ prec \<le> 2 ^ 63"
  shows "dur_item (show_nat n @ fmt_frac prec w @ u @ rest) = Some (n * 10 ^ prec + w mod 10 ^ prec, rest)"
proof (cases "w mod 10 ^ prec = 0")
  case True
  with dur_item_whole[OF assms(1-3), of n] assms(5) show ?thesis by (simp add: fmt_frac_def)
next
  case False
  let ?fs = "trim_zeros (pad prec (w mod 10 ^ prec))"
  have u: "u \<noteq> []" "hd u \<noteq> CHR ''.''" "\<not> is_digit (hd u)" using assms(1) by (cases u; simp add: unit_text_def)+
  obtain k where k: "pad prec (w mod 10 ^ prec) = ?fs @ replicate k (digit 0)" using trim_zeros by blast
  have l: "length ?fs + k = prec" by (metis k length_pad length_append length_replicate)
  have d: "list_all is_digit ?fs" by (metis digits_pad k list_all_append)
  have v: "num ?fs * 10 ^ k = w mod 10 ^ prec"
    using arg_cong[OF k, of num] by (simp add: num_zeros num_pad)
  have f: "lead_frac 0 1 False ?fs = (num ?fs, 10 ^ length ?fs)"
    using lead_frac_ok[OF d, of 0 0 1] l assms(4) by (simp add: num_def)
  have q: "num ?fs * 10 ^ prec div 10 ^ length ?fs = w mod 10 ^ prec"
  proof -
    have "num ?fs * 10 ^ (length ?fs + k) div 10 ^ length ?fs = num ?fs * 10 ^ k" by (simp add: power_add)
    with v l show ?thesis by simp
  qed
  have ne: "?fs \<noteq> []" using v False by (auto simp: num_def)
  have "n * 1 \<le> n * 10 ^ prec" by (rule mult_le_mono2) simp
  with assms(5) have n: "n \<le> 2 ^ 63" by linarith
  have t: "takeWhile is_digit (show_nat n @ CHR ''.'' # ?fs @ u @ rest) = show_nat n"
      "dropWhile is_digit (show_nat n @ CHR ''.'' # ?fs @ u @ rest) = CHR ''.'' # ?fs @ u @ rest"
    using takeWhile_all[of is_digit "show_nat n" "CHR ''.'' # ?fs @ u @ rest"] by (simp_all add: is_digit_def)
  have t': "takeWhile is_digit (?fs @ u @ rest) = ?fs" "dropWhile is_digit (?fs @ u @ rest) = u @ rest"
    using takeWhile_all[OF d, of "u @ rest"] u by simp_all
  obtain x r where "show_nat n = x # r" "is_digit x" by (rule show_nat_Cons)
  then have h: "is_digit (hd (show_nat n @ CHR ''.'' # ?fs @ u @ rest))" by simp
  have "dur_unit n (num ?fs) (10 ^ length ?fs) (u @ rest) = Some (n * 10 ^ prec + w mod 10 ^ prec, rest)"
    using dur_unit_ok[OF assms(1-3), of n "num ?fs" "10 ^ length ?fs"] assms(5) by (simp add: q)
  then show ?thesis unfolding fmt_frac_def if_not_P[OF False] append_Cons dur_item_def t Let_def list.sel t' f
    using n ne h by simp
qed

lemma unit_texts [simp]: "unit_text ''ns''" "unit_text (micro_sign @ ''s'')" "unit_text ''ms''" "unit_text ''s''"
    "unit_text ''m''" "unit_text ''h''"
  by (simp_all add: unit_text_def micro_sign_def is_digit_def)

lemma unit_of_simps [simp]: "unit_of ''ns'' = Some 1" "unit_of (micro_sign @ ''s'') = Some (10 ^ 3)"
    "unit_of ''ms'' = Some (10 ^ 6)" "unit_of ''s'' = Some (10 ^ 9)" "unit_of ''m'' = Some (60 * 10 ^ 9)"
    "unit_of ''h'' = Some (3600 * 10 ^ 9)"
  by (simp_all add: unit_of_def micro_sign_def greek_mu_def)

lemma starts_show [simp]: "starts_number []" "starts_number (show_nat n @ s)"
proof -
  obtain x r where "show_nat n = x # r" "is_digit x" by (rule show_nat_Cons)
  then show "starts_number (show_nat n @ s)" by (simp add: starts_number_def)
qed (simp add: starts_number_def)

lemma dur_loop_item:
  "dur_item s = Some (v, rest) \<Longrightarrow> d + v \<le> 2 ^ 63 \<Longrightarrow> dur_loop s d = dur_loop rest (d + v)"
  by (subst dur_loop.simps) (auto simp: Let_def dur_item_def)

lemma dur_loop_end [simp]: "dur_loop [] d = Some d"
  by (simp add: dur_loop.simps)

lemma dur_loop_last:
  assumes "unit_text u" and "unit_of u = Some (10 ^ prec)" and "prec \<le> 9"
    and "d + (n * 10 ^ prec + w mod 10 ^ prec) \<le> 2 ^ 63"
  shows "dur_loop (show_nat n @ fmt_frac prec w @ u) d = Some (d + (n * 10 ^ prec + w mod 10 ^ prec))"
  using dur_loop_item[OF dur_item_frac[OF assms(1,2) starts_show(1) assms(3)] assms(4)] assms(4) by simp

lemma dur_loop_mins:
  assumes "d + (m * (60 * 10 ^ 9) + (sec * 10 ^ 9 + w mod 10 ^ 9)) \<le> 2 ^ 63"
  shows "dur_loop (show_nat m @ ''m'' @ show_nat sec @ fmt_frac 9 w @ ''s'') d
    = Some (d + (m * (60 * 10 ^ 9) + (sec * 10 ^ 9 + w mod 10 ^ 9)))"
proof -
  have "m * (60 * 10 ^ 9) \<le> 2 ^ 63" "d + m * (60 * 10 ^ 9) \<le> 2 ^ 63" using assms by linarith+
  from dur_loop_item[OF dur_item_whole[OF unit_texts(5) unit_of_simps(5) starts_show(2) _ this(1)] this(2)]
  have "dur_loop (show_nat m @ ''m'' @ show_nat sec @ fmt_frac 9 w @ ''s'') d
      = dur_loop (show_nat sec @ fmt_frac 9 w @ ''s'') (d + m * (60 * 10 ^ 9))" by simp
  also have "\<dots> = Some (d + m * (60 * 10 ^ 9) + (sec * 10 ^ 9 + w mod 10 ^ 9))"
    using assms by (intro dur_loop_last[OF unit_texts(4) unit_of_simps(4)]) (simp, linarith)
  finally show ?thesis by (simp only: add.assoc)
qed

lemma dur_loop_hours:
  assumes "h * (3600 * 10 ^ 9) + (m * (60 * 10 ^ 9) + (sec * 10 ^ 9 + w mod 10 ^ 9)) \<le> 2 ^ 63"
  shows "dur_loop (show_nat h @ ''h'' @ show_nat m @ ''m'' @ show_nat sec @ fmt_frac 9 w @ ''s'') 0
    = Some (h * (3600 * 10 ^ 9) + (m * (60 * 10 ^ 9) + (sec * 10 ^ 9 + w mod 10 ^ 9)))"
proof -
  have h: "h * (3600 * 10 ^ 9) \<le> 2 ^ 63" "0 + h * (3600 * 10 ^ 9) \<le> 2 ^ 63" using assms by linarith+
  from dur_loop_item[OF dur_item_whole[OF unit_texts(6) unit_of_simps(6) starts_show(2) _ h(1)] h(2)]
  have "dur_loop (show_nat h @ ''h'' @ show_nat m @ ''m'' @ show_nat sec @ fmt_frac 9 w @ ''s'') 0
      = dur_loop (show_nat m @ ''m'' @ show_nat sec @ fmt_frac 9 w @ ''s'') (h * (3600 * 10 ^ 9))" by simp
  then show ?thesis using dur_loop_mins[OF assms] by simp
qed

lemma split_secs: "(u::nat) div 10 ^ 9 div 60 * (60 * 10 ^ 9) + (u div 10 ^ 9 mod 60 * 10 ^ 9 + u mod 10 ^ 9) = u"
proof -
  have "u div 10 ^ 9 div 60 * 60 + u div 10 ^ 9 mod 60 = u div 10 ^ 9" by simp
  then have "(u div 10 ^ 9 div 60 * 60 + u div 10 ^ 9 mod 60) * 10 ^ 9 + u mod 10 ^ 9 = u" by simp
  then show ?thesis by (simp only: distrib_right mult.assoc add.assoc)
qed

lemma split_mins: "(m::nat) div 60 * (3600 * 10 ^ 9) + m mod 60 * (60 * 10 ^ 9) = m * (60 * 10 ^ 9)"
proof -
  have "(m div 60 * 60 + m mod 60) * (60 * 10 ^ 9) = m * (60 * 10 ^ 9)" by simp
  then show ?thesis by (simp only: distrib_right mult.assoc)
qed

lemma dur_loop_fmt:
  assumes "u \<le> 2 ^ 63"
  shows "dur_loop (fmt_abs u) 0 = Some u"
proof -
  let ?secs = "u div 10 ^ 9"
  let ?mins = "?secs div 60"
  consider "u = 0" | "0 < u" "u < 10 ^ 3" | "10 ^ 3 \<le> u" "u < 10 ^ 6" | "10 ^ 6 \<le> u" "u < 10 ^ 9"
    | "10 ^ 9 \<le> u" "?mins = 0" | "10 ^ 9 \<le> u" "?mins \<noteq> 0" "?mins div 60 = 0"
    | "10 ^ 9 \<le> u" "?mins \<noteq> 0" "?mins div 60 \<noteq> 0" by linarith
  then show ?thesis
  proof cases
    case 1
    have "char_of (48::nat) = CHR ''0''" by code_simp
    then have "show_nat 0 = ''0''" by (simp add: show_nat.simps[of 0])
    with dur_loop_item[OF dur_item_whole[of "''s''" "10 ^ 9" "[]" 0]] 1 show ?thesis by (simp add: fmt_abs_def)
  next
    case 2
    with dur_loop_item[OF dur_item_whole[of "''ns''" 1 "[]" u]] show ?thesis by (simp add: fmt_abs_def)
  next
    case 3
    with dur_loop_last[of "micro_sign @ ''s''" 3 0 "u div 10 ^ 3" u] show ?thesis by (simp add: fmt_abs_def)
  next
    case 4
    with dur_loop_last[of "''ms''" 6 0 "u div 10 ^ 6" u] show ?thesis by (simp add: fmt_abs_def)
  next
    case 5
    have f: "fmt_abs u = show_nat (?secs mod 60) @ fmt_frac 9 u @ ''s''" using 5 by (simp add: fmt_abs_def Let_def)
    have "0 + (?secs mod 60 * 10 ^ 9 + u mod 10 ^ 9) = u" using split_secs[of u] unfolding 5(2) by simp
    with dur_loop_last[OF unit_texts(4) unit_of_simps(4), of 0 "?secs mod 60" u] assms show ?thesis unfolding f by simp
  next
    case 6
    have "?mins mod 60 = ?mins" using 6(3) by (metis div_eq_0_iff mod_less zero_neq_numeral)
    then have f: "fmt_abs u = show_nat ?mins @ ''m'' @ show_nat (?secs mod 60) @ fmt_frac 9 u @ ''s''"
      using 6 by (simp add: fmt_abs_def Let_def)
    show ?thesis unfolding f using dur_loop_mins[of 0 ?mins "?secs mod 60" u] split_secs[of u] assms by simp
  next
    case 7
    have f: "fmt_abs u = show_nat (?mins div 60) @ ''h'' @ show_nat (?mins mod 60) @ ''m'' @ show_nat (?secs mod 60) @ fmt_frac 9 u @ ''s''"
      using 7 by (simp add: fmt_abs_def Let_def)
    have "?mins div 60 * (3600 * 10 ^ 9) + (?mins mod 60 * (60 * 10 ^ 9) + (?secs mod 60 * 10 ^ 9 + u mod 10 ^ 9)) = u"
      using split_mins[of ?mins] split_secs[of u] by linarith
    with dur_loop_hours[of "?mins div 60" "?mins mod 60" "?secs mod 60" u] assms show ?thesis unfolding f by simp
  qed
qed

lemma number_text: "t \<noteq> [] \<Longrightarrow> \<exists>x r. show_nat n @ t = x # r \<and> is_digit x \<and> r \<noteq> []"
  by (rule show_nat_Cons[of n]) simp

lemma fmt_abs_Cons: "\<exists>x r. fmt_abs u = x # r \<and> is_digit x \<and> r \<noteq> []"
proof (cases "u = 0")
  case True
  then show ?thesis by (simp add: fmt_abs_def is_digit_def)
next
  case False
  then show ?thesis unfolding fmt_abs_def Let_def by (simp split del: if_split) (auto intro!: number_text)
qed

text \<open>\<open>ParseDuration\<close> reads back what \<open>String\<close> prints.\<close>

lemma ParseDuration_String:
  assumes "in_int64 d"
  shows "ParseDuration (DurationString d) = Some d"
proof -
  let ?u = "nat \<bar>d\<bar>"
  have u: "?u \<le> 2 ^ 63" using assms by (auto simp: in_int64_def nat_le_iff)
  obtain x r where x: "fmt_abs ?u = x # r" "is_digit x" "r \<noteq> []" using fmt_abs_Cons[of ?u] by blast
  have s: "x \<noteq> CHR ''-''" "x \<noteq> CHR ''+''" using x(2) by (auto simp: is_digit_def)
  show ?thesis
  proof (cases "d < 0")
    case True
    then have "?u = nat (- d)" by simp
    with True x dur_loop_fmt[OF u] show ?thesis
      by (simp add: ParseDuration_def DurationString_def parse_sign_def)
  next
    case False
    then have "?u = nat d" by simp
    moreover have "nat d \<le> 2 ^ 63 - 1" using assms by (auto simp: in_int64_def nat_le_iff)
    ultimately show ?thesis using False x s dur_loop_fmt[OF u]
      by (simp add: ParseDuration_def DurationString_def parse_sign_def)
  qed
qed

end
