(* ===== verification/Loadtest.thy ===== *)
theory Loadtest
  imports Duration Json "HOL-Library.AList" "HOL-Library.List_Lexorder" "HOL-Library.Char_ord"
begin

text \<open>
  \<open>internal/loadtest/job.go\<close> and \<open>limits.go\<close>: the jobs and results of the load-test queue, their JSON
  form, the scenarios and the limits. A JSON text is given as the value it parses to; values of type
  \<open>any\<close> keep the JSON they were read from, and strings are valid UTF-8.
\<close>

section \<open>Statuses and scenarios\<close>

type_synonym status = string

definition StatusQueued :: status where "StatusQueued = ''queued''"
definition StatusRunning :: status where "StatusRunning = ''running''"
definition StatusPassed :: status where "StatusPassed = ''passed''"
definition StatusFailed :: status where "StatusFailed = ''failed''"
definition StatusError :: status where "StatusError = ''error''"

lemmas status_defs = StatusQueued_def StatusRunning_def StatusPassed_def StatusFailed_def StatusError_def

definition AllowedScenarios :: "string list" where
  "AllowedScenarios = [''launch_spike'', ''backdoor_race'', ''late_surge'', ''refresh_storm'', ''reconnect_churn'',
     ''bot_checkout'', ''scalper_network'', ''queue_fairness'', ''second_sale_regression'', ''mixed_realistic'']"

definition ValidScenario :: "string \<Rightarrow> bool" where
  "ValidScenario name \<longleftrightarrow> list_ex (\<lambda>s. s = name) AllowedScenarios"

definition ErrInvalidScenario :: "string \<Rightarrow> error" where
  "ErrInvalidScenario name = ErrMsg (''unknown scenario: '' @ name)"

section \<open>Jobs, results and requests\<close>

record job =
  jb_RunID :: string
  jb_Scenario :: string
  jb_SaleID :: string
  jb_VUsMax :: int
  jb_RampUp :: string
  jb_Steady :: string
  jb_RampDown :: string
  jb_AdmitPerMinute :: int
  jb_WaitingRoomCap :: int
  jb_TotalSeats :: int
  jb_CreatedAt :: int

text \<open>A Go map with string keys is the list of its entries, in the order of the keys; \<open>None\<close> is \<open>nil\<close>.\<close>

type_synonym any_map = "(string \<times> json) list"

record run_result =
  rs_RunID :: string
  rs_Scenario :: string
  rs_SaleID :: string
  rs_Status :: status
  rs_Passed :: bool
  rs_Failures :: "string list option"
  rs_Metrics :: "any_map option"
  rs_Extra :: "any_map option"
  rs_StartedAt :: "int option"
  rs_FinishedAt :: "int option"
  rs_Error :: string

text \<open>The zero value of the struct, of which the code sets some fields.\<close>

definition no_result :: run_result where
  "no_result = \<lparr>rs_RunID = [], rs_Scenario = [], rs_SaleID = [], rs_Status = [], rs_Passed = False,
     rs_Failures = None, rs_Metrics = None, rs_Extra = None, rs_StartedAt = None, rs_FinishedAt = None, rs_Error = []\<rparr>"

record run_request =
  rr_Scenario :: string
  rr_SaleID :: string
  rr_VUsMax :: int
  rr_RampUp :: string
  rr_Steady :: string
  rr_RampDown :: string
  rr_AdmitPerMinute :: int
  rr_WaitingRoomCap :: int
  rr_TotalSeats :: int

record reset_request =
  rq_AdmitPerMinute :: int
  rq_WaitingRoomCap :: int
  rq_TotalSeats :: int

section \<open>Limits\<close>

record limits =
  MaxVUs :: int
  MaxQueueDepth :: int
  MaxConcurrent :: int
  MaxSteady :: int
  DefaultVUs :: int

definition DefaultLimits :: limits where
  "DefaultLimits = \<lparr>MaxVUs = 150, MaxQueueDepth = 3, MaxConcurrent = 1, MaxSteady = 90 * 10 ^ 9, DefaultVUs = 80\<rparr>"

definition positive_or :: "int \<Rightarrow> int \<Rightarrow> int" where
  "positive_or dflt n = (if n \<le> 0 then dflt else n)"

definition nonempty_or :: "string \<Rightarrow> string \<Rightarrow> string" where
  "nonempty_or dflt s = (if s = [] then dflt else s)"

definition cap_vus :: "limits \<Rightarrow> int \<Rightarrow> int" where
  "cap_vus l n = (if 0 < MaxVUs l \<and> MaxVUs l < n then MaxVUs l else n)"

definition cap_steady :: "limits \<Rightarrow> string \<Rightarrow> string" where
  "cap_steady l s =
     (if 0 < MaxSteady l
      then (case ParseDuration s of
              Some d \<Rightarrow> if MaxSteady l < d then DurationString (MaxSteady l) else s
            | None \<Rightarrow> s)
      else s)"

definition Apply :: "limits \<Rightarrow> run_request \<Rightarrow> run_request" where
  "Apply l req = req\<lparr>
     rr_VUsMax := cap_vus l (positive_or (DefaultVUs l) (rr_VUsMax req)),
     rr_RampUp := nonempty_or ''10s'' (rr_RampUp req),
     rr_Steady := cap_steady l (nonempty_or ''30s'' (rr_Steady req)),
     rr_RampDown := nonempty_or ''10s'' (rr_RampDown req),
     rr_AdmitPerMinute := positive_or 6000 (rr_AdmitPerMinute req),
     rr_WaitingRoomCap := positive_or 100000 (rr_WaitingRoomCap req),
     rr_TotalSeats := positive_or 500 (rr_TotalSeats req)\<rparr>"

definition CanAccept :: "limits \<Rightarrow> int \<Rightarrow> int \<Rightarrow> unit result" where
  "CanAccept l pending running =
     (let maxQ = positive_or 3 (MaxQueueDepth l); maxRun = positive_or 1 (MaxConcurrent l) in
      if maxRun \<le> running then Inl ErrAlreadyBusy
      else if maxQ \<le> int64 (pending + running) then Inl ErrQueueFull
      else Inr ())"

section \<open>JSON\<close>

definition decode_bool :: "json \<Rightarrow> bool \<Rightarrow> bool \<times> bool" where
  "decode_bool v old = (case v of J_Null \<Rightarrow> (old, True) | J_Bool b \<Rightarrow> (b, True) | _ \<Rightarrow> (old, False))"

text \<open>\<open>time.Time\<close> and \<open>*time.Time\<close>; an instant outside the years 0 to 9999 cannot be written.\<close>

definition decode_time :: "json \<Rightarrow> int \<Rightarrow> int \<times> bool" where
  "decode_time v old = (case v of J_Null \<Rightarrow> (old, True)
     | J_Str s \<Rightarrow> (case ParseTime s of Some t \<Rightarrow> (t, True) | None \<Rightarrow> (old, False))
     | _ \<Rightarrow> (old, False))"

definition decode_time_ptr :: "json \<Rightarrow> int option \<Rightarrow> int option \<times> bool" where
  "decode_time_ptr v old = (case v of J_Null \<Rightarrow> (None, True)
     | _ \<Rightarrow> (case decode_time v 0 of (t, ok) \<Rightarrow> (Some t, ok)))"

definition time_ok :: "int \<Rightarrow> bool" where
  "time_ok t \<longleftrightarrow> 0 \<le> year_at t \<and> year_at t < 10000"

definition encode_time :: "int \<Rightarrow> json" where
  "encode_time t = J_Str (Format True t)"

definition decode_string_slice :: "json \<Rightarrow> string list option \<Rightarrow> string list option \<times> bool" where
  "decode_string_slice v old = (case v of J_Null \<Rightarrow> (None, True)
     | J_Arr vs \<Rightarrow> (case decode_strings v [] of (xs, ok) \<Rightarrow> (Some xs, ok))
     | _ \<Rightarrow> (old, False))"

text \<open>The last binding of a key counts; a map that is there already is extended.\<close>

definition go_map :: "(string \<times> json) list \<Rightarrow> any_map" where
  "go_map ms = map (\<lambda>k. (k, the (map_of (rev ms) k))) (sort (remdups (map fst ms)))"

definition decode_any_map :: "json \<Rightarrow> any_map option \<Rightarrow> any_map option \<times> bool" where
  "decode_any_map v old = (case v of J_Null \<Rightarrow> (None, True)
     | J_Obj ms \<Rightarrow> (Some (go_map ((case old of None \<Rightarrow> [] | Some m \<Rightarrow> m) @ ms)), True)
     | _ \<Rightarrow> (old, False))"

text \<open>A struct as an object: its fields in order, those that \<open>omitempty\<close> drops being \<open>None\<close>.\<close>

definition obj :: "(string \<times> json option) list \<Rightarrow> json" where
  "obj kvs = J_Obj (List.map_filter (\<lambda>(k, v). map_option (Pair k) v) kvs)"

definition omit :: "bool \<Rightarrow> json \<Rightarrow> json option" where
  "omit absent v = (if absent then None else Some v)"

definition job_fields :: "string list" where
  "job_fields = [''run_id'', ''scenario'', ''sale_id'', ''vus_max'', ''ramp_up'', ''steady'', ''ramp_down'',
     ''admit_per_minute'', ''waiting_room_cap'', ''total_seats'', ''created_at'']"

definition encode_job :: "job \<Rightarrow> json option" where
  "encode_job j =
     (if time_ok (jb_CreatedAt j)
      then Some (obj [(''run_id'', Some (J_Str (jb_RunID j))), (''scenario'', Some (J_Str (jb_Scenario j))),
        (''sale_id'', omit (jb_SaleID j = []) (J_Str (jb_SaleID j))), (''vus_max'', Some (J_Int (jb_VUsMax j))),
        (''ramp_up'', Some (J_Str (jb_RampUp j))), (''steady'', Some (J_Str (jb_Steady j))),
        (''ramp_down'', Some (J_Str (jb_RampDown j))), (''admit_per_minute'', Some (J_Int (jb_AdmitPerMinute j))),
        (''waiting_room_cap'', Some (J_Int (jb_WaitingRoomCap j))), (''total_seats'', Some (J_Int (jb_TotalSeats j))),
        (''created_at'', Some (encode_time (jb_CreatedAt j)))])
      else None)"

definition decode_job :: "body \<Rightarrow> job \<times> bool" where
  "decode_job b =
     (let ms = members b; str = (\<lambda>k. decode_field decode_string job_fields k ms []);
          num = (\<lambda>k. decode_field decode_int job_fields k ms 0);
          tm = decode_field decode_time job_fields ''created_at'' ms zero_time
      in (\<lparr>jb_RunID = fst (str ''run_id''), jb_Scenario = fst (str ''scenario''), jb_SaleID = fst (str ''sale_id''),
           jb_VUsMax = fst (num ''vus_max''), jb_RampUp = fst (str ''ramp_up''), jb_Steady = fst (str ''steady''),
           jb_RampDown = fst (str ''ramp_down''), jb_AdmitPerMinute = fst (num ''admit_per_minute''),
           jb_WaitingRoomCap = fst (num ''waiting_room_cap''), jb_TotalSeats = fst (num ''total_seats''),
           jb_CreatedAt = fst tm\<rparr>,
          is_struct b \<and> list_all (snd \<circ> str) [''run_id'', ''scenario'', ''sale_id'', ''ramp_up'', ''steady'', ''ramp_down'']
          \<and> list_all (snd \<circ> num) [''vus_max'', ''admit_per_minute'', ''waiting_room_cap'', ''total_seats''] \<and> snd tm))"

definition result_fields :: "string list" where
  "result_fields = [''run_id'', ''scenario'', ''sale_id'', ''status'', ''passed'', ''failures'', ''metrics'', ''extra'',
     ''started_at'', ''finished_at'', ''error'']"

definition empty_slice :: "'a list option \<Rightarrow> bool" where
  "empty_slice x \<longleftrightarrow> x = None \<or> x = Some []"

definition encode_result :: "run_result \<Rightarrow> json option" where
  "encode_result r =
     (if (\<forall>t\<in>set_option (rs_StartedAt r) \<union> set_option (rs_FinishedAt r). time_ok t)
      then Some (obj [(''run_id'', Some (J_Str (rs_RunID r))), (''scenario'', Some (J_Str (rs_Scenario r))),
        (''sale_id'', omit (rs_SaleID r = []) (J_Str (rs_SaleID r))), (''status'', Some (J_Str (rs_Status r))),
        (''passed'', Some (J_Bool (rs_Passed r))),
        (''failures'', omit (empty_slice (rs_Failures r)) (J_Arr (map J_Str (the (rs_Failures r))))),
        (''metrics'', omit (empty_slice (rs_Metrics r)) (J_Obj (the (rs_Metrics r)))),
        (''extra'', omit (empty_slice (rs_Extra r)) (J_Obj (the (rs_Extra r)))),
        (''started_at'', map_option encode_time (rs_StartedAt r)),
        (''finished_at'', map_option encode_time (rs_FinishedAt r)),
        (''error'', omit (rs_Error r = []) (J_Str (rs_Error r)))])
      else None)"

definition decode_result :: "body \<Rightarrow> run_result \<times> bool" where
  "decode_result b =
     (let ms = members b; str = (\<lambda>k. decode_field decode_string result_fields k ms []);
          passed = decode_field decode_bool result_fields ''passed'' ms False;
          fails = decode_field decode_string_slice result_fields ''failures'' ms None;
          mp = (\<lambda>k. decode_field decode_any_map result_fields k ms None);
          tm = (\<lambda>k. decode_field decode_time_ptr result_fields k ms None)
      in (\<lparr>rs_RunID = fst (str ''run_id''), rs_Scenario = fst (str ''scenario''), rs_SaleID = fst (str ''sale_id''),
           rs_Status = fst (str ''status''), rs_Passed = fst passed, rs_Failures = fst fails,
           rs_Metrics = fst (mp ''metrics''), rs_Extra = fst (mp ''extra''), rs_StartedAt = fst (tm ''started_at''),
           rs_FinishedAt = fst (tm ''finished_at''), rs_Error = fst (str ''error'')\<rparr>,
          is_struct b \<and> list_all (snd \<circ> str) [''run_id'', ''scenario'', ''sale_id'', ''status'', ''error'']
          \<and> snd passed \<and> snd fails \<and> list_all (snd \<circ> mp) [''metrics'', ''extra'']
          \<and> list_all (snd \<circ> tm) [''started_at'', ''finished_at'']))"

section \<open>Round trips\<close>

text \<open>Reading a field of a written struct.\<close>

definition read_opt :: "(json \<Rightarrow> 'a \<Rightarrow> 'a \<times> bool) \<Rightarrow> json option \<Rightarrow> 'a \<Rightarrow> 'a \<times> bool" where
  "read_opt dec v old = (case v of None \<Rightarrow> (old, True) | Some x \<Rightarrow> dec x old)"

lemma decode_field_obj:
  assumes "distinct (map fst kvs)" and "set (map fst kvs) \<subseteq> set ns"
  shows "decode_field dec ns n (members (Some (obj kvs))) old
    = (case map_of kvs n of None \<Rightarrow> (old, True) | Some v \<Rightarrow> read_opt dec v old)"
proof -
  have none: "decode_field dec ns n (List.map_filter (\<lambda>(k, v). map_option (Pair k) v) kvs) old = (old, True)"
    if "n \<notin> set (map fst kvs)" "set (map fst kvs) \<subseteq> set ns" for kvs old
    using that by (induction kvs) (auto simp: map_filter_simps field_of_def split: option.splits)
  show ?thesis
    using assms
  proof (induction kvs)
    case (Cons kv kvs)
    obtain k v where kv: "kv = (k, v)" by fastforce
    show ?case
    proof (cases "k = n")
      case True
      then show ?thesis using Cons.prems none[of kvs] kv
        by (cases v) (auto simp: members_def obj_def map_filter_simps read_opt_def field_of_def split: prod.splits)
    next
      case False
      then show ?thesis using Cons kv
        by (cases v) (auto simp: members_def obj_def map_filter_simps field_of_def)
    qed
  qed (simp add: members_def obj_def map_filter_simps)
qed

lemma read_opt_simps [simp]:
  "read_opt dec (Some x) old = dec x old" "read_opt dec None old = (old, True)"
  "read_opt dec (omit b x) old = (if b then (old, True) else dec x old)"
  by (simp_all add: read_opt_def omit_def)

lemma is_struct_obj [simp]: "is_struct (Some (obj kvs))"
  by (simp add: is_struct_def obj_def)

lemma decode_values [simp]:
  "decode_string (J_Str s) old = (s, True)"
  "decode_bool (J_Bool b) ob = (b, True)"
  "in_int64 i \<Longrightarrow> decode_int (J_Int i) oi = (i, True)"
  "time_ok t \<Longrightarrow> decode_time (encode_time t) ot = (t, True)"
  "time_ok t \<Longrightarrow> decode_time_ptr (encode_time t) op = (Some t, True)"
  "decode_string_slice (J_Arr (map J_Str xs)) os = (Some xs, True)"
  using ParseTime_Format[of t True]
  by (simp_all add: decode_string_def decode_bool_def decode_int_def decode_time_def decode_time_ptr_def
      encode_time_def decode_string_slice_def decode_strings_def time_ok_def list_all_iff comp_def)

definition good_job :: "job \<Rightarrow> bool" where
  "good_job j \<longleftrightarrow> in_int64 (jb_VUsMax j) \<and> in_int64 (jb_AdmitPerMinute j) \<and> in_int64 (jb_WaitingRoomCap j)
     \<and> in_int64 (jb_TotalSeats j) \<and> time_ok (jb_CreatedAt j)"

lemma decode_encode_job:
  assumes "good_job j"
  shows "\<exists>v. encode_job j = Some v \<and> decode_job (Some v) = (j, True)"
  using assms
  by (cases j) (simp add: good_job_def encode_job_def decode_job_def decode_field_obj job_fields_def)

text \<open>
  A map as \<open>encoding/json\<close> leaves it: sorted by its keys. A written result is read back with its empty
  slices and maps as \<open>nil\<close>, which \<open>omitempty\<close> does not distinguish.
\<close>

definition good_map :: "any_map option \<Rightarrow> bool" where
  "good_map m \<longleftrightarrow> (case m of None \<Rightarrow> True | Some ms \<Rightarrow> distinct (map fst ms) \<and> sorted (map fst ms))"

definition nil_of :: "'a list option \<Rightarrow> 'a list option" where
  "nil_of x = (if x = Some [] then None else x)"

definition tidy :: "run_result \<Rightarrow> run_result" where
  "tidy r = r\<lparr>rs_Failures := nil_of (rs_Failures r), rs_Metrics := nil_of (rs_Metrics r), rs_Extra := nil_of (rs_Extra r)\<rparr>"

definition good_result :: "run_result \<Rightarrow> bool" where
  "good_result r \<longleftrightarrow> good_map (rs_Metrics r) \<and> good_map (rs_Extra r)
     \<and> (\<forall>t\<in>set_option (rs_StartedAt r) \<union> set_option (rs_FinishedAt r). time_ok t)"

lemma go_map_id: "distinct (map fst ms) \<Longrightarrow> sorted (map fst ms) \<Longrightarrow> go_map ms = ms"
proof -
  assume d: "distinct (map fst ms)" and s: "sorted (map fst ms)"
  have "map_of (rev ms) k = Some v" if "(k, v) \<in> set ms" for k v
    using that d by (intro map_of_is_SomeI) (simp_all add: rev_map[symmetric])
  then have "map (\<lambda>k. (k, the (map_of (rev ms) k))) (map fst ms) = ms"
    unfolding map_map by (intro map_idI) auto
  with d s show ?thesis by (simp add: go_map_def distinct_remdups_id sorted_sort_id)
qed

lemma decode_map_id:
  "good_map (Some ms) \<Longrightarrow> decode_any_map (J_Obj ms) None = (Some ms, True)"
  by (simp add: good_map_def decode_any_map_def go_map_id)

lemma decode_encode_result:
  assumes "good_result r"
  shows "\<exists>v. encode_result r = Some v \<and> decode_result (Some v) = (tidy r, True)"
proof -
  have m: "read_opt decode_any_map (omit (empty_slice x) (J_Obj (the x))) None = (nil_of x, True)" if "good_map x" for x
    using that decode_map_id by (cases x) (auto simp: empty_slice_def nil_of_def)
  have f: "read_opt decode_string_slice (omit (empty_slice x) (J_Arr (map J_Str (the x)))) None = (nil_of x, True)" for x
    by (cases x) (auto simp: empty_slice_def nil_of_def)
  have t: "read_opt decode_time_ptr (map_option encode_time x) None = (x, True)" if "\<forall>t\<in>set_option x. time_ok t" for x
    using that by (cases x) auto
  show ?thesis
    using assms[unfolded good_result_def]
    by (cases r)
      (simp add: encode_result_def decode_result_def decode_field_obj result_fields_def m f t tidy_def
       del: read_opt_simps, simp)
qed

lemma tidy_simps [simp]:
  "rs_RunID (tidy r) = rs_RunID r" "rs_Status (tidy r) = rs_Status r" "rs_Passed (tidy r) = rs_Passed r"
  "rs_StartedAt (tidy r) = rs_StartedAt r" "rs_FinishedAt (tidy r) = rs_FinishedAt r" "rs_Error (tidy r) = rs_Error r"
  "rs_Scenario (tidy r) = rs_Scenario r" "rs_SaleID (tidy r) = rs_SaleID r"
  "rs_Failures (tidy r) = nil_of (rs_Failures r)"
  by (simp_all add: tidy_def)

lemma good_go_map [simp]: "good_map (Some (go_map ms))"
  by (simp add: good_map_def go_map_def comp_def)

lemma decode_any_map_good: "good_map old \<Longrightarrow> good_map (fst (decode_any_map v old))"
  by (cases v) (auto simp: decode_any_map_def good_map_def[of None])

lemma decode_field_keeps:
  "(\<And>v old. P old \<Longrightarrow> P (fst (dec v old))) \<Longrightarrow> P old \<Longrightarrow> P (fst (decode_field dec ns n ms old))"
proof (induction ms arbitrary: old)
  case (Cons kv ms)
  obtain k v where kv: "kv = (k, v)" by fastforce
  have "P (fst (dec v old))" using Cons.prems by blast
  from Cons.IH[OF Cons.prems(1) this] Cons.IH[OF Cons.prems] show ?case
    unfolding kv by (simp split: prod.splits) (metis fst_conv)
qed simp

text \<open>What \<open>Apply\<close> guarantees of every request.\<close>

lemma Apply_positive: "0 < dflt \<Longrightarrow> 0 < positive_or dflt n"
  by (simp add: positive_or_def)

lemma cap_steady_le:
  assumes "in_int64 (MaxSteady l)" and "0 < MaxSteady l" and "ParseDuration (cap_steady l s) = Some d"
  shows "d \<le> MaxSteady l"
  using assms ParseDuration_String[OF assms(1)] by (auto simp: cap_steady_def split: option.splits if_splits)

end
