(* ===== verification/Simulation.thy ===== *)
theory Simulation
  imports Loadtest
begin

text \<open>
  \<open>internal/simulation/engine.go\<close>: the engine of the demo page, which sends traffic to the API and sets
  up the sale it is sent to. The HTTP client is a parameter: a function of the request and of a state
  outside the engine (for the API of this program, its world), to the answer and the state after it.
  The goroutines that \<open>restartWorkers\<close> starts are part of the engine's state; every pass of one of them is
  a step, in any order.
\<close>

section \<open>The client\<close>

text \<open>A body is the JSON value its text parses to, \<open>None\<close> for one that is empty or does not parse.\<close>

record http_req =
  hq_method :: string
  hq_url :: string
  hq_headers :: "(string \<times> string) list"
  hq_body :: body

text \<open>The answer: a status and a body, or \<open>None\<close> for a transport error.\<close>

type_synonym 's http_client = "http_req \<Rightarrow> 's \<Rightarrow> (int \<times> body) option \<times> 's"

section \<open>Data\<close>

record sim_config =
  LaunchSpike :: bool
  BackdoorRace :: bool
  LateSurge :: bool
  RefreshStorm :: bool
  ReconnectChurn :: bool
  ScalperBots :: bool
  MixedRealistic :: bool

text \<open>The counters of \<open>Stats\<close>; its other fields are filled in by \<open>StatsSnapshot\<close>.\<close>

record sim_stats =
  RequestsTotal :: int
  ErrorsTotal :: int
  BlockedTotal :: int
  LastLatencyMs :: int

record sim_snapshot =
  ss_stats :: sim_stats
  ss_ActiveScenarios :: "string list"
  ss_Config :: sim_config
  ss_PerScenario :: "(string \<times> int) list"

text \<open>The six loops that can be started, each with the sale it was started for and its context.\<close>

datatype loop_kind = Loop_LaunchSpike | Loop_Backdoor | Loop_LateSurge | Loop_Refresh | Loop_Reconnect | Loop_Scalper

record sim_loop =
  lp_kind :: loop_kind
  lp_sale :: string
  lp_ctx :: nat

text \<open>
  Contexts are numbered. \<open>en_stop\<close> is the context that the field \<open>stop\<close> cancels, \<open>en_loops\<close> are the
  goroutines that have not returned.
\<close>

record engine =
  en_cfg :: sim_config
  en_baseURL :: string
  en_adminKey :: string
  en_saleID :: string
  en_stop :: "nat option"
  en_stats :: sim_stats
  en_perScn :: "(string \<times> int) list"
  en_startedAt :: int
  en_contexts :: nat
  en_cancelled :: "nat list"
  en_loops :: "sim_loop list"

definition all_off :: sim_config where
  "all_off = \<lparr>LaunchSpike = False, BackdoorRace = False, LateSurge = False, RefreshStorm = False,
     ReconnectChurn = False, ScalperBots = False, MixedRealistic = False\<rparr>"

definition scenario_names :: "string list" where
  "scenario_names = [''launch_spike'', ''backdoor_race'', ''late_surge'', ''refresh_storm'', ''reconnect_churn'',
     ''scalper_bots'', ''mixed_realistic'']"

definition new_engine :: "string \<Rightarrow> string \<Rightarrow> int \<Rightarrow> engine" where
  "new_engine baseURL adminKey now =
     \<lparr>en_cfg = all_off, en_baseURL = baseURL, en_adminKey = adminKey, en_saleID = [], en_stop = None,
      en_stats = \<lparr>RequestsTotal = 0, ErrorsTotal = 0, BlockedTotal = 0, LastLatencyMs = 0\<rparr>,
      en_perScn = map (\<lambda>n. (n, 0)) scenario_names, en_startedAt = now,
      en_contexts = 0, en_cancelled = [], en_loops = []\<rparr>"

section \<open>Configuration\<close>

definition SetSaleID :: "string \<Rightarrow> engine \<Rightarrow> engine" where
  "SetSaleID i en = en\<lparr>en_saleID := i\<rparr>"

definition SaleID :: "engine \<Rightarrow> string" where
  "SaleID en = en_saleID en"

definition GetConfig :: "engine \<Rightarrow> sim_config" where
  "GetConfig en = en_cfg en"

definition activeNames :: "sim_config \<Rightarrow> string list" where
  "activeNames c =
     (if LaunchSpike c then [''launch_spike''] else []) @ (if BackdoorRace c then [''backdoor_race''] else [])
     @ (if LateSurge c then [''late_surge''] else []) @ (if RefreshStorm c then [''refresh_storm''] else [])
     @ (if ReconnectChurn c then [''reconnect_churn''] else []) @ (if ScalperBots c then [''scalper_bots''] else [])
     @ (if MixedRealistic c then [''mixed_realistic''] else [])"

definition StatsSnapshot :: "engine \<Rightarrow> sim_snapshot" where
  "StatsSnapshot en = \<lparr>ss_stats = en_stats en, ss_ActiveScenarios = activeNames (en_cfg en),
     ss_Config = en_cfg en, ss_PerScenario = en_perScn en\<rparr>"

definition anyOn :: "sim_config \<Rightarrow> bool" where
  "anyOn c \<longleftrightarrow> LaunchSpike c \<or> BackdoorRace c \<or> LateSurge c \<or> RefreshStorm c
     \<or> ReconnectChurn c \<or> ScalperBots c \<or> MixedRealistic c"

text \<open>The loops that \<open>restartWorkers\<close> starts for a configuration.\<close>

definition loop_kinds :: "sim_config \<Rightarrow> loop_kind list" where
  "loop_kinds c =
     (if LaunchSpike c \<or> MixedRealistic c then [Loop_LaunchSpike] else [])
     @ (if BackdoorRace c \<or> MixedRealistic c then [Loop_Backdoor] else [])
     @ (if LateSurge c then [Loop_LateSurge] else [])
     @ (if RefreshStorm c \<or> MixedRealistic c then [Loop_Refresh] else [])
     @ (if ReconnectChurn c \<or> MixedRealistic c then [Loop_Reconnect] else [])
     @ (if ScalperBots c \<or> MixedRealistic c then [Loop_Scalper] else [])"

text \<open>\<open>restartWorkers\<close> in its three parts: stopping, reading the settings under the lock, starting.\<close>

definition restart_stop :: "engine \<Rightarrow> engine" where
  "restart_stop en = (case en_stop en of None \<Rightarrow> en
     | Some g \<Rightarrow> en\<lparr>en_cancelled := g # en_cancelled en, en_stop := None\<rparr>)"

definition restart_start :: "sim_config \<Rightarrow> string \<Rightarrow> engine \<Rightarrow> engine" where
  "restart_start cfg saleID en =
     (if saleID = [] then en
      else if \<not> anyOn cfg then en
      else let g = en_contexts en in
        en\<lparr>en_contexts := Suc g, en_stop := Some g,
           en_loops := en_loops en @ map (\<lambda>k. \<lparr>lp_kind = k, lp_sale = saleID, lp_ctx = g\<rparr>) (loop_kinds cfg)\<rparr>)"

definition restartWorkers :: "engine \<Rightarrow> engine" where
  "restartWorkers en = (let en1 = restart_stop en in restart_start (en_cfg en1) (en_saleID en1) en1)"

definition Update :: "sim_config \<Rightarrow> engine \<Rightarrow> engine" where
  "Update c en = restartWorkers (en\<lparr>en_cfg := c\<rparr>)"

section \<open>Requests\<close>

definition Milliseconds :: "int \<Rightarrow> int" where
  "Milliseconds d = go_div d (10 ^ 6)"

definition record_request :: "int \<Rightarrow> int \<Rightarrow> bool \<Rightarrow> engine \<Rightarrow> engine" where
  "record_request statusCode latency blocked en =
     (let st = en_stats en in en\<lparr>en_stats :=
        \<lparr>RequestsTotal = int64 (RequestsTotal st + 1),
         ErrorsTotal = (if 500 \<le> statusCode then int64 (ErrorsTotal st + 1) else ErrorsTotal st),
         BlockedTotal = (if blocked then int64 (BlockedTotal st + 1) else BlockedTotal st),
         LastLatencyMs = Milliseconds latency\<rparr>\<rparr>)"

definition json_type :: "string \<times> string" where
  "json_type = (''Content-Type'', ''application/json'')"

definition bearer :: "string \<Rightarrow> string \<times> string" where
  "bearer tok = (''Authorization'', ''Bearer '' @ tok)"

definition string_field :: "string \<Rightarrow> body \<Rightarrow> string" where
  "string_field k b = fst (decode_field decode_string [k] k (members b) [])"

text \<open>\<open>ck k\<close> is the \<open>k\<close>-th reading of the clock in the call.\<close>

definition registerFake :: "'s http_client \<Rightarrow> (nat \<Rightarrow> int) \<Rightarrow> string \<Rightarrow> engine \<times> 's \<Rightarrow> string \<times> engine \<times> 's" where
  "registerFake ask ck tag = (\<lambda>(en, s).
     let email = ''sim_'' @ tag @ ''_'' @ Itoa (int64 (ck 0)) @ ''@load.test'' in
     case ask \<lparr>hq_method = ''POST'', hq_url = en_baseURL en @ ''/v1/auth/register'', hq_headers = [json_type],
               hq_body = Some (J_Obj [(''email'', J_Str email), (''password'', J_Str ''testpass123'')])\<rparr> s of
       (None, s1) \<Rightarrow> ([], record_request 0 (ck 2 - ck 1) False en, s1)
     | (Some (status, b), s1) \<Rightarrow>
         let en1 = record_request status (ck 2 - ck 1) (status = 429) en in
         if status \<noteq> 201 \<and> status \<noteq> 200 then ([], en1, s1) else (string_field ''token'' b, en1, s1))"

definition join_req :: "engine \<Rightarrow> string \<Rightarrow> string \<Rightarrow> http_req" where
  "join_req en saleID tok = \<lparr>hq_method = ''POST'', hq_url = en_baseURL en @ ''/v1/sales/'' @ saleID @ ''/waiting-room/join'',
     hq_headers = [bearer tok], hq_body = None\<rparr>"

definition status_req :: "engine \<Rightarrow> string \<Rightarrow> string \<Rightarrow> http_req" where
  "status_req en saleID tok = \<lparr>hq_method = ''GET'', hq_url = en_baseURL en @ ''/v1/sales/'' @ saleID @ ''/waiting-room/status'',
     hq_headers = [bearer tok], hq_body = None\<rparr>"

definition checkout_http :: "engine \<Rightarrow> string \<Rightarrow> string \<Rightarrow> string \<Rightarrow> string \<Rightarrow> http_req" where
  "checkout_http en saleID tok holdID idem =
     \<lparr>hq_method = ''POST'', hq_url = en_baseURL en @ ''/v1/sales/'' @ saleID @ ''/checkout'',
      hq_headers = [json_type, bearer tok],
      hq_body = Some (J_Obj [(''hold_id'', J_Str holdID), (''idempotency_key'', J_Str idem)])\<rparr>"

definition doLaunchSpike :: "'s http_client \<Rightarrow> (nat \<Rightarrow> int) \<Rightarrow> string \<Rightarrow> engine \<times> 's \<Rightarrow> engine \<times> 's" where
  "doLaunchSpike ask ck saleID st =
     (case registerFake ask ck ''spike'' st of (tok, en, s) \<Rightarrow>
        if tok = [] then (en, s)
        else (case ask (join_req en saleID tok) s of
                (None, s1) \<Rightarrow> (record_request 0 (ck 4 - ck 3) False en, s1)
              | (Some (status, _), s1) \<Rightarrow>
                  (record_request status (ck 4 - ck 3) (status = 429 \<or> status = 503) en, s1)))"

definition doBackdoor :: "'s http_client \<Rightarrow> (nat \<Rightarrow> int) \<Rightarrow> string \<Rightarrow> engine \<times> 's \<Rightarrow> engine \<times> 's" where
  "doBackdoor ask ck saleID st =
     (case registerFake ask ck ''back'' st of (tok, en, s) \<Rightarrow>
      case ask (checkout_http en saleID tok ''fake'' ''x'') s of
        (None, s1) \<Rightarrow> (en, s1)
      | (Some (status, _), s1) \<Rightarrow> (record_request status (ck 4 - ck 3) (status = 403 \<or> status = 429) en, s1))"

definition doJoin :: "'s http_client \<Rightarrow> (nat \<Rightarrow> int) \<Rightarrow> string \<Rightarrow> string \<Rightarrow> engine \<times> 's \<Rightarrow> engine \<times> 's" where
  "doJoin ask ck saleID tag st =
     (case registerFake ask ck tag st of (tok, en, s) \<Rightarrow>
        if tok = [] then (en, s)
        else (case ask (join_req en saleID tok) s of
                (None, s1) \<Rightarrow> (en, s1)
              | (Some (status, _), s1) \<Rightarrow> (record_request status (ck 4 - ck 3) False en, s1)))"

definition doJoinOnce :: "'s http_client \<Rightarrow> string \<Rightarrow> string \<Rightarrow> engine \<times> 's \<Rightarrow> 's" where
  "doJoinOnce ask saleID tok = (\<lambda>(en, s). snd (ask (join_req en saleID tok) s))"

text \<open>The part that \<open>doRefresh\<close> and \<open>doReconnect\<close> (which sleeps before it) share.\<close>

definition ask_status :: "'s http_client \<Rightarrow> (nat \<Rightarrow> int) \<Rightarrow> string \<Rightarrow> string \<Rightarrow> engine \<times> 's \<Rightarrow> engine \<times> 's" where
  "ask_status ask ck saleID tok = (\<lambda>(en, s).
     case ask (status_req en saleID tok) s of
       (None, s1) \<Rightarrow> (en, s1)
     | (Some (status, _), s1) \<Rightarrow> (record_request status (ck 4 - ck 3) False en, s1))"

definition doRefresh :: "'s http_client \<Rightarrow> (nat \<Rightarrow> int) \<Rightarrow> string \<Rightarrow> engine \<times> 's \<Rightarrow> engine \<times> 's" where
  "doRefresh ask ck saleID st =
     (case registerFake ask ck ''refresh'' st of (tok, en, s) \<Rightarrow>
        if tok = [] then (en, s) else ask_status ask ck saleID tok (en, doJoinOnce ask saleID tok (en, s)))"

definition doReconnect :: "'s http_client \<Rightarrow> (nat \<Rightarrow> int) \<Rightarrow> string \<Rightarrow> engine \<times> 's \<Rightarrow> engine \<times> 's" where
  "doReconnect ask ck saleID st =
     (case registerFake ask ck ''reconn'' st of (tok, en, s) \<Rightarrow>
        if tok = [] then (en, s) else ask_status ask ck saleID tok (en, doJoinOnce ask saleID tok (en, s)))"

definition doScalper :: "'s http_client \<Rightarrow> (nat \<Rightarrow> int) \<Rightarrow> string \<Rightarrow> engine \<times> 's \<Rightarrow> engine \<times> 's" where
  "doScalper ask ck saleID st =
     (case registerFake ask ck ''scalper'' st of (tok, en, s) \<Rightarrow>
      case ask \<lparr>hq_method = ''POST'', hq_url = en_baseURL en @ ''/v1/tickets/transfer'',
                hq_headers = json_type # (if tok \<noteq> [] then [bearer tok] else []), hq_body = Some (J_Obj [])\<rparr> s of
        (None, s1) \<Rightarrow> (en, s1)
      | (Some (status, _), s1) \<Rightarrow>
          let en1 = record_request status (ck 4 - ck 3) (status = 403) en in
          (case ask (checkout_http en1 saleID tok ''x'' ''s'') s1 of
             (None, s2) \<Rightarrow> (en1, s2)
           | (Some (status2, _), s2) \<Rightarrow>
               (record_request status2 (ck 5 - ck 3) (status2 = 403 \<or> status2 = 429) en1, s2)))"

section \<open>Loops\<close>

definition loop_name :: "loop_kind \<Rightarrow> string" where
  "loop_name k = (case k of Loop_LaunchSpike \<Rightarrow> ''launch_spike'' | Loop_Backdoor \<Rightarrow> ''backdoor_race''
     | Loop_LateSurge \<Rightarrow> ''late_surge'' | Loop_Refresh \<Rightarrow> ''refresh_storm''
     | Loop_Reconnect \<Rightarrow> ''reconnect_churn'' | Loop_Scalper \<Rightarrow> ''scalper_bots'')"

definition loop_interval :: "loop_kind \<Rightarrow> int" where
  "loop_interval k = (case k of Loop_LaunchSpike \<Rightarrow> 50 | Loop_Backdoor \<Rightarrow> 200 | Loop_LateSurge \<Rightarrow> 100
     | Loop_Refresh \<Rightarrow> 30 | Loop_Reconnect \<Rightarrow> 500 | Loop_Scalper \<Rightarrow> 50) * 10 ^ 6"

definition loop_work :: "'s http_client \<Rightarrow> (nat \<Rightarrow> int) \<Rightarrow> sim_loop \<Rightarrow> engine \<times> 's \<Rightarrow> engine \<times> 's" where
  "loop_work ask ck lp = (case lp_kind lp of
       Loop_LaunchSpike \<Rightarrow> doLaunchSpike ask ck (lp_sale lp)
     | Loop_Backdoor \<Rightarrow> doBackdoor ask ck (lp_sale lp)
     | Loop_LateSurge \<Rightarrow> doJoin ask ck (lp_sale lp) ''late''
     | Loop_Refresh \<Rightarrow> doRefresh ask ck (lp_sale lp)
     | Loop_Reconnect \<Rightarrow> doReconnect ask ck (lp_sale lp)
     | Loop_Scalper \<Rightarrow> doScalper ask ck (lp_sale lp))"

definition count_pass :: "string \<Rightarrow> engine \<Rightarrow> engine" where
  "count_pass n en = en\<lparr>en_perScn := AList.update n (int64 (the (map_of (en_perScn en) n) + 1)) (en_perScn en)\<rparr>"

text \<open>One pass of a loop whose ticker has fired, and its return.\<close>

definition loop_tick :: "'s http_client \<Rightarrow> (nat \<Rightarrow> int) \<Rightarrow> sim_loop \<Rightarrow> engine \<times> 's \<Rightarrow> engine \<times> 's" where
  "loop_tick ask ck lp st = apfst (count_pass (loop_name (lp_kind lp))) (loop_work ask ck lp st)"

definition loop_return :: "sim_loop \<Rightarrow> engine \<Rightarrow> engine" where
  "loop_return lp en = en\<lparr>en_loops := remove1 lp (en_loops en)\<rparr>"

text \<open>
  A step of the engine. A loop whose context is cancelled may return, but \<open>select\<close> may also still
  choose its ticker.
\<close>

inductive sim_step :: "'s http_client \<Rightarrow> engine \<times> 's \<Rightarrow> engine \<times> 's \<Rightarrow> bool" for ask where
  step_tick: "lp \<in> set (en_loops en) \<Longrightarrow> sim_step ask (en, s) (loop_tick ask ck lp (en, s))"
| step_return: "lp \<in> set (en_loops en) \<Longrightarrow> lp_ctx lp \<in> set (en_cancelled en) \<Longrightarrow>
    sim_step ask (en, s) (loop_return lp en, s)"
| step_update: "sim_step ask (en, s) (Update c en, s)"
| step_sale: "sim_step ask (en, s) (SetSaleID i en, s)"
| step_outside: "sim_step ask (en, s) (en, s')"

section \<open>Setting up a sale\<close>

record sale_params =
  sp_TotalSeats :: int
  sp_AdmitPerMinute :: int
  sp_WaitingRoomCap :: int

definition defaultSaleParams :: sale_params where
  "defaultSaleParams = \<lparr>sp_TotalSeats = 500, sp_AdmitPerMinute = 6000, sp_WaitingRoomCap = 100000\<rparr>"

definition positive_params :: "sale_params \<Rightarrow> sale_params" where
  "positive_params p = \<lparr>sp_TotalSeats = positive_or 500 (sp_TotalSeats p),
     sp_AdmitPerMinute = positive_or 6000 (sp_AdmitPerMinute p),
     sp_WaitingRoomCap = positive_or 100000 (sp_WaitingRoomCap p)\<rparr>"

definition admin_post :: "engine \<Rightarrow> string \<Rightarrow> json \<Rightarrow> http_req" where
  "admin_post en path b = \<lparr>hq_method = ''POST'', hq_url = en_baseURL en @ path,
     hq_headers = [json_type, (''X-Admin-Key'', en_adminKey en)], hq_body = Some b\<rparr>"

definition event_json :: json where
  "event_json = J_Obj [(''name'', J_Str ''Live Demo Concert''), (''starts_at'', J_Str ''2026-12-01T20:00:00Z''),
     (''venue'', J_Str ''Arena'')]"

definition sale_json :: "string \<Rightarrow> int \<Rightarrow> int \<Rightarrow> sale_params \<Rightarrow> json" where
  "sale_json eventID opens ends p = J_Obj [(''admit_per_minute'', J_Int (sp_AdmitPerMinute p)),
     (''ends_at'', J_Str (Format False ends)), (''event_id'', J_Str eventID), (''opens_at'', J_Str (Format False opens)),
     (''total_seats'', J_Int (sp_TotalSeats p)), (''waiting_room_cap'', J_Int (sp_WaitingRoomCap p))]"

text \<open>The statuses of the two answers are not looked at, and a body that does not decode is the empty one.\<close>

definition SetupDemoWithParams ::
  "'s http_client \<Rightarrow> (nat \<Rightarrow> int) \<Rightarrow> sale_params \<Rightarrow> engine \<times> 's \<Rightarrow> string result \<times> engine \<times> 's" where
  "SetupDemoWithParams ask ck p0 = (\<lambda>(en, s).
     let p = positive_params p0 in
     case ask (admin_post en ''/v1/admin/events'' event_json) s of
       (None, s1) \<Rightarrow> (Inl HttpError, en, s1)
     | (Some (_, b), s1) \<Rightarrow>
         let eventID = string_field ''event_id'' b;
             opens = ck 0 - 2 * 60 * 10 ^ 9; ends = ck 1 + 24 * 3600 * 10 ^ 9
         in (case ask (admin_post en ''/v1/admin/sales'' (sale_json eventID opens ends p)) s1 of
               (None, s2) \<Rightarrow> (Inl HttpError, en, s2)
             | (Some (_, b2), s2) \<Rightarrow>
                 let saleID = string_field ''sale_id'' b2 in (Inr saleID, SetSaleID saleID en, s2)))"

definition SetupDemo :: "'s http_client \<Rightarrow> (nat \<Rightarrow> int) \<Rightarrow> engine \<times> 's \<Rightarrow> string result \<times> engine \<times> 's" where
  "SetupDemo ask ck st = SetupDemoWithParams ask ck defaultSaleParams st"

section \<open>What the requests do to the engine\<close>

text \<open>The counters after at most \<open>m\<close> requests, of which some were errors or blocked.\<close>

definition counted :: "nat \<Rightarrow> sim_stats \<Rightarrow> bool" where
  "counted m st \<longleftrightarrow> (\<exists>r e b. r \<le> m \<and> e \<le> r \<and> b \<le> r \<and> RequestsTotal st = int64 (int r)
     \<and> ErrorsTotal st = int64 (int e) \<and> BlockedTotal st = int64 (int b))"

lemma int64_add: "int64 (int64 x + y) = int64 (x + y)"
  by (simp add: int64_def mod_simps algebra_simps)

text \<open>An operation that sends at most \<open>n\<close> requests changes nothing but the counters.\<close>

definition sends :: "nat \<Rightarrow> engine \<Rightarrow> engine \<Rightarrow> bool" where
  "sends n en en' \<longleftrightarrow> en' = en\<lparr>en_stats := en_stats en'\<rparr> \<and> (\<forall>m. counted m (en_stats en) \<longrightarrow> counted (m + n) (en_stats en'))"

lemma counted_mono: "counted m st \<Longrightarrow> m \<le> k \<Longrightarrow> counted k st"
  unfolding counted_def by (meson order_trans)

lemma sends_refl [simp]: "sends n en en"
  by (simp add: sends_def counted_mono[OF _ le_add1])

lemma sends_trans: "sends n en en1 \<Longrightarrow> sends k en1 en2 \<Longrightarrow> sends (n + k) en en2"
  unfolding sends_def by (metis (no_types, lifting) engine.surjective engine.update_convs(6) add.assoc)

lemma sends_record [simp]: "sends (Suc 0) en (record_request status lat blocked en)"
proof -
  have "counted (Suc m) (en_stats (record_request status lat blocked en))" if c: "counted m (en_stats en)" for m
  proof -
    obtain r e b where st: "r \<le> m" "e \<le> r" "b \<le> r" "RequestsTotal (en_stats en) = int64 (int r)"
      "ErrorsTotal (en_stats en) = int64 (int e)" "BlockedTotal (en_stats en) = int64 (int b)"
      using c unfolding counted_def by blast
    have i: "int64 (int64 (int k) + 1) = int64 (int (Suc k))" for k using int64_add[of "int k" 1] by (simp add: add.commute)
    show ?thesis unfolding counted_def
      by (rule exI[of _ "Suc r"], rule exI[of _ "if 500 \<le> status then Suc e else e"],
          rule exI[of _ "if blocked then Suc b else b"])
        (use st in \<open>auto simp: record_request_def Let_def i\<close>)
  qed
  then show ?thesis by (simp add: sends_def record_request_def Let_def)
qed

lemma sends_weaken: "sends n en en' \<Longrightarrow> n \<le> k \<Longrightarrow> sends k en en'"
  using sends_trans[of n en en' "k - n" en'] by simp

lemma sends_then_record: "sends n en en1 \<Longrightarrow> sends (Suc n) en (record_request status lat blocked en1)"
  using sends_trans[OF _ sends_record] by simp

lemma registerFake_sends: "registerFake ask ck tag (en, s) = (tok, en', s') \<Longrightarrow> sends 1 en en'"
  by (auto simp: registerFake_def Let_def split: prod.splits option.splits if_splits)

text \<open>The work of a loop: at most three requests are counted.\<close>

lemma loop_work_sends: "sends 3 (fst st) (fst (loop_work ask ck lp st))"
proof -
  obtain en s where st: "st = (en, s)" by fastforce
  have reg: "sends 3 en en'" "sends 3 en (record_request x l b en')"
    "sends 3 en (record_request x2 l2 b2 (record_request x l b en'))"
    if "registerFake ask ck tag (en, s) = (tok, en', s')" for tag tok en' s' x l b x2 l2 b2
  proof -
    note r = registerFake_sends[OF that]
    show "sends 3 en en'" by (rule sends_weaken[OF r]) simp
    show "sends 3 en (record_request x l b en')" by (rule sends_weaken[OF sends_then_record[OF r]]) simp
    show "sends 3 en (record_request x2 l2 b2 (record_request x l b en'))"
      using sends_then_record[OF sends_then_record[OF r]] by (simp add: numeral_3_eq_3)
  qed
  show ?thesis
    unfolding st loop_work_def
    by (cases "lp_kind lp")
      (auto simp: doLaunchSpike_def doBackdoor_def doJoin_def doRefresh_def doReconnect_def doScalper_def
        ask_status_def Let_def reg split: prod.splits option.splits)
qed

lemma loop_tick_effect:
  assumes "loop_tick ask ck lp (en, s) = (en', s')"
  shows "sends 3 en (en'\<lparr>en_perScn := en_perScn en\<rparr>)"
    and "en_perScn en' = AList.update (loop_name (lp_kind lp)) (int64 (the (map_of (en_perScn en) (loop_name (lp_kind lp))) + 1)) (en_perScn en)"
proof -
  obtain en1 s1 where w: "loop_work ask ck lp (en, s) = (en1, s1)" by fastforce
  then have "sends 3 en en1" using loop_work_sends[of "(en, s)" ask ck lp] by simp
  moreover from this have p: "en_perScn en1 = en_perScn en" unfolding sends_def by (metis engine.select_convs(7) engine.surjective engine.update_convs(6))
  moreover have "en' = count_pass (loop_name (lp_kind lp)) en1" using assms w by (simp add: loop_tick_def)
  ultimately show "sends 3 en (en'\<lparr>en_perScn := en_perScn en\<rparr>)"
    and "en_perScn en' = AList.update (loop_name (lp_kind lp)) (int64 (the (map_of (en_perScn en) (loop_name (lp_kind lp))) + 1)) (en_perScn en)"
    by (simp_all add: count_pass_def p[symmetric])
qed

section \<open>The loops that run\<close>

definition live_loops :: "engine \<Rightarrow> sim_loop list" where
  "live_loops en = filter (\<lambda>lp. lp_ctx lp \<notin> set (en_cancelled en)) (en_loops en)"

text \<open>Between calls, the context that can be stopped is the only one with loops, those of the configuration.\<close>

definition loops_of :: "sim_config \<Rightarrow> string \<Rightarrow> nat \<Rightarrow> sim_loop list" where
  "loops_of c saleID g = map (\<lambda>k. \<lparr>lp_kind = k, lp_sale = saleID, lp_ctx = g\<rparr>) (loop_kinds c)"

definition sim_inv :: "engine \<Rightarrow> bool" where
  "sim_inv en \<longleftrightarrow> (\<forall>lp\<in>set (en_loops en). lp_ctx lp < en_contexts en)
     \<and> (\<forall>g\<in>set (en_cancelled en). g < en_contexts en)
     \<and> (case en_stop en of None \<Rightarrow> live_loops en = []
        | Some g \<Rightarrow> g < en_contexts en \<and> (\<exists>saleID. saleID \<noteq> [] \<and> live_loops en = loops_of (en_cfg en) saleID g))
     \<and> map fst (en_perScn en) = scenario_names \<and> map_of (en_perScn en) ''mixed_realistic'' = Some 0"

lemma sim_inv_new: "sim_inv (new_engine url key now)"
  by (simp add: sim_inv_def new_engine_def live_loops_def scenario_names_def)

lemma loops_of_ctx: "lp \<in> set (loops_of c i g) \<Longrightarrow> lp_ctx lp = g"
  by (auto simp: loops_of_def)

lemma restart_stop_live: "sim_inv en \<Longrightarrow> live_loops (restart_stop en) = []"
proof (cases "en_stop en")
  case (Some g)
  assume "sim_inv en"
  then obtain i where l: "live_loops en = loops_of (en_cfg en) i g" using Some by (auto simp: sim_inv_def)
  have "live_loops (restart_stop en) = filter (\<lambda>lp. lp_ctx lp \<noteq> g) (live_loops en)"
    using Some by (auto simp: restart_stop_def live_loops_def intro!: filter_cong)
  then show ?thesis using l by (auto simp: filter_empty_conv dest: loops_of_ctx)
qed (simp add: sim_inv_def restart_stop_def)

text \<open>The parts of a state that the invariant reads apart from its configuration.\<close>

lemma restart_stop_simps:
  "en_contexts (restart_stop en) = en_contexts en" "en_loops (restart_stop en) = en_loops en"
  "en_cfg (restart_stop en) = en_cfg en" "en_saleID (restart_stop en) = en_saleID en"
  "en_perScn (restart_stop en) = en_perScn en" "en_stop (restart_stop en) = None"
  "set (en_cancelled (restart_stop en)) = set (en_cancelled en) \<union> set_option (en_stop en)"
  by (simp_all add: restart_stop_def split: option.split)

lemma restart_start_live:
  assumes "\<forall>lp\<in>set (en_loops en). lp_ctx lp < en_contexts en" and "\<forall>g\<in>set (en_cancelled en). g < en_contexts en"
  shows "live_loops (restart_start c i en) = live_loops en @ (if i = [] \<or> \<not> anyOn c then [] else loops_of c i (en_contexts en))"
  using assms by (auto simp: restart_start_def Let_def live_loops_def loops_of_def filter_map comp_def)

lemma Update_inv:
  assumes "sim_inv en"
  shows "sim_inv (Update c en)"
    and "live_loops (Update c en) = (if en_saleID en = [] then [] else loops_of c (en_saleID en) (en_contexts en))"
proof -
  let ?en = "en\<lparr>en_cfg := c\<rparr>"
  let ?st = "restart_stop ?en"
  have "live_loops (restart_stop ?en) = live_loops (restart_stop en)"
    by (simp add: restart_stop_def live_loops_def split: option.split)
  then have l: "live_loops ?st = []" using restart_stop_live[OF assms] by simp
  have b: "\<forall>lp\<in>set (en_loops ?st). lp_ctx lp < en_contexts ?st" "\<forall>g\<in>set (en_cancelled ?st). g < en_contexts ?st"
    using assms by (auto simp: restart_stop_simps sim_inv_def split: option.splits)
  have off: "loops_of c i g = []" if "\<not> anyOn c" for i g using that by (simp add: loops_of_def loop_kinds_def anyOn_def)
  have u: "Update c en = restart_start c (en_saleID en) ?st"
    by (simp add: Update_def restartWorkers_def Let_def restart_stop_simps)
  show lv: "live_loops (Update c en) = (if en_saleID en = [] then [] else loops_of c (en_saleID en) (en_contexts en))"
    unfolding u restart_start_live[OF b] using l off by (simp add: restart_stop_simps)
  have ps: "map fst (en_perScn en) = scenario_names" "map_of (en_perScn en) ''mixed_realistic'' = Some 0"
    using assms by (simp_all add: sim_inv_def)
  have c: "en_cfg (Update c en) = c" "en_perScn (Update c en) = en_perScn en"
    by (simp_all add: u restart_start_def Let_def restart_stop_simps)
  show "sim_inv (Update c en)"
  proof (cases "en_saleID en = [] \<or> \<not> anyOn c")
    case True
    then have "Update c en = ?st" unfolding u by (auto simp: restart_start_def)
    then show ?thesis using b l ps by (simp add: sim_inv_def restart_stop_simps)
  next
    case False
    have s: "en_stop (Update c en) = Some (en_contexts en)" "en_contexts (Update c en) = Suc (en_contexts en)"
      "en_cancelled (Update c en) = en_cancelled ?st" "en_loops (Update c en) = en_loops ?st @ loops_of c (en_saleID en) (en_contexts en)"
      using False by (simp_all add: u restart_start_def Let_def restart_stop_simps loops_of_def)
    have "\<forall>lp\<in>set (en_loops (Update c en)). lp_ctx lp < Suc (en_contexts en)"
      using b(1) by (auto simp: s restart_stop_simps dest: loops_of_ctx)
    moreover have "\<forall>g\<in>set (en_cancelled (Update c en)). g < Suc (en_contexts en)"
      using b(2) by (auto simp: s restart_stop_simps less_Suc_eq)
    ultimately show ?thesis using False ps by (simp add: sim_inv_def s c lv) blast
  qed
qed

lemma filter_remove1: "\<not> p x \<Longrightarrow> filter p (remove1 x xs) = filter p xs"
  by (induction xs) auto

lemma loop_tick_inv:
  assumes "sim_inv en" and "loop_tick ask ck lp (en, s) = (en', s')"
  shows "sim_inv en'"
proof -
  note t = loop_tick_effect[OF assms(2)]
  have "en'\<lparr>en_perScn := en_perScn en\<rparr> = en\<lparr>en_stats := en_stats en'\<rparr>" using t(1) by (simp add: sends_def)
  then have same: "en_contexts en' = en_contexts en" "en_cancelled en' = en_cancelled en" "en_loops en' = en_loops en"
    "en_stop en' = en_stop en" "en_cfg en' = en_cfg en"
    by (metis engine.ext_inject engine.surjective engine.update_convs(6,7))+
  have n: "loop_name (lp_kind lp) \<in> set scenario_names" "loop_name (lp_kind lp) \<noteq> ''mixed_realistic''"
    by (cases "lp_kind lp"; simp add: loop_name_def scenario_names_def)+
  have "map fst (en_perScn en') = scenario_names"
    using assms(1) n(1) unfolding t(2) by (simp add: sim_inv_def update_keys)
  moreover have "map_of (en_perScn en') ''mixed_realistic'' = Some 0"
    using assms(1) n(2) unfolding t(2) by (simp add: sim_inv_def update_conv')
  ultimately show ?thesis using assms(1) by (simp add: sim_inv_def same live_loops_def split: option.splits)
qed

lemma sim_step_inv:
  assumes "sim_step ask (en, s) (en', s')" and "sim_inv en"
  shows "sim_inv en'"
  using assms(1)
proof (cases rule: sim_step.cases)
  case (step_tick lp ck)
  then show ?thesis using loop_tick_inv[OF assms(2)] by metis
next
  case (step_return lp)
  then have e: "en' = loop_return lp en" and c: "lp_ctx lp \<in> set (en_cancelled en)" by simp_all
  have l: "live_loops en' = live_loops en" using c by (simp add: e loop_return_def live_loops_def filter_remove1)
  have "set (en_loops en') \<subseteq> set (en_loops en)" by (simp add: e loop_return_def set_remove1_subset)
  then have b: "\<forall>lp\<in>set (en_loops en'). lp_ctx lp < en_contexts en" using assms(2) by (auto simp: sim_inv_def)
  show ?thesis using assms(2) b l by (simp add: sim_inv_def e loop_return_def split: option.splits)
next
  case (step_update c)
  then show ?thesis using Update_inv(1)[OF assms(2)] by simp
next
  case (step_sale i)
  then show ?thesis using assms(2) by (simp add: sim_inv_def SetSaleID_def live_loops_def cong: option.case_cong)
next
  case step_outside
  then show ?thesis using assms(2) by simp
qed

lemma sim_reach_inv:
  "(sim_step ask)\<^sup>*\<^sup>* (en, s) (en', s') \<Longrightarrow> sim_inv en \<Longrightarrow> sim_inv en'"
proof (induction rule: rtranclp_induct2)
  case (step en1 s1 en2 s2)
  then show ?case using sim_step_inv by metis
qed

section \<open>The properties of the engine\<close>


definition mixed :: sim_config where
  "mixed = all_off\<lparr>MixedRealistic := True\<rparr>"


lemma sim_steps_counted:
  "(sim_step ask ^^ n) (new_engine url key now, s) (en, s') \<Longrightarrow> counted (3 * n) (en_stats en)"
proof (induction n arbitrary: en s')
  case 0
  then have "en = new_engine url key now" by simp
  then show ?case by (auto simp: counted_def new_engine_def int64_def)
next
  case (Suc n)
  from Suc.prems obtain en1 s1 where p: "(sim_step ask ^^ n) (new_engine url key now, s) (en1, s1)" "sim_step ask (en1, s1) (en, s')"
    by auto
  have c: "counted (3 * n) (en_stats en1)" using Suc.IH p(1) by blast
  have w: "counted (3 * Suc n) (en_stats en1)" by (rule counted_mono[OF c]) simp
  from p(2) show ?case
  proof (cases rule: sim_step.cases)
    case (step_tick lp ck)
    then have "sends 3 en1 (en\<lparr>en_perScn := en_perScn en1\<rparr>)" using loop_tick_effect(1) by metis
    then show ?thesis using c by (auto simp: sends_def add.commute)
  next
    case (step_return lp)
    then show ?thesis using w by (simp add: loop_return_def)
  next
    case (step_update cfg)
    then show ?thesis using w
      by (simp add: Update_def restartWorkers_def restart_stop_def restart_start_def Let_def split: option.splits)
  next
    case (step_sale i)
    then show ?thesis using w by (simp add: SetSaleID_def)
  next
    case step_outside
    then show ?thesis using w by simp
  qed
qed

text \<open>
  The counters of the engine: after \<open>n\<close> steps, with fewer than $2^{63}$ requests, at most three
  requests were counted per step, and errors and blocked requests are among them.
\<close>

theorem engine_counts:
  assumes "(sim_step ask ^^ n) (new_engine url key now, s) (en, s')" and "3 * int n < 2 ^ 63"
  shows "0 \<le> ErrorsTotal (en_stats en) \<and> ErrorsTotal (en_stats en) \<le> RequestsTotal (en_stats en)
    \<and> 0 \<le> BlockedTotal (en_stats en) \<and> BlockedTotal (en_stats en) \<le> RequestsTotal (en_stats en)
    \<and> RequestsTotal (en_stats en) \<le> 3 * int n"
proof -
  obtain r e b where c: "r \<le> 3 * n" "e \<le> r" "b \<le> r" "RequestsTotal (en_stats en) = int64 (int r)"
    "ErrorsTotal (en_stats en) = int64 (int e)" "BlockedTotal (en_stats en) = int64 (int b)"
    using sim_steps_counted[OF assms(1)] unfolding counted_def by blast
  have "int64 (int k) = int k" if "k \<le> 3 * n" for k
    using that assms(2) by (intro int64_id) (simp add: in_int64_def)
  then show ?thesis using c by simp
qed

lemma engine_counts_witness:
  "BlockedTotal (en_stats (SetSaleID ''A'' (new_engine [] [] 0))) \<le> 3"
proof -
  have "(sim_step (\<lambda>r (s::unit). (None, s)) ^^ 1) (new_engine [] [] 0, ()) (SetSaleID ''A'' (new_engine [] [] 0), ())"
    by (simp only: relpowp_1) (rule step_sale)
  from engine_counts[OF this] show ?thesis by simp
qed

section \<open>Updates that overlap\<close>

text \<open>
  \<open>Update\<close> holds the lock only while it stores the configuration and again while it reads the settings;
  \<open>stop\<close> is not protected. Here requests to change the configuration are interleaved between its parts.
\<close>

datatype update_pc = U_Begin sim_config | U_Stop | U_Read | U_Start sim_config string | U_Done

inductive update_step :: "update_pc list \<times> engine \<Rightarrow> update_pc list \<times> engine \<Rightarrow> bool" where
  u_begin: "i < length pcs \<Longrightarrow> pcs ! i = U_Begin c \<Longrightarrow> update_step (pcs, en) (pcs[i := U_Stop], en\<lparr>en_cfg := c\<rparr>)"
| u_stop: "i < length pcs \<Longrightarrow> pcs ! i = U_Stop \<Longrightarrow> update_step (pcs, en) (pcs[i := U_Read], restart_stop en)"
| u_read: "i < length pcs \<Longrightarrow> pcs ! i = U_Read \<Longrightarrow> update_step (pcs, en) (pcs[i := U_Start (en_cfg en) (en_saleID en)], en)"
| u_start: "i < length pcs \<Longrightarrow> pcs ! i = U_Start c s \<Longrightarrow> update_step (pcs, en) (pcs[i := U_Done], restart_start c s en)"

lemma run_of_steps4: "r a b \<Longrightarrow> r b c \<Longrightarrow> r c d \<Longrightarrow> r d e \<Longrightarrow> r\<^sup>*\<^sup>* a e"
  by (blast intro: converse_rtranclp_into_rtranclp)

text \<open>One request alone is \<open>Update\<close>.\<close>

lemma update_alone: "update_step\<^sup>*\<^sup>* ([U_Begin c], en) ([U_Done], Update c en)"
proof -
  let ?e1 = "en\<lparr>en_cfg := c\<rparr>"
  let ?e2 = "restart_stop ?e1"
  have s1: "update_step ([U_Begin c], en) ([U_Stop], ?e1)" using u_begin[of 0 "[U_Begin c]"] by simp
  have s2: "update_step ([U_Stop], ?e1) ([U_Read], ?e2)" using u_stop[of 0 "[U_Stop]"] by simp
  have s3: "update_step ([U_Read], ?e2) ([U_Start (en_cfg ?e2) (en_saleID ?e2)], ?e2)" using u_read[of 0 "[U_Read]"] by simp
  have s4: "update_step ([U_Start (en_cfg ?e2) (en_saleID ?e2)], ?e2) ([U_Done], Update c en)"
    using u_start[of 0 "[U_Start (en_cfg ?e2) (en_saleID ?e2)]"] by (simp add: Update_def restartWorkers_def Let_def)
  show ?thesis
    by (rule run_of_steps4[where r = update_step, OF s1 s2 s3 s4])
qed

text \<open>A loop that no call can stop any more.\<close>

definition leaked :: "engine \<Rightarrow> sim_loop \<Rightarrow> bool" where
  "leaked en lp \<longleftrightarrow> lp \<in> set (live_loops en) \<and> en_stop en \<noteq> Some (lp_ctx lp) \<and> lp_ctx lp < en_contexts en"

lemma leaked_Update: "leaked en lp \<Longrightarrow> leaked (Update c en) lp"
  by (auto simp: leaked_def live_loops_def Update_def restartWorkers_def restart_stop_def restart_start_def Let_def split: option.splits)

lemma leaked_Updates: "leaked en lp \<Longrightarrow> leaked (fold Update cs en) lp"
  by (induction cs arbitrary: en) (auto intro: leaked_Update)

text \<open>
  C34. Two overlapping changes of the configuration can leave loops behind that no later change stops, not
  even one that switches every scenario off: both have cancelled the old context before either stores its
  new one, and the second overwrites the first's.
\<close>

theorem overlapping_updates_leak_loops:
  assumes "sim_inv en" and "en_saleID en \<noteq> []" and "anyOn c2"
  shows "\<exists>en' lp. update_step\<^sup>*\<^sup>* ([U_Begin c1, U_Begin c2], en) ([U_Done, U_Done], en')
    \<and> (\<forall>cs. lp \<in> set (live_loops (fold Update cs en')))"
proof -
  let ?e1 = "en\<lparr>en_cfg := c2\<rparr>"
  let ?e2 = "restart_stop ?e1"
  let ?e3 = "restart_stop ?e2"
  let ?s = "U_Start c2 (en_saleID en)"
  let ?e4 = "restart_start c2 (en_saleID en) ?e3"
  let ?e5 = "restart_start c2 (en_saleID en) ?e4"
  let ?lp = "\<lparr>lp_kind = hd (loop_kinds c2), lp_sale = en_saleID en, lp_ctx = en_contexts en\<rparr>"
  have f: "en_cfg ?e3 = c2" "en_saleID ?e3 = en_saleID en" by (simp_all add: restart_stop_simps)
  have s1: "update_step ([U_Begin c1, U_Begin c2], en) ([U_Stop, U_Begin c2], en\<lparr>en_cfg := c1\<rparr>)"
    using u_begin[of 0 "[U_Begin c1, U_Begin c2]"] by simp
  have s2: "update_step ([U_Stop, U_Begin c2], en\<lparr>en_cfg := c1\<rparr>) ([U_Stop, U_Stop], ?e1)"
    using u_begin[of 1 "[U_Stop, U_Begin c2]" c2 "en\<lparr>en_cfg := c1\<rparr>"] by simp
  have s3: "update_step ([U_Stop, U_Stop], ?e1) ([U_Read, U_Stop], ?e2)" using u_stop[of 0 "[U_Stop, U_Stop]"] by simp
  have s4: "update_step ([U_Read, U_Stop], ?e2) ([U_Read, U_Read], ?e3)" using u_stop[of 1 "[U_Read, U_Stop]" ?e2] by simp
  have s5: "update_step ([U_Read, U_Read], ?e3) ([?s, U_Read], ?e3)" using u_read[of 0 "[U_Read, U_Read]" ?e3] f by simp
  have s6: "update_step ([?s, U_Read], ?e3) ([?s, ?s], ?e3)" using u_read[of 1 "[?s, U_Read]" ?e3] f by simp
  have s7: "update_step ([?s, ?s], ?e3) ([U_Done, ?s], ?e4)" using u_start[of 0 "[?s, ?s]"] by simp
  have s8: "update_step ([U_Done, ?s], ?e4) ([U_Done, U_Done], ?e5)" using u_start[of 1 "[U_Done, ?s]" c2 "en_saleID en" ?e4] by simp
  have run: "update_step\<^sup>*\<^sup>* ([U_Begin c1, U_Begin c2], en) ([U_Done, U_Done], ?e5)"
    by (rule rtranclp_trans[OF run_of_steps4[where r = update_step, OF s1 s2 s3 s4] run_of_steps4[where r = update_step, OF s5 s6 s7 s8]])
  have "loop_kinds c2 \<noteq> []" using assms(3) by (auto simp: anyOn_def loop_kinds_def)
  moreover have "\<forall>g\<in>set (en_cancelled ?e3). g < en_contexts en"
    using assms(1) by (auto simp: restart_stop_simps sim_inv_def split: option.splits)
  ultimately have "leaked ?e5 ?lp"
    using assms(2,3) by (auto simp: leaked_def live_loops_def restart_start_def Let_def restart_stop_simps)
  from leaked_Updates[OF this] have "\<forall>cs. ?lp \<in> set (live_loops (fold Update cs ?e5))" by (simp add: leaked_def)
  with run show ?thesis by blast
qed

lemma overlapping_updates_leak_loops_witness:
  "\<exists>en' lp. update_step\<^sup>*\<^sup>* ([U_Begin mixed, U_Begin mixed], SetSaleID ''A'' (new_engine [] [] 0)) ([U_Done, U_Done], en')
    \<and> lp \<in> set (live_loops (Update all_off en'))"
proof -
  have "sim_inv (SetSaleID ''A'' (new_engine [] [] 0))"
    using sim_inv_new[of "[]" "[]" 0] by (simp add: sim_inv_def SetSaleID_def live_loops_def new_engine_def)
  from overlapping_updates_leak_loops[OF this, of mixed mixed] obtain en' lp where
    "update_step\<^sup>*\<^sup>* ([U_Begin mixed, U_Begin mixed], SetSaleID ''A'' (new_engine [] [] 0)) ([U_Done, U_Done], en')"
    "\<forall>cs. lp \<in> set (live_loops (fold Update cs en'))"
    by (auto simp: SetSaleID_def mixed_def anyOn_def)
  from this(1) this(2)[rule_format, of "[all_off]"] show ?thesis by auto
qed

end
