(* ===== verification/Dashboard.thy ===== *)
theory Dashboard
  imports Complex_Main Waitingroom Simulation
begin

text \<open>
  \<open>internal/dashboard/stats.go\<close>: the numbers of the demo page, from the database, Redis and the engine.
  Rates are exact rational numbers where the code computes with \<open>float64\<close>.
\<close>

record live_stats =
  lv_Timestamp :: int
  lv_SaleID :: string
  lv_QueueDepth :: int
  lv_NextAdmitPos :: int
  lv_AdmittedCount :: int
  lv_TicketsSold :: int
  lv_UniqueBuyers :: int
  lv_ActiveHolds :: int
  lv_AvailableSeats :: int
  lv_Simulation :: sim_snapshot
  lv_Health :: string
  lv_ErrorRatePct :: rat
  lv_RequestsPerSec :: rat
  lv_LastLatencyMs :: int

definition error_rate :: "sim_stats \<Rightarrow> rat" where
  "error_rate st = (if 0 < RequestsTotal st
     then of_int (ErrorsTotal st) / of_int (RequestsTotal st) * 100 else 0)"

definition request_rate :: "int \<Rightarrow> sim_stats \<Rightarrow> rat" where
  "request_rate since st =
     (if 0 < RequestsTotal st
      then let elapsed = (of_int since / 10 ^ 9 :: rat)
           in of_int (RequestsTotal st) / (if elapsed < 1 then 1 else elapsed)
      else 0)"

definition health :: "rat \<Rightarrow> rat \<Rightarrow> string" where
  "health perSec errPct =
     (let h1 = (if 500 < perSec then ''under_load'' else ''healthy'')
      in if 5 < errPct then ''degraded'' else h1)"

text \<open>\<open>COALESCE(MAX(position), 0)\<close>\<close>

definition max_position :: "queue_row list \<Rightarrow> int" where
  "max_position rows = (case rows of [] \<Rightarrow> 0 | q # qs \<Rightarrow> fold (\<lambda>r m. max (q_position r) m) qs (q_position q))"

definition sql_value :: "bool \<Rightarrow> int \<Rightarrow> int result" where
  "sql_value flt v = (if flt then Inl SqlFault else Inr v)"

text \<open>A failed query leaves its number at zero; so does any error of Redis. \<open>Live\<close> itself never fails.\<close>

definition Live :: "'r redis_api \<Rightarrow> env \<Rightarrow> string \<Rightarrow> engine \<Rightarrow> 'r world \<Rightarrow> live_stats result" where
  "Live R e saleID sim w =
     (let snap = StatsSnapshot sim; st = ss_stats snap; d = dbs w;
          errPct = error_rate st; perSec = request_rate (go_now e - en_startedAt sim) st
      in Inr \<lparr>lv_Timestamp = go_now e, lv_SaleID = saleID,
         lv_QueueDepth = scan_or 0 (sql_value (sql_fault e 0)
            (max_position (filter (\<lambda>q. q_sale_id q = saleID) (queue_entries d)))),
         lv_NextAdmitPos = (case r_get R (redis_now e) (NextAdmit (Keys saleID)) (redis w) of
            Inr (Some n) \<Rightarrow> n | _ \<Rightarrow> 0),
         lv_AdmittedCount = scan_or 0 (query_count (sql_fault e 1)
            (\<lambda>q. q_sale_id q = saleID \<and> q_admitted_at q \<noteq> None) (queue_entries d)),
         lv_TicketsSold = scan_or 0 (query_count (sql_fault e 2) (\<lambda>t. t_sale_id t = saleID) (tickets d)),
         lv_UniqueBuyers = scan_or 0 (sql_value (sql_fault e 3)
            (int (length (remdups (map t_user_id (filter (\<lambda>t. t_sale_id t = saleID) (tickets d))))))),
         lv_ActiveHolds = scan_or 0 (query_count (sql_fault e 4)
            (\<lambda>h. h_sale_id h = saleID \<and> sql_now e < h_expires_at h) (holds d)),
         lv_AvailableSeats = scan_or 0 (query_count (sql_fault e 5)
            (\<lambda>s. st_sale_id s = saleID \<and> st_status s = Available) (seats d)),
         lv_Simulation = snap, lv_Health = health perSec errPct, lv_ErrorRatePct = errPct,
         lv_RequestsPerSec = perSec, lv_LastLatencyMs = (LastLatencyMs st)\<rparr>)"

section \<open>What the numbers say\<close>

lemma max_position_ge: "q \<in> set rows \<Longrightarrow> q_position q \<le> max_position rows"
proof -
  have f: "m \<le> fold (\<lambda>r m. max (q_position r) m) qs m \<and> (\<forall>q\<in>set qs. q_position q \<le> fold (\<lambda>r m. max (q_position r) m) qs m)"
    for qs m by (induction qs arbitrary: m) (auto simp: max_def intro: order_trans, (smt (verit) max_def)+)
  show "q \<in> set rows \<Longrightarrow> q_position q \<le> max_position rows"
    using f by (cases rows) (auto simp: max_position_def)
qed

lemma max_position_le: "(\<And>q. q \<in> set rows \<Longrightarrow> q_position q \<le> b) \<Longrightarrow> 0 \<le> b \<Longrightarrow> max_position rows \<le> b"
proof -
  have f: "m \<le> b \<Longrightarrow> \<forall>q\<in>set qs. q_position q \<le> b \<Longrightarrow> fold (\<lambda>r m. max (q_position r) m) qs m \<le> b" for qs m
    by (induction qs arbitrary: m) auto
  show "(\<And>q. q \<in> set rows \<Longrightarrow> q_position q \<le> b) \<Longrightarrow> 0 \<le> b \<Longrightarrow> max_position rows \<le> b"
    using f by (cases rows) (auto simp: max_position_def)
qed

text \<open>Distinct positive positions: there are no more entries than the largest of them.\<close>

lemma entries_le_max_position:
  assumes "distinct (map q_position rows)" and "\<forall>q\<in>set rows. 1 \<le> q_position q"
  shows "int (length rows) \<le> max_position rows"
proof (cases rows)
  case Nil
  then show ?thesis by (simp add: max_position_def)
next
  case (Cons q qs)
  have "0 \<le> max_position rows" using max_position_ge[of q rows] assms(2) Cons by auto
  have "q_position ` set rows \<subseteq> {1..max_position rows}" using assms(2) max_position_ge by auto
  then have "card (q_position ` set rows) \<le> card {1..max_position rows}" by (intro card_mono) simp_all
  moreover have "card (q_position ` set rows) = length rows" using distinct_card[OF assms(1)] by simp
  ultimately show ?thesis using \<open>0 \<le> max_position rows\<close> by simp
qed

lemma filter_and_le: "length (filter (\<lambda>x. P x \<and> Q x) xs) \<le> length (filter P xs)"
  by (induction xs) auto

lemma error_rate_bounds:
  assumes "0 \<le> ErrorsTotal st" and "ErrorsTotal st \<le> RequestsTotal st"
  shows "0 \<le> error_rate st \<and> error_rate st \<le> 100"
proof (cases "0 < RequestsTotal st")
  case True
  then have "0 < (of_int (RequestsTotal st) :: rat)" "(of_int (ErrorsTotal st) :: rat) \<le> of_int (RequestsTotal st)"
    "0 \<le> (of_int (ErrorsTotal st) :: rat)"
    using assms by simp_all
  then show ?thesis using True by (simp add: error_rate_def divide_le_eq)
qed (simp add: error_rate_def)



end
