(* ===== verification/Store.thy ===== *)
theory Store
  imports Loadtest
begin

text \<open>
  \<open>internal/loadtest/store.go\<close>: jobs and results as files of two directories that the API and the runner
  share. Jobs with one creation time keep the order of their names (\<open>sort.Slice\<close> promises none). A directory is
  the list of its entries, \<open>None\<close> when it does not exist; a file is the JSON value
  its bytes parse to, \<open>None\<close> when they do not parse. Run identifiers contain no slash, as the ones
  \<open>uuid\<close> generates.
\<close>

section \<open>The file system\<close>

datatype dir = Jobs | Results

datatype fnode = F_File body | F_Dir

type_synonym files = "dir \<Rightarrow> (string \<times> fnode) list option"

text \<open>Which operations of a call fail (each operation on one path either way), and the clock.\<close>

datatype fs_op =
    Op_Mkdir dir | Op_ReadDir dir | Op_Read dir string | Op_Stat dir string
  | Op_Write dir string | Op_Rename dir string | Op_Remove dir string

record fs_env =
  fs_now :: int
  fs_fault :: "fs_op \<Rightarrow> bool"
  fs_torn :: bool                \<comment> \<open>a failing write leaves a part of the file\<close>

definition no_fs_faults :: "fs_env \<Rightarrow> bool" where
  "no_fs_faults e \<longleftrightarrow> fs_fault e = (\<lambda>_. False)"

lemma no_fs_faultsD [simp]: "no_fs_faults e \<Longrightarrow> fs_fault e p = False"
  by (simp add: no_fs_faults_def)

definition calm_fs :: "int \<Rightarrow> fs_env" where
  "calm_fs t = \<lparr>fs_now = t, fs_fault = (\<lambda>_. False), fs_torn = False\<rparr>"

lemma calm_fs_simps [simp]: "fs_now (calm_fs t) = t" "fs_fault (calm_fs t) p = False" "no_fs_faults (calm_fs t)"
  by (simp_all add: calm_fs_def no_fs_faults_def)

definition entries :: "files \<Rightarrow> dir \<Rightarrow> (string \<times> fnode) list" where
  "entries fs D = (case fs D of None \<Rightarrow> [] | Some xs \<Rightarrow> xs)"

definition lookup :: "files \<Rightarrow> dir \<Rightarrow> string \<Rightarrow> fnode option" where
  "lookup fs D name = map_of (entries fs D) name"

definition put :: "dir \<Rightarrow> string \<Rightarrow> fnode \<Rightarrow> files \<Rightarrow> files" where
  "put D name n fs = fs(D := Some (AList.update name n (entries fs D)))"

definition drop_entry :: "dir \<Rightarrow> string \<Rightarrow> files \<Rightarrow> files" where
  "drop_entry D name fs = fs(D := map_option (AList.delete name) (fs D))"

definition MkdirAll :: "fs_env \<Rightarrow> dir \<Rightarrow> files \<Rightarrow> unit result \<times> files" where
  "MkdirAll e D fs = (if fs_fault e (Op_Mkdir D) then (Inl FileError, fs) else (Inr (), fs(D := Some (entries fs D))))"

definition ReadFile :: "fs_env \<Rightarrow> dir \<Rightarrow> string \<Rightarrow> files \<Rightarrow> body result" where
  "ReadFile e D name fs =
     (if fs_fault e (Op_Read D name) then Inl FileError
      else case lookup fs D name of None \<Rightarrow> Inl ErrNotExist | Some F_Dir \<Rightarrow> Inl FileError | Some (F_File b) \<Rightarrow> Inr b)"

definition WriteFile :: "fs_env \<Rightarrow> dir \<Rightarrow> string \<Rightarrow> body \<Rightarrow> files \<Rightarrow> unit result \<times> files" where
  "WriteFile e D name b fs =
     (if fs D = None then (Inl ErrNotExist, fs)
      else if lookup fs D name = Some F_Dir then (Inl FileError, fs)
      else if fs_fault e (Op_Write D name)
      then (Inl FileError, if fs_torn e then put D name (F_File None) fs else fs)
      else (Inr (), put D name (F_File b) fs))"

definition Rename :: "fs_env \<Rightarrow> dir \<Rightarrow> string \<Rightarrow> string \<Rightarrow> files \<Rightarrow> unit result \<times> files" where
  "Rename e D old new fs =
     (if fs_fault e (Op_Rename D old) \<or> lookup fs D new = Some F_Dir then (Inl FileError, fs)
      else case lookup fs D old of None \<Rightarrow> (Inl ErrNotExist, fs)
        | Some n \<Rightarrow> (Inr (), put D new n (drop_entry D old fs)))"

definition Remove :: "fs_env \<Rightarrow> dir \<Rightarrow> string \<Rightarrow> files \<Rightarrow> files" where
  "Remove e D name fs = (if fs_fault e (Op_Remove D name) then fs else drop_entry D name fs)"

text \<open>\<open>os.ReadDir\<close> answers the entries in the order of their names.\<close>

definition ReadDir :: "fs_env \<Rightarrow> dir \<Rightarrow> files \<Rightarrow> (string \<times> fnode) list result" where
  "ReadDir e D fs =
     (if fs_fault e (Op_ReadDir D) then Inl FileError
      else case fs D of None \<Rightarrow> Inl ErrNotExist | Some xs \<Rightarrow> Inr (sort_key fst xs))"

section \<open>The store\<close>

definition EnsureDirs :: "fs_env \<Rightarrow> files \<Rightarrow> unit result \<times> files" where
  "EnsureDirs e fs =
     (case MkdirAll e Jobs fs of (Inl err, fs1) \<Rightarrow> (Inl err, fs1) | (Inr _, fs1) \<Rightarrow> MkdirAll e Results fs1)"

definition json_name :: "string \<Rightarrow> string" where
  "json_name runID = runID @ ''.json''"

text \<open>What \<open>WriteJob\<close> and \<open>WriteResult\<close> do: a temporary file, then a rename.\<close>

definition write_json :: "fs_env \<Rightarrow> dir \<Rightarrow> string \<Rightarrow> json option \<Rightarrow> files \<Rightarrow> unit result \<times> files" where
  "write_json e D runID v fs =
     (case EnsureDirs e fs of (Inl err, fs1) \<Rightarrow> (Inl err, fs1)
      | (Inr _, fs1) \<Rightarrow>
        (case v of None \<Rightarrow> (Inl JsonError, fs1)
         | Some j \<Rightarrow>
           let path = json_name runID; tmp = path @ ''.tmp'' in
           (case WriteFile e D tmp (Some j) fs1 of (Inl err, fs2) \<Rightarrow> (Inl err, fs2)
            | (Inr _, fs2) \<Rightarrow> Rename e D tmp path fs2)))"

definition WriteJob :: "fs_env \<Rightarrow> job \<Rightarrow> files \<Rightarrow> unit result \<times> files" where
  "WriteJob e j fs = write_json e Jobs (jb_RunID j) (encode_job j) fs"

definition WriteResult :: "fs_env \<Rightarrow> run_result \<Rightarrow> files \<Rightarrow> unit result \<times> files" where
  "WriteResult e r fs = write_json e Results (rs_RunID r) (encode_result r) fs"

definition ReadJob :: "fs_env \<Rightarrow> string \<Rightarrow> files \<Rightarrow> job result" where
  "ReadJob e runID fs =
     (case ReadFile e Jobs (json_name runID) fs of Inl err \<Rightarrow> Inl err
      | Inr b \<Rightarrow> (case decode_job b of (j, ok) \<Rightarrow> if ok then Inr j else Inl JsonError))"

definition ReadResult :: "fs_env \<Rightarrow> string \<Rightarrow> files \<Rightarrow> run_result result" where
  "ReadResult e runID fs =
     (case ReadFile e Results (json_name runID) fs of Inl err \<Rightarrow> Inl err
      | Inr b \<Rightarrow> (case decode_result b of (r, ok) \<Rightarrow> if ok then Inr r else Inl JsonError))"

definition HasResult :: "fs_env \<Rightarrow> string \<Rightarrow> files \<Rightarrow> bool" where
  "HasResult e runID fs \<longleftrightarrow> \<not> fs_fault e (Op_Stat Results (json_name runID)) \<and> lookup fs Results (json_name runID) \<noteq> None"

definition WriteRunning :: "fs_env \<Rightarrow> string \<Rightarrow> files \<Rightarrow> unit result \<times> files" where
  "WriteRunning e runID fs =
     WriteResult e (no_result\<lparr>rs_RunID := runID, rs_Status := StatusRunning, rs_StartedAt := Some (fs_now e)\<rparr>) fs"

definition isJobClaimed :: "fs_env \<Rightarrow> string \<Rightarrow> files \<Rightarrow> bool" where
  "isJobClaimed e runID fs =
     (case ReadResult e runID fs of Inl _ \<Rightarrow> False
      | Inr r \<Rightarrow> rs_Status r = StatusRunning \<or> rs_Status r = StatusPassed
                \<or> rs_Status r = StatusFailed \<or> rs_Status r = StatusError)"

text \<open>The identifiers of the entries that the loops over a directory look at.\<close>

definition run_of :: "string \<times> fnode \<Rightarrow> string option" where
  "run_of en = (if snd en = F_Dir \<or> \<not> suffix ''.json'' (fst en) then None
     else Some (take (length (fst en) - 5) (fst en)))"

definition runs_of :: "(string \<times> fnode) list \<Rightarrow> string list" where
  "runs_of es = List.map_filter run_of es"

definition ok_results :: "'a result list \<Rightarrow> 'a list" where
  "ok_results rs = List.map_filter (\<lambda>r. case r of Inl _ \<Rightarrow> None | Inr x \<Rightarrow> Some x) rs"

definition ListPendingJobs :: "fs_env \<Rightarrow> files \<Rightarrow> job list result \<times> files" where
  "ListPendingJobs e fs0 =
     (case EnsureDirs e fs0 of (Inl err, fs) \<Rightarrow> (Inl err, fs)
      | (Inr _, fs) \<Rightarrow>
        ((case ReadDir e Jobs fs of Inl err \<Rightarrow> Inl err
          | Inr es \<Rightarrow> Inr (sort_key jb_CreatedAt (ok_results
              (map (\<lambda>i. ReadJob e i fs) (filter (\<lambda>i. \<not> isJobClaimed e i fs)
                 (runs_of (filter (\<lambda>en. \<not> suffix ''.tmp'' (fst en)) es))))))), fs))"

definition stale_after :: int where
  "stale_after = 45 * 60 * 10 ^ 9"

definition fresh_running :: "int \<Rightarrow> run_result \<Rightarrow> bool" where
  "fresh_running now r \<longleftrightarrow> rs_Status r = StatusRunning
     \<and> \<not> (case rs_StartedAt r of None \<Rightarrow> False | Some t \<Rightarrow> stale_after < now - t)"

definition CountActive :: "fs_env \<Rightarrow> files \<Rightarrow> (int \<times> int) result \<times> files" where
  "CountActive e fs0 =
     (case EnsureDirs e fs0 of (Inl err, fs1) \<Rightarrow> (Inl err, fs1)
      | (Inr _, fs1) \<Rightarrow>
        (case ListPendingJobs e fs1 of (Inl err, fs) \<Rightarrow> (Inl err, fs)
         | (Inr jobs, fs) \<Rightarrow>
           ((case ReadDir e Results fs of Inl err \<Rightarrow> Inl err
             | Inr es \<Rightarrow> Inr (int (length jobs), int (length (filter (fresh_running (fs_now e))
                  (ok_results (map (\<lambda>i. ReadResult e i fs) (runs_of es))))))), fs)))"

definition HasRunning :: "fs_env \<Rightarrow> files \<Rightarrow> bool result \<times> files" where
  "HasRunning e fs0 = (case CountActive e fs0 of (r, fs) \<Rightarrow>
     (case r of Inl err \<Rightarrow> Inl err | Inr (_, running) \<Rightarrow> Inr (0 < running), fs))"

definition GetStatus :: "fs_env \<Rightarrow> string \<Rightarrow> files \<Rightarrow> run_result result" where
  "GetStatus e runID fs =
     (case ReadResult e runID fs of
        Inr r \<Rightarrow>
          Inr (if rs_Status r = StatusRunning
                  \<and> (case rs_StartedAt r of None \<Rightarrow> False | Some t \<Rightarrow> stale_after < fs_now e - t)
               then r\<lparr>rs_Status := StatusError, rs_Error := ''run timed out (stale running state)''\<rparr> else r)
      | Inl _ \<Rightarrow>
          (case ReadJob e runID fs of
             Inr _ \<Rightarrow> Inr (no_result\<lparr>rs_RunID := runID, rs_Status := StatusQueued\<rparr>)
           | Inl _ \<Rightarrow> Inl ErrNotExist))"

text \<open>The markers that \<open>CleanStaleRunning\<close> removes; a failed removal is counted all the same.\<close>

definition abandoned :: "int \<Rightarrow> int \<Rightarrow> run_result \<Rightarrow> bool" where
  "abandoned now maxAge r \<longleftrightarrow> rs_Status r = StatusRunning
     \<and> \<not> (case rs_StartedAt r of None \<Rightarrow> False | Some t \<Rightarrow> now - t < maxAge)
     \<and> rs_FinishedAt r = None"

fun clean_loop :: "fs_env \<Rightarrow> int \<Rightarrow> string list \<Rightarrow> int \<Rightarrow> files \<Rightarrow> int \<times> files" where
  "clean_loop e maxAge [] removed fs = (removed, fs)"
| "clean_loop e maxAge (i # ids) removed fs =
     (case ReadResult e i fs of
        Inl _ \<Rightarrow> clean_loop e maxAge ids removed fs
      | Inr r \<Rightarrow>
          if \<not> abandoned (fs_now e) maxAge r then clean_loop e maxAge ids removed fs
          else clean_loop e maxAge ids (removed + 1) (Remove e Results (json_name i) fs))"

definition CleanStaleRunning :: "fs_env \<Rightarrow> int \<Rightarrow> files \<Rightarrow> int result \<times> files" where
  "CleanStaleRunning e maxAge fs =
     (case ReadDir e Results fs of Inl err \<Rightarrow> (Inl err, fs)
      | Inr es \<Rightarrow> (case clean_loop e maxAge (runs_of es) 0 fs of (n, fs') \<Rightarrow> (Inr n, fs')))"

text \<open>Unfinished runs first, by descending identifier; then the finished ones, the latest first.\<close>

definition newest_first :: "run_result list \<Rightarrow> run_result list" where
  "newest_first rs =
     rev (sort_key rs_RunID (filter (\<lambda>r. rs_FinishedAt r = None) rs))
     @ sort_key (\<lambda>r. - the (rs_FinishedAt r)) (filter (\<lambda>r. rs_FinishedAt r \<noteq> None) rs)"

definition ListResults :: "fs_env \<Rightarrow> int \<Rightarrow> files \<Rightarrow> run_result list result \<times> files" where
  "ListResults e limit fs0 =
     (case EnsureDirs e fs0 of (Inl err, fs) \<Rightarrow> (Inl err, fs)
      | (Inr _, fs) \<Rightarrow>
        ((case ReadDir e Results fs of Inl err \<Rightarrow> Inl err
          | Inr es \<Rightarrow>
            let rs = newest_first (ok_results (map (\<lambda>i. ReadResult e i fs) (runs_of es)))
            in Inr (if 0 < limit \<and> limit < int (length rs) then take (nat limit) rs else rs)), fs))"

section \<open>Reports and defaults\<close>

record k6_report =
  k6_Scenario :: string
  k6_SaleID :: string
  k6_Passed :: bool
  k6_Failures :: "string list option"
  k6_Metrics :: "any_map option"
  k6_Extra :: "any_map option"
  k6_FinishedAt :: string

definition report_fields :: "string list" where
  "report_fields = [''run_id'', ''scenario'', ''sale_id'', ''passed'', ''failures'', ''metrics'', ''extra'', ''finished_at'']"

definition decode_report :: "body \<Rightarrow> k6_report \<times> bool" where
  "decode_report b =
     (let ms = members b; str = (\<lambda>k. decode_field decode_string report_fields k ms []);
          passed = decode_field decode_bool report_fields ''passed'' ms False;
          fails = decode_field decode_string_slice report_fields ''failures'' ms None;
          mp = (\<lambda>k. decode_field decode_any_map report_fields k ms None)
      in (\<lparr>k6_Scenario = fst (str ''scenario''), k6_SaleID = fst (str ''sale_id''), k6_Passed = fst passed,
           k6_Failures = fst fails, k6_Metrics = fst (mp ''metrics''), k6_Extra = fst (mp ''extra''),
           k6_FinishedAt = fst (str ''finished_at'')\<rparr>,
          is_struct b \<and> list_all (snd \<circ> str) [''run_id'', ''scenario'', ''sale_id'', ''finished_at'']
          \<and> snd passed \<and> snd fails \<and> list_all (snd \<circ> mp) [''metrics'', ''extra'']))"

definition ParseK6Report :: "string \<Rightarrow> body \<Rightarrow> run_result result" where
  "ParseK6Report runID raw =
     (case decode_report raw of (rep, ok) \<Rightarrow>
        if \<not> ok then Inl JsonError
        else Inr (no_result\<lparr>rs_RunID := runID, rs_Scenario := k6_Scenario rep, rs_SaleID := k6_SaleID rep,
          rs_Status := if \<not> k6_Passed rep then StatusFailed else StatusPassed, rs_Passed := k6_Passed rep,
          rs_Failures := k6_Failures rep, rs_Metrics := k6_Metrics rep, rs_Extra := k6_Extra rep,
          rs_FinishedAt := if k6_FinishedAt rep \<noteq> [] then ParseTime (k6_FinishedAt rep) else None\<rparr>))"

definition IsNotExist :: "error \<Rightarrow> bool" where
  "IsNotExist err \<longleftrightarrow> errors_is err ErrNotExist"

definition DefaultDirs :: "environ \<Rightarrow> string \<times> string" where
  "DefaultDirs os = (nonempty_or ''/loadtest/jobs'' (os ''LOADTEST_JOBS_DIR''),
     nonempty_or ''/loadtest/results'' (os ''LOADTEST_RESULTS_DIR''))"

section \<open>What the file operations do to a lookup\<close>

lemma entries_upd [simp]: "entries (fs(D := x)) D' = (if D = D' then (case x of None \<Rightarrow> [] | Some xs \<Rightarrow> xs) else entries fs D')"
  by (simp add: entries_def)

lemma entries_put: "entries (put D k n fs) D' = (if D = D' then AList.update k n (entries fs D) else entries fs D')"
  by (simp add: put_def)

lemma entries_drop: "entries (drop_entry D k fs) D' = (if D = D' then AList.delete k (entries fs D) else entries fs D')"
  by (auto simp: drop_entry_def entries_def split: option.split)

lemma lookup_put [simp]: "lookup (put D k n fs) D' k' = (if D = D' \<and> k = k' then Some n else lookup fs D' k')"
  by (auto simp: lookup_def entries_put update_conv')

lemma lookup_drop [simp]: "lookup (drop_entry D k fs) D' k' = (if D = D' \<and> k = k' then None else lookup fs D' k')"
  by (auto simp: lookup_def entries_drop delete_conv')

lemma MkdirAll_entries [simp]: "entries (snd (MkdirAll e D fs)) D' = entries fs D'"
  by (simp add: MkdirAll_def entries_def split: option.split)

lemma EnsureDirs_entries: "entries (snd (EnsureDirs e fs)) D = entries fs D"
proof -
  obtain r fs1 where m: "MkdirAll e Jobs fs = (r, fs1)" by fastforce
  then have "entries fs1 D = entries fs D" using MkdirAll_entries[of e Jobs fs D] by simp
  with m show ?thesis by (simp add: EnsureDirs_def split: sum.split)
qed

definition made :: "files \<Rightarrow> files" where
  "made fs = (\<lambda>D. Some (entries fs D))"

lemma made_simps [simp]: "entries (made fs) D = entries fs D" "lookup (made fs) D k = lookup fs D k"
    "made fs D = Some (entries fs D)" "made (made fs) = made fs"
  by (simp_all add: made_def entries_def lookup_def)

text \<open>Directories can be made and files be read; writing may still fail.\<close>

definition reads_ok :: "fs_env \<Rightarrow> bool" where
  "reads_ok e \<longleftrightarrow> (\<forall>D k. \<not> fs_fault e (Op_Mkdir D) \<and> \<not> fs_fault e (Op_ReadDir D) \<and> \<not> fs_fault e (Op_Read D k))"

lemma no_fs_faults_reads [simp]: "no_fs_faults e \<Longrightarrow> reads_ok e"
  by (simp add: reads_ok_def)

lemma EnsureDirs_ok: "reads_ok e \<Longrightarrow> EnsureDirs e fs = (Inr (), made fs)"
proof -
  assume "reads_ok e"
  then have "EnsureDirs e fs = (Inr (), fs(Jobs := Some (entries fs Jobs), Results := Some (entries fs Results)))"
    by (simp add: EnsureDirs_def MkdirAll_def reads_ok_def)
  also have "fs(Jobs := Some (entries fs Jobs), Results := Some (entries fs Results)) = made fs"
  proof (rule ext)
    fix D show "(fs(Jobs := Some (entries fs Jobs), Results := Some (entries fs Results))) D = made fs D" by (cases D) simp_all
  qed
  finally show ?thesis .
qed

section \<open>Files that are replaced at once\<close>

lemma json_not_tmp [simp]: "json_name i \<noteq> json_name k @ ''.tmp''" "json_name k @ ''.tmp'' \<noteq> json_name i"
  by (auto simp: json_name_def dest!: arg_cong[of _ _ last])

lemma json_name_inj [simp]: "json_name i = json_name k \<longleftrightarrow> i = k"
  by (simp add: json_name_def)

text \<open>
  Whatever fails, the file itself is untouched or has the whole new content, and no other file but the
  temporary one changes.
\<close>

lemma write_json_effect:
  assumes "write_json e D i v fs = (r, fs')"
  shows "\<forall>D' k. (D', k) \<noteq> (D, json_name i) \<longrightarrow> (D', k) \<noteq> (D, json_name i @ ''.tmp'') \<longrightarrow> lookup fs' D' k = lookup fs D' k"
    and "is_ok r \<Longrightarrow> \<exists>j. v = Some j \<and> lookup fs' D (json_name i) = Some (F_File (Some j))"
    and "\<not> is_ok r \<Longrightarrow> lookup fs' D (json_name i) = lookup fs D (json_name i)"
    and "\<forall>D. distinct (map fst (entries fs D)) \<Longrightarrow> \<forall>D. distinct (map fst (entries fs' D))"
    and "\<forall>D k. lookup fs D k \<noteq> Some F_Dir \<Longrightarrow> \<forall>D k. lookup fs' D k \<noteq> Some F_Dir"
proof -
  let ?n = "json_name i"
  obtain r1 fs1 where m: "EnsureDirs e fs = (r1, fs1)" by fastforce
  have en: "entries fs1 D = entries fs D" for D using EnsureDirs_entries[of e fs D] m by simp
  then have l1: "lookup fs1 D k = lookup fs D k" for D k by (simp add: lookup_def)
  consider (quiet) "fs' = fs1" "\<not> is_ok r"
    | (torn) b where "fs' = put D (?n @ ''.tmp'') (F_File b) fs1" "\<not> is_ok r"
    | (ok) j where "v = Some j" "is_ok r" "fs' = put D ?n (F_File (Some j)) (drop_entry D (?n @ ''.tmp'') (put D (?n @ ''.tmp'') (F_File (Some j)) fs1))"
    using assms m by (auto simp: write_json_def WriteFile_def Rename_def Let_def split: sum.splits option.splits if_splits prod.splits)
  note cs = this
  show "\<forall>D' k. (D', k) \<noteq> (D, ?n) \<longrightarrow> (D', k) \<noteq> (D, ?n @ ''.tmp'') \<longrightarrow> lookup fs' D' k = lookup fs D' k"
    by (cases rule: cs) (auto simp: l1)
  show "is_ok r \<Longrightarrow> \<exists>j. v = Some j \<and> lookup fs' D ?n = Some (F_File (Some j))"
    by (cases rule: cs) auto
  show "\<not> is_ok r \<Longrightarrow> lookup fs' D ?n = lookup fs D ?n"
    by (cases rule: cs) (auto simp: l1)
  show "\<forall>D. distinct (map fst (entries fs D)) \<Longrightarrow> \<forall>D. distinct (map fst (entries fs' D))"
    by (cases rule: cs) (auto simp: en entries_put entries_drop distinct_update distinct_delete)
  show "\<forall>D k. lookup fs D k \<noteq> Some F_Dir \<Longrightarrow> \<forall>D k. lookup fs' D k \<noteq> Some F_Dir"
    by (cases rule: cs) (auto simp: l1)
qed

lemma write_json_ok:
  assumes "no_fs_faults e" and "\<forall>D k. lookup fs D k \<noteq> Some F_Dir"
  shows "is_ok (fst (write_json e D i (Some j) fs))"
  using assms by (simp add: write_json_def EnsureDirs_ok WriteFile_def Rename_def Let_def is_ok_def)

section \<open>What the directories say\<close>

definition file_at :: "files \<Rightarrow> dir \<Rightarrow> string \<Rightarrow> body option" where
  "file_at fs D i = (case lookup fs D (json_name i) of Some (F_File b) \<Rightarrow> Some b | _ \<Rightarrow> None)"

definition job_at :: "files \<Rightarrow> string \<Rightarrow> job option" where
  "job_at fs i = (case file_at fs Jobs i of None \<Rightarrow> None
     | Some b \<Rightarrow> if snd (decode_job b) then Some (fst (decode_job b)) else None)"

definition result_at :: "files \<Rightarrow> string \<Rightarrow> run_result option" where
  "result_at fs i = (case file_at fs Results i of None \<Rightarrow> None
     | Some b \<Rightarrow> if snd (decode_result b) then Some (fst (decode_result b)) else None)"

definition claims :: "run_result \<Rightarrow> bool" where
  "claims r \<longleftrightarrow> rs_Status r \<in> {StatusRunning, StatusPassed, StatusFailed, StatusError}"

definition claimed :: "files \<Rightarrow> string \<Rightarrow> bool" where
  "claimed fs i \<longleftrightarrow> (\<exists>r. result_at fs i = Some r \<and> claims r)"

definition pending_ids :: "files \<Rightarrow> string set" where
  "pending_ids fs = {i. job_at fs i \<noteq> None \<and> \<not> claimed fs i}"

definition running_ids :: "int \<Rightarrow> files \<Rightarrow> string set" where
  "running_ids now fs = {i. \<exists>r. result_at fs i = Some r \<and> fresh_running now r}"

definition names_distinct :: "files \<Rightarrow> bool" where
  "names_distinct fs \<longleftrightarrow> (\<forall>D. distinct (map fst (entries fs D)))"

lemma file_at_made [simp]: "file_at (made fs) D i = file_at fs D i"
  by (simp add: file_at_def)

lemma views_made [simp]: "job_at (made fs) i = job_at fs i" "result_at (made fs) i = result_at fs i"
    "claimed (made fs) i = claimed fs i" "pending_ids (made fs) = pending_ids fs"
    "running_ids now (made fs) = running_ids now fs" "names_distinct (made fs) = names_distinct fs"
  by (simp_all add: job_at_def result_at_def claimed_def pending_ids_def running_ids_def names_distinct_def)

lemma ReadFile_ok: "reads_ok e \<Longrightarrow> ReadFile e D (json_name i) fs = Inr b \<longleftrightarrow> file_at fs D i = Some b"
  by (auto simp: ReadFile_def reads_ok_def file_at_def split: option.splits fnode.splits)

lemma ReadJob_ok: "reads_ok e \<Longrightarrow> ReadJob e i fs = Inr j \<longleftrightarrow> job_at fs i = Some j"
  by (auto simp: ReadJob_def job_at_def split: sum.splits option.splits prod.splits)
    (auto simp: ReadFile_ok dest: ReadFile_ok[THEN iffD2])

lemma ReadResult_ok: "reads_ok e \<Longrightarrow> ReadResult e i fs = Inr r \<longleftrightarrow> result_at fs i = Some r"
  by (auto simp: ReadResult_def result_at_def split: sum.splits option.splits prod.splits)
    (auto simp: ReadFile_ok dest: ReadFile_ok[THEN iffD2])

lemma isJobClaimed_ok: "reads_ok e \<Longrightarrow> isJobClaimed e i fs = claimed fs i"
proof -
  have "isJobClaimed e i fs \<longleftrightarrow> (\<exists>r. ReadResult e i fs = Inr r \<and> claims r)"
    by (auto simp: isJobClaimed_def claims_def split: sum.split)
  then show "reads_ok e \<Longrightarrow> isJobClaimed e i fs = claimed fs i" by (simp add: ReadResult_ok claimed_def)
qed

lemma set_map_filter: "set (List.map_filter f xs) = {y. \<exists>x\<in>set xs. f x = Some y}"
  by (induction xs) (auto simp: map_filter_simps split: option.splits)

lemma runs_of_mem:
  assumes "distinct (map fst es)"
  shows "i \<in> set (runs_of es) \<longleftrightarrow> (\<exists>b. map_of es (json_name i) = Some (F_File b))"
proof -
  have "run_of en = Some i \<longleftrightarrow> (\<exists>b. en = (json_name i, F_File b))" for en
  proof -
    obtain k n where en: "en = (k, n)" by fastforce
    have "suffix ''.json'' k \<and> take (length k - 5) k = i \<longleftrightarrow> k = json_name i"
      by (auto simp: json_name_def suffix_def)
    then show ?thesis unfolding en run_of_def by (cases n) auto
  qed
  then show ?thesis using assms by (auto simp: runs_of_def set_map_filter map_of_eq_Some_iff)
qed

lemma runs_of_distinct: "distinct (map fst es) \<Longrightarrow> distinct (runs_of es)"
proof (induction es)
  case (Cons en es)
  have "i \<notin> set (runs_of es)" if "run_of en = Some i" for i
  proof
    assume "i \<in> set (runs_of es)"
    then obtain b where "map_of es (json_name i) = Some (F_File b)" using Cons.prems runs_of_mem[of es i] by auto
    then have "json_name i \<in> fst ` set es" by (metis domI dom_map_of_conv_image_fst)
    moreover have "fst en = json_name i"
      using that by (auto simp: run_of_def json_name_def suffix_def split: if_splits)
    ultimately show False using Cons.prems by auto
  qed
  with Cons show ?case by (auto simp: runs_of_def map_filter_simps split: option.split)
qed (simp add: runs_of_def map_filter_simps)

lemma ok_results_set: "set (ok_results rs) = {x. Inr x \<in> set rs}"
  by (induction rs) (auto simp: ok_results_def map_filter_simps split: sum.splits)

text \<open>Reading a list of runs: \<open>at\<close> is what a fault-free read of one finds.\<close>

lemma ok_results_read:
  assumes "\<And>i x. read i = Inr x \<longleftrightarrow> at i = Some x" and "distinct ids"
  shows "set (ok_results (map read ids)) = {x. \<exists>i\<in>set ids. at i = Some x}"
    and "length (filter p (ok_results (map read ids))) = card {i\<in>set ids. \<exists>x. at i = Some x \<and> p x}"
proof -
  show "set (ok_results (map read ids)) = {x. \<exists>i\<in>set ids. at i = Some x}"
  proof -
    have "Inr x \<in> read ` set ids \<longleftrightarrow> (\<exists>i\<in>set ids. at i = Some x)" for x
      unfolding image_iff using assms(1) by metis
    then show ?thesis by (simp add: ok_results_set)
  qed
  have "length (filter p (ok_results (map read ids))) = length (filter (\<lambda>i. \<exists>x. at i = Some x \<and> p x) ids)"
  proof (induction ids)
    case (Cons i ids)
    show ?case
    proof (cases "read i")
      case (Inl er)
      then have "at i = None" using assms(1)[of i "the (at i)"] by (cases "at i") simp_all
      with Cons Inl show ?thesis by (simp add: ok_results_def map_filter_simps)
    next
      case (Inr x)
      then have "at i = Some x" using assms(1)[of i x] by simp
      with Cons Inr show ?thesis by (simp add: ok_results_def map_filter_simps)
    qed
  qed (simp add: ok_results_def map_filter_simps)
  also have "\<dots> = card {i\<in>set ids. \<exists>x. at i = Some x \<and> p x}"
    using distinct_card[of "filter (\<lambda>i. \<exists>x. at i = Some x \<and> p x) ids"] assms(2) by simp
  finally show "length (filter p (ok_results (map read ids))) = card {i\<in>set ids. \<exists>x. at i = Some x \<and> p x}" .
qed

lemma run_ids:
  assumes "names_distinct fs"
  shows "distinct (runs_of (sort_key fst (entries fs D)))"
    and "i \<in> set (runs_of (sort_key fst (entries fs D))) \<longleftrightarrow> file_at fs D i \<noteq> None"
proof -
  have d: "distinct (map fst (sort_key fst (entries fs D)))"
    using assms by (simp add: names_distinct_def distinct_map distinct_sort)
  show "distinct (runs_of (sort_key fst (entries fs D)))" by (rule runs_of_distinct[OF d])
  have "map_of (sort_key fst (entries fs D)) = map_of (entries fs D)"
    using d assms by (subst map_of_inject_set) (simp_all add: names_distinct_def)
  then have "map_of (sort_key fst (entries fs D)) k = lookup fs D k" for k by (simp add: lookup_def)
  then show "i \<in> set (runs_of (sort_key fst (entries fs D))) \<longleftrightarrow> file_at fs D i \<noteq> None"
    unfolding runs_of_mem[OF d] by (auto simp: file_at_def split: option.splits fnode.splits)
qed

lemma job_at_file: "job_at fs i = Some j \<Longrightarrow> file_at fs Jobs i \<noteq> None"
  by (auto simp: job_at_def split: option.splits)

lemma result_at_file: "result_at fs i = Some r \<Longrightarrow> file_at fs Results i \<noteq> None"
  by (auto simp: result_at_def split: option.splits)

lemma no_tmp_runs: "runs_of (filter (\<lambda>en. \<not> suffix ''.tmp'' (fst en)) es) = runs_of es"
proof (induction es)
  case (Cons en es)
  have "run_of en = None" if "suffix ''.tmp'' (fst en)"
  proof -
    have "\<not> suffix ''.json'' (fst en)" using that by (auto simp: suffix_def dest!: arg_cong[of _ _ last])
    then show ?thesis by (simp add: run_of_def)
  qed
  with Cons show ?case by (auto simp: runs_of_def map_filter_simps split: option.split)
qed simp

lemma ListPendingJobs_ok:
  assumes "reads_ok e" and "names_distinct fs"
  obtains jobs where "ListPendingJobs e fs = (Inr jobs, made fs)"
    and "set jobs = {j. \<exists>i\<in>pending_ids fs. job_at fs i = Some j}"
    and "length jobs = card (pending_ids fs)" and "sorted (map jb_CreatedAt jobs)"
proof -
  let ?ids = "filter (\<lambda>i. \<not> isJobClaimed e i (made fs)) (runs_of (sort_key fst (entries fs Jobs)))"
  let ?js = "ok_results (map (\<lambda>i. ReadJob e i (made fs)) ?ids)"
  have r: "ReadDir e Jobs (made fs) = Inr (sort_key fst (entries fs Jobs))"
    using assms(1) by (simp add: ReadDir_def reads_ok_def)
  have rd: "ReadJob e i (made fs) = Inr j \<longleftrightarrow> job_at fs i = Some j" for i j
    using ReadJob_ok[OF assms(1), of i "made fs" j] by simp
  have d: "distinct ?ids" using run_ids(1)[OF assms(2)] by simp
  have m: "i \<in> set ?ids \<longleftrightarrow> file_at fs Jobs i \<noteq> None \<and> \<not> claimed fs i" for i
    using run_ids(2)[OF assms(2), of i Jobs] isJobClaimed_ok[OF assms(1), of i "made fs"] by auto
  have "set ?js = {j. \<exists>i\<in>pending_ids fs. job_at fs i = Some j}"
    using ok_results_read(1)[where read="\<lambda>i. ReadJob e i (made fs)" and at="job_at fs", OF rd d] m job_at_file
    unfolding pending_ids_def by blast
  moreover have "length ?js = card (pending_ids fs)"
  proof -
    have "{i\<in>set ?ids. \<exists>j. job_at fs i = Some j \<and> True} = pending_ids fs"
      using m job_at_file unfolding pending_ids_def by blast
    then show ?thesis
      using ok_results_read(2)[where read="\<lambda>i. ReadJob e i (made fs)" and at="job_at fs" and p="\<lambda>_. True", OF rd d] by simp
  qed
  ultimately show ?thesis
    using that[of "sort_key jb_CreatedAt ?js"] EnsureDirs_ok[OF assms(1), of fs] r
    by (simp add: ListPendingJobs_def no_tmp_runs)
qed

lemma CountActive_ok:
  assumes "reads_ok e" and "names_distinct fs"
  shows "CountActive e fs = (Inr (int (card (pending_ids fs)), int (card (running_ids (fs_now e) fs))), made fs)"
proof -
  let ?ids = "runs_of (sort_key fst (entries fs Results))"
  have nd: "names_distinct (made fs)" using assms(2) by simp
  obtain jobs where l: "ListPendingJobs e (made fs) = (Inr jobs, made (made fs))" "length jobs = card (pending_ids fs)"
    using ListPendingJobs_ok[OF assms(1) nd] by (metis views_made(4))
  have r: "ReadDir e Results (made fs) = Inr (sort_key fst (entries fs Results))"
    using assms(1) by (simp add: ReadDir_def reads_ok_def)
  have rd: "ReadResult e i (made fs) = Inr x \<longleftrightarrow> result_at fs i = Some x" for i x
    using ReadResult_ok[OF assms(1), of i "made fs" x] by simp
  have "{i\<in>set ?ids. \<exists>x. result_at fs i = Some x \<and> fresh_running (fs_now e) x} = running_ids (fs_now e) fs"
    using run_ids(2)[OF assms(2)] result_at_file unfolding running_ids_def by blast
  then have "length (filter (fresh_running (fs_now e)) (ok_results (map (\<lambda>i. ReadResult e i (made fs)) ?ids)))
      = card (running_ids (fs_now e) fs)"
    using ok_results_read(2)[where read="\<lambda>i. ReadResult e i (made fs)" and at="result_at fs"
        and p="fresh_running (fs_now e)", OF rd run_ids(1)[OF assms(2)]]
    by simp
  then show ?thesis using EnsureDirs_ok[OF assms(1), of fs] l r by (simp add: CountActive_def)
qed

lemma HasRunning_ok:
  assumes "reads_ok e" and "names_distinct fs"
  shows "HasRunning e fs = (Inr (0 < card (running_ids (fs_now e) fs)), made fs)"
  by (simp add: HasRunning_def CountActive_ok[OF assms])

lemma finite_running: "names_distinct fs \<Longrightarrow> finite (running_ids now fs)"
proof -
  assume n: "names_distinct fs"
  have "running_ids now fs \<subseteq> set (runs_of (sort_key fst (entries fs Results)))"
    using run_ids(2)[OF n] result_at_file by (auto simp: running_ids_def)
  then show ?thesis by (rule finite_subset) simp
qed

lemma finite_pending: "names_distinct fs \<Longrightarrow> finite (pending_ids fs)"
proof -
  assume n: "names_distinct fs"
  have "pending_ids fs \<subseteq> set (runs_of (sort_key fst (entries fs Jobs)))"
    using run_ids(2)[OF n] job_at_file by (auto simp: pending_ids_def)
  then show ?thesis by (rule finite_subset) simp
qed

end
