(* ===== verification/Runner.thy ===== *)
theory Runner
  imports Store
begin

text \<open>
  \<open>internal/loadtest/service.go\<close> and \<open>cmd/loadtest-runner/main.go\<close>: the API queues jobs, the runner
  takes the oldest one when nothing runs, starts \<open>k6\<close> and stores the evaluated report. \<open>k6\<close> is a
  parameter: a function of its environment variables, the script and the directories, to its output,
  its error (if any) and the directories it leaves behind.
\<close>

section \<open>The service\<close>

definition new_job :: "int \<Rightarrow> string \<Rightarrow> run_request \<Rightarrow> job" where
  "new_job now runID req =
     \<lparr>jb_RunID = runID, jb_Scenario = rr_Scenario req, jb_SaleID = rr_SaleID req, jb_VUsMax = rr_VUsMax req,
      jb_RampUp = rr_RampUp req, jb_Steady = rr_Steady req, jb_RampDown = rr_RampDown req,
      jb_AdmitPerMinute = rr_AdmitPerMinute req, jb_WaitingRoomCap = rr_WaitingRoomCap req,
      jb_TotalSeats = rr_TotalSeats req, jb_CreatedAt = now\<rparr>"

text \<open>The second half of \<open>Submit\<close>, after the checks: \<open>runID\<close> is the fresh identifier.\<close>

definition enqueue :: "fs_env \<Rightarrow> string \<Rightarrow> limits \<Rightarrow> run_request \<Rightarrow> files \<Rightarrow> job result \<times> files" where
  "enqueue e runID l req fs =
     (let j = new_job (fs_now e) runID (Apply l req) in
      case WriteJob e j fs of
        (Inl err, fs') \<Rightarrow> (Inl (ErrWrap ''write job'' err), fs')
      | (Inr _, fs') \<Rightarrow> (Inr j, fs'))"

definition Submit :: "fs_env \<Rightarrow> string \<Rightarrow> limits \<Rightarrow> run_request \<Rightarrow> files \<Rightarrow> job result \<times> files" where
  "Submit e runID l req fs =
     (if \<not> ValidScenario (rr_Scenario req) then (Inl (ErrInvalidScenario (rr_Scenario req)), fs)
      else case CountActive e fs of
        (Inl err, fs1) \<Rightarrow> (Inl err, fs1)
      | (Inr (pending, running), fs1) \<Rightarrow>
          (case CanAccept l pending running of
             Inl err \<Rightarrow> (Inl err, fs1)
           | Inr _ \<Rightarrow> enqueue e runID l req fs1))"

definition GetRun :: "fs_env \<Rightarrow> string \<Rightarrow> files \<Rightarrow> run_result result" where
  "GetRun e runID fs = GetStatus e runID fs"

definition ListRuns :: "fs_env \<Rightarrow> int \<Rightarrow> files \<Rightarrow> run_result list result \<times> files" where
  "ListRuns e limit fs = ListResults e (positive_or 20 limit) fs"

section \<open>The runner\<close>

record runner =
  rn_jobsDir :: string
  rn_resultsDir :: string
  rn_scriptsDir :: string
  rn_baseURL :: string
  rn_adminKey :: string
  rn_environ :: "(string \<times> string) list"
  rn_script_exists :: "string \<Rightarrow> bool"
  rn_error_text :: "error \<Rightarrow> string"

text \<open>The settings of \<open>main\<close>, read from the environment.\<close>

definition runner_settings :: "environ \<Rightarrow> (string \<times> string) list \<Rightarrow> (string \<Rightarrow> bool) \<Rightarrow> (error \<Rightarrow> string) \<Rightarrow> runner" where
  "runner_settings os all exists txt =
     \<lparr>rn_jobsDir = fst (DefaultDirs os), rn_resultsDir = snd (DefaultDirs os),
      rn_scriptsDir = nonempty_or ''/scripts'' (os ''K6_SCRIPTS_DIR''),
      rn_baseURL = nonempty_or ''http://api:8080'' (os ''BASE_URL''),
      rn_adminKey = nonempty_or ''dev-admin-key'' (os ''ADMIN_KEY''),
      rn_environ = all, rn_script_exists = exists, rn_error_text = txt\<rparr>"

definition truncate_to :: "nat \<Rightarrow> string \<Rightarrow> string" where
  "truncate_to k s = (if length s \<le> k then s else take k s @ ''...'')"

definition errString :: "string option \<Rightarrow> string" where
  "errString err = (case err of None \<Rightarrow> [] | Some s \<Rightarrow> s)"

text \<open>\<open>filepath.Join\<close> of a clean directory and names without slashes.\<close>

definition script_path :: "runner \<Rightarrow> job \<Rightarrow> string" where
  "script_path rn j = rn_scriptsDir rn @ ''/scenarios/'' @ jb_Scenario j @ ''.js''"

definition k6_env :: "runner \<Rightarrow> job \<Rightarrow> (string \<times> string) list" where
  "k6_env rn j = rn_environ rn
     @ [(''K6_SCENARIO'', jb_Scenario j), (''K6_RUN_ID'', jb_RunID j), (''RUN_ID'', jb_RunID j),
        (''K6_RESULTS_DIR'', rn_resultsDir rn), (''BASE_URL'', rn_baseURL rn), (''ADMIN_KEY'', rn_adminKey rn),
        (''K6_VUS_MAX'', Itoa (jb_VUsMax j)), (''K6_RAMP_UP'', jb_RampUp j), (''K6_STEADY'', jb_Steady j),
        (''K6_RAMP_DOWN'', jb_RampDown j), (''K6_ADMIT_PER_MIN'', Itoa (jb_AdmitPerMinute j)),
        (''K6_WAITING_ROOM_CAP'', Itoa (jb_WaitingRoomCap j)), (''K6_TOTAL_SEATS'', Itoa (jb_TotalSeats j))]
     @ (if jb_SaleID j \<noteq> [] then [(''SALE_ID'', jb_SaleID j)] else [])"

text \<open>The process reads the last binding of a variable.\<close>

definition var :: "(string \<times> string) list \<Rightarrow> string \<Rightarrow> string" where
  "var env k = (case map_of (rev env) k of None \<Rightarrow> [] | Some v \<Rightarrow> v)"

type_synonym k6_process =
  "(string \<times> string) list \<Rightarrow> string \<Rightarrow> files \<Rightarrow> (string \<times> string option) \<times> files"

definition finish :: "fs_env \<Rightarrow> string \<Rightarrow> unit result \<times> files \<Rightarrow> unit result \<times> files" where
  "finish e runID w = (case w of (Inl werr, fs) \<Rightarrow> (Inl werr, fs)
     | (Inr _, fs) \<Rightarrow> (Inr (), Remove e Jobs (json_name runID) fs))"

text \<open>\<open>json.Unmarshal(raw, &generic)\<close>\<close>

definition decode_generic :: "body \<Rightarrow> any_map option option" where
  "decode_generic raw = (case raw of Some (J_Obj ms) \<Rightarrow> Some (Some (go_map ms)) | Some J_Null \<Rightarrow> Some None | _ \<Rightarrow> None)"

definition missing_script :: "fs_env \<Rightarrow> runner \<Rightarrow> job \<Rightarrow> run_result" where
  "missing_script e rn j = no_result\<lparr>rs_RunID := jb_RunID j, rs_Scenario := jb_Scenario j, rs_Status := StatusError,
     rs_Error := ''scenario script not found: '' @ script_path rn j, rs_FinishedAt := Some (fs_now e)\<rparr>"

definition missing_summary :: "fs_env \<Rightarrow> job \<Rightarrow> string \<Rightarrow> string option \<Rightarrow> run_result" where
  "missing_summary e j out err = no_result\<lparr>rs_RunID := jb_RunID j, rs_Scenario := jb_Scenario j, rs_SaleID := jb_SaleID j,
     rs_Status := StatusError, rs_FinishedAt := Some (fs_now e),
     rs_Error := (case err of None \<Rightarrow> ''k6 finished without summary'' | Some t \<Rightarrow> t @ '': '' @ truncate_to 500 out)\<rparr>"

definition raw_summary :: "fs_env \<Rightarrow> job \<Rightarrow> any_map option \<Rightarrow> string option \<Rightarrow> run_result" where
  "raw_summary e j generic err = no_result\<lparr>rs_RunID := jb_RunID j, rs_Scenario := jb_Scenario j, rs_SaleID := jb_SaleID j,
     rs_Status := if err \<noteq> None then StatusFailed else StatusPassed, rs_Passed := (err = None),
     rs_Extra := generic, rs_FinishedAt := Some (fs_now e), rs_Error := errString err\<rparr>"

definition bad_summary :: "fs_env \<Rightarrow> runner \<Rightarrow> job \<Rightarrow> error \<Rightarrow> run_result" where
  "bad_summary e rn j parseErr = no_result\<lparr>rs_RunID := jb_RunID j, rs_Scenario := jb_Scenario j, rs_Status := StatusError,
     rs_Error := rn_error_text rn parseErr, rs_FinishedAt := Some (fs_now e)\<rparr>"

definition evaluated :: "job \<Rightarrow> string option \<Rightarrow> run_result \<Rightarrow> run_result" where
  "evaluated j err res0 =
     (let res1 = res0\<lparr>rs_SaleID := nonempty_or (jb_SaleID j) (rs_SaleID res0)\<rparr>;
          res2 = res1\<lparr>rs_Scenario := nonempty_or (jb_Scenario j) (rs_Scenario res1)\<rparr>
      in if err \<noteq> None \<and> rs_Status res2 = StatusPassed
         then res2\<lparr>rs_Status := StatusFailed, rs_Passed := False,
                rs_Failures := (if rs_Failures res2 = None then Some [the err] else rs_Failures res2)\<rparr>
         else res2)"

text \<open>After \<open>k6\<close> has ended: its summary is read where the marker of the running run was.\<close>

definition conclude :: "runner \<Rightarrow> fs_env \<Rightarrow> job \<Rightarrow> string \<times> string option \<Rightarrow> files \<Rightarrow> unit result \<times> files" where
  "conclude rn e j oe fs =
     (case oe of (out, err) \<Rightarrow>
      case ReadFile e Results (json_name (jb_RunID j)) fs of
        Inl _ \<Rightarrow> finish e (jb_RunID j) (WriteResult e (missing_summary e j out err) fs)
      | Inr raw \<Rightarrow>
          (case ParseK6Report (jb_RunID j) raw of
             Inl parseErr \<Rightarrow>
               (case decode_generic raw of
                  Some generic \<Rightarrow> WriteResult e (raw_summary e j generic err) fs
                | None \<Rightarrow> WriteResult e (bad_summary e rn j parseErr) fs)
           | Inr res \<Rightarrow> finish e (jb_RunID j) (WriteResult e (evaluated j err res) fs)))"

text \<open>\<open>runJob\<close>: its environment before the process is started and the one after it has ended.\<close>

definition runJob :: "k6_process \<Rightarrow> runner \<Rightarrow> fs_env \<times> fs_env \<Rightarrow> job \<Rightarrow> files \<Rightarrow> unit result \<times> files" where
  "runJob k6 rn es j fs =
     (case WriteRunning (fst es) (jb_RunID j) fs of
        (Inl err, fs1) \<Rightarrow> (Inl err, fs1)
      | (Inr _, fs1) \<Rightarrow>
          if \<not> rn_script_exists rn (script_path rn j)
          then finish (fst es) (jb_RunID j) (WriteResult (fst es) (missing_script (fst es) rn j) fs1)
          else (case k6 (k6_env rn j) (script_path rn j) fs1 of
                  (oe, fs2) \<Rightarrow> conclude rn (snd es) j oe fs2))"

text \<open>One tick of the loop in \<open>main\<close>; errors are only logged.\<close>

definition runner_tick :: "k6_process \<Rightarrow> runner \<Rightarrow> fs_env \<times> fs_env \<Rightarrow> files \<Rightarrow> files" where
  "runner_tick k6 rn es fs =
     (case ListPendingJobs (fst es) fs of
        (Inl _, fs1) \<Rightarrow> fs1
      | (Inr jobs, fs1) \<Rightarrow>
          (case HasRunning (fst es) fs1 of
             (Inl _, fs2) \<Rightarrow> fs2
           | (Inr busy, fs2) \<Rightarrow>
               if busy then fs2
               else (case jobs of [] \<Rightarrow> fs2 | j # _ \<Rightarrow> snd (runJob k6 rn es j fs2))))"

fun runner_run :: "k6_process \<Rightarrow> runner \<Rightarrow> (fs_env \<times> fs_env) list \<Rightarrow> files \<Rightarrow> files" where
  "runner_run k6 rn [] fs = fs"
| "runner_run k6 rn (es # rest) fs = runner_run k6 rn rest (runner_tick k6 rn es fs)"

text \<open>What \<open>main\<close> does before its loop; \<open>None\<close> when the process gives up.\<close>

definition runner_start :: "fs_env \<Rightarrow> files \<Rightarrow> files option" where
  "runner_start e fs =
     (case EnsureDirs e fs of (Inl _, _) \<Rightarrow> None
      | (Inr _, fs1) \<Rightarrow> Some (snd (CleanStaleRunning e (2 * 3600 * 10 ^ 9) fs1)))"

section \<open>Results that are written\<close>

definition final :: "run_result \<Rightarrow> bool" where
  "final r \<longleftrightarrow> rs_Status r \<in> {StatusPassed, StatusFailed, StatusError}"

lemma final_claims [simp]: "final r \<Longrightarrow> claims r"
  by (auto simp: final_def claims_def)

lemma final_not_running [simp]: "final r \<Longrightarrow> \<not> fresh_running t r"
  by (auto simp: final_def fresh_running_def status_defs)

text \<open>A summary whose \<open>finished_at\<close> is an instant that can be written again.\<close>

definition report_time_ok :: "body \<Rightarrow> bool" where
  "report_time_ok b \<longleftrightarrow> (\<forall>t. ParseTime (k6_FinishedAt (fst (decode_report b))) = Some t \<longrightarrow> time_ok t)"

lemma no_result_simps [simp]:
  "rs_RunID no_result = []" "rs_Status no_result = []" "rs_Failures no_result = None" "rs_Metrics no_result = None"
  "rs_Extra no_result = None" "rs_StartedAt no_result = None" "rs_FinishedAt no_result = None"
  "rs_Scenario no_result = []" "rs_SaleID no_result = []" "rs_Passed no_result = False" "rs_Error no_result = []"
  by (simp_all add: no_result_def)

lemma good_None [simp]: "good_map None"
  by (simp add: good_map_def)

lemma decode_report_good:
  "good_map (k6_Metrics (fst (decode_report b)))" "good_map (k6_Extra (fst (decode_report b)))"
  by (auto simp: decode_report_def Let_def intro!: decode_field_keeps[where P = good_map] decode_any_map_good)

lemma ParseK6Report_good:
  assumes "ParseK6Report i b = Inr r" and "report_time_ok b"
  shows "good_result r" and "final r" and "rs_RunID r = i"
  using assms decode_report_good[of b]
  by (auto simp: ParseK6Report_def good_result_def final_def report_time_ok_def split: prod.splits if_splits)

lemma evaluated_simps [simp]:
  "good_result r \<Longrightarrow> good_result (evaluated j err r)" "final r \<Longrightarrow> final (evaluated j err r)"
  "rs_RunID (evaluated j err r) = rs_RunID r"
  by (auto simp: evaluated_def good_result_def final_def Let_def)

lemma conclude_cases:
  assumes "time_ok (fs_now e)" and "\<And>b. file_at fs Results (jb_RunID j) = Some b \<Longrightarrow> report_time_ok b" and "reads_ok e"
  obtains r where "good_result r" "final r" "rs_RunID r = jb_RunID j"
    and "conclude rn e j oe fs = WriteResult e r fs \<or> conclude rn e j oe fs = finish e (jb_RunID j) (WriteResult e r fs)"
proof -
  obtain out err where oe: "oe = (out, err)" by fastforce
  have t: "good_result (missing_summary e j out err)" "final (missing_summary e j out err)"
    "good_result (bad_summary e rn j x)" "final (bad_summary e rn j x)" for x
    using assms(1) by (simp_all add: missing_summary_def bad_summary_def good_result_def final_def)
  have g: "decode_generic raw = Some g \<Longrightarrow> good_result (raw_summary e j g err) \<and> final (raw_summary e j g err)" for raw g
    using assms(1) by (auto simp: raw_summary_def good_result_def final_def decode_generic_def split: option.splits json.splits)
  have ids: "rs_RunID (missing_summary e j out err) = jb_RunID j" "rs_RunID (bad_summary e rn j x) = jb_RunID j"
    "rs_RunID (raw_summary e j g err) = jb_RunID j" for x g
    by (simp_all add: missing_summary_def bad_summary_def raw_summary_def)
  show ?thesis
  proof (cases "ReadFile e Results (json_name (jb_RunID j)) fs")
    case (Inl x)
    with that[of "missing_summary e j out err"] t ids oe show ?thesis by (simp add: conclude_def)
  next
    case (Inr raw)
    then have f: "report_time_ok raw" using assms(2) ReadFile_ok[OF assms(3)] by blast
    show ?thesis
    proof (cases "ParseK6Report (jb_RunID j) raw")
      case p: (Inl x)
      show ?thesis
        using that[of "bad_summary e rn j x"] that[of "raw_summary e j (the (decode_generic raw)) err"] t ids g[of raw] Inr p oe
        by (cases "decode_generic raw") (auto simp: conclude_def)
    next
      case p: (Inr r)
      with that[of "evaluated j err r"] ParseK6Report_good[OF p f] Inr oe show ?thesis by (simp add: conclude_def)
    qed
  qed
qed

section \<open>The invariant of the directories\<close>

definition no_dirs :: "files \<Rightarrow> bool" where
  "no_dirs fs \<longleftrightarrow> (\<forall>D k. lookup fs D k \<noteq> Some F_Dir)"

definition named :: "files \<Rightarrow> bool" where
  "named fs \<longleftrightarrow> (\<forall>i j. job_at fs i = Some j \<longrightarrow> jb_RunID j = i)"

definition lt_inv :: "files \<Rightarrow> bool" where
  "lt_inv fs \<longleftrightarrow> names_distinct fs \<and> no_dirs fs \<and> named fs"

lemma lt_inv_made [simp]: "lt_inv (made fs) = lt_inv fs"
  by (simp add: lt_inv_def no_dirs_def named_def)

text \<open>A write of one run's file, seen through the readers.\<close>

lemma write_json_views:
  assumes "write_json e D i v fs = (r, fs')"
  shows "D' \<noteq> D \<or> k \<noteq> i \<Longrightarrow> file_at fs' D' k = file_at fs D' k"
    and "is_ok r \<Longrightarrow> \<exists>j. v = Some j \<and> file_at fs' D i = Some (Some j)"
    and "\<not> is_ok r \<Longrightarrow> file_at fs' D i = file_at fs D i"
    and "names_distinct fs \<Longrightarrow> names_distinct fs'" and "no_dirs fs \<Longrightarrow> no_dirs fs'"
  using write_json_effect[OF assms] by (auto simp: file_at_def names_distinct_def no_dirs_def)

lemma job_at_cong: "file_at fs' Jobs i = file_at fs Jobs i \<Longrightarrow> job_at fs' i = job_at fs i"
  by (simp add: job_at_def)

lemma result_at_cong: "file_at fs' Results i = file_at fs Results i \<Longrightarrow> result_at fs' i = result_at fs i"
  by (simp add: result_at_def)

lemma WriteResult_ok:
  assumes "no_fs_faults e" and "no_dirs fs" and "good_result r" and "WriteResult e r fs = (x, fs')"
  shows "x = Inr ()" and "result_at fs' (rs_RunID r) = Some (tidy r)"
    and "k \<noteq> rs_RunID r \<Longrightarrow> result_at fs' k = result_at fs k" and "job_at fs' k = job_at fs k"
    and "names_distinct fs \<Longrightarrow> names_distinct fs'" and "no_dirs fs'"
proof -
  obtain v where v: "encode_result r = Some v" "decode_result (Some v) = (tidy r, True)"
    using decode_encode_result[OF assms(3)] by blast
  have w: "write_json e Results (rs_RunID r) (Some v) fs = (x, fs')" using assms(4) v(1) by (simp add: WriteResult_def)
  have ok: "is_ok x" using write_json_ok[OF assms(1), of fs Results "rs_RunID r" v] assms(2) w by (simp add: no_dirs_def)
  then show "x = Inr ()" by (cases x) simp_all
  show "result_at fs' (rs_RunID r) = Some (tidy r)"
    using write_json_views(2)[OF w ok] v(2) by (auto simp: result_at_def)
  show "k \<noteq> rs_RunID r \<Longrightarrow> result_at fs' k = result_at fs k" and "job_at fs' k = job_at fs k"
    using write_json_views(1)[OF w] by (auto intro: result_at_cong job_at_cong)
  show "names_distinct fs \<Longrightarrow> names_distinct fs'" and "no_dirs fs'"
    using write_json_views(4,5)[OF w] assms(2) by blast+
qed

lemma drop_entry_views:
  "file_at (drop_entry D (json_name i) fs) D' k = (if D = D' \<and> k = i then None else file_at fs D' k)"
  "names_distinct fs \<Longrightarrow> names_distinct (drop_entry D n fs)" "no_dirs fs \<Longrightarrow> no_dirs (drop_entry D n fs)"
  by (auto simp: file_at_def names_distinct_def entries_drop distinct_delete no_dirs_def)

text \<open>What remains after a job is done, whether or not its file is removed.\<close>

definition done_as :: "string \<Rightarrow> run_result \<Rightarrow> files \<Rightarrow> files \<Rightarrow> bool" where
  "done_as i r fs fs' \<longleftrightarrow> result_at fs' i = Some (tidy r) \<and> (\<forall>k. k \<noteq> i \<longrightarrow> result_at fs' k = result_at fs k)
     \<and> (\<forall>k. k \<noteq> i \<longrightarrow> job_at fs' k = job_at fs k) \<and> (job_at fs' i = None \<or> job_at fs' i = job_at fs i)
     \<and> names_distinct fs' \<and> no_dirs fs'"

lemma WriteResult_done:
  assumes "no_fs_faults e" and "no_dirs fs" and "names_distinct fs" and "good_result r" and "rs_RunID r = i"
  shows "done_as i r fs (snd (WriteResult e r fs))" and "done_as i r fs (snd (finish e i (WriteResult e r fs)))"
proof -
  obtain x fs' where w: "WriteResult e r fs = (x, fs')" by fastforce
  note o = WriteResult_ok[OF assms(1,2,4) w]
  show "done_as i r fs (snd (WriteResult e r fs))"
    using o assms(3,5) by (auto simp: w done_as_def)
  have j: "job_at (drop_entry Jobs (json_name i) fs') k = (if k = i then None else job_at fs' k)"
      "result_at (drop_entry Jobs (json_name i) fs') k = result_at fs' k" for k
    by (simp_all add: job_at_def result_at_def drop_entry_views)
  show "done_as i r fs (snd (finish e i (WriteResult e r fs)))"
    using o assms(1,3,5) by (auto simp: w done_as_def finish_def Remove_def j drop_entry_views)
qed

section \<open>One run\<close>

text \<open>
  What is assumed of \<open>k6\<close>: it writes at most the summary of its run, as a file, and no time in it that
  cannot be written again.
\<close>

definition k6_tame :: "k6_process \<Rightarrow> bool" where
  "k6_tame k6 \<longleftrightarrow> (\<forall>env script fs. let fs' = snd (k6 env script fs); i = var env ''K6_RUN_ID'' in
     (names_distinct fs \<longrightarrow> names_distinct fs') \<and> (no_dirs fs \<longrightarrow> no_dirs fs')
     \<and> (\<forall>D k. (D, k) \<noteq> (Results, i) \<longrightarrow> file_at fs' D k = file_at fs D k)
     \<and> (file_at fs' Results i = file_at fs Results i \<or> (\<forall>b. file_at fs' Results i = Some b \<longrightarrow> report_time_ok b)))"

lemma var_run_id [simp]: "var (k6_env rn j) ''K6_RUN_ID'' = jb_RunID j"
  by (simp add: var_def k6_env_def)

definition running_marker :: "int \<Rightarrow> string \<Rightarrow> run_result" where
  "running_marker now i = no_result\<lparr>rs_RunID := i, rs_Status := StatusRunning, rs_StartedAt := Some now\<rparr>"

lemma good_marker: "time_ok t \<Longrightarrow> good_result (running_marker t i)"
  by (simp add: running_marker_def good_result_def)

lemma WriteRunning_marker: "WriteRunning e i fs = WriteResult e (running_marker (fs_now e) i) fs"
  by (simp add: WriteRunning_def running_marker_def)

text \<open>The summary that is found when \<open>k6\<close> writes none: the marker, read as a report.\<close>

definition marker_json :: "int \<Rightarrow> string \<Rightarrow> json" where
  "marker_json t i = obj [(''run_id'', Some (J_Str i)), (''scenario'', Some (J_Str [])), (''sale_id'', None),
     (''status'', Some (J_Str StatusRunning)), (''passed'', Some (J_Bool False)), (''failures'', None),
     (''metrics'', None), (''extra'', None), (''started_at'', Some (encode_time t)), (''finished_at'', None),
     (''error'', None)]"

lemma encode_marker: "time_ok t \<Longrightarrow> encode_result (running_marker t i) = Some (marker_json t i)"
  by (simp add: encode_result_def running_marker_def marker_json_def omit_def empty_slice_def)

lemma decode_field_other:
  assumes "\<forall>kv\<in>set ms. field_of ns (fst kv) \<noteq> Some n"
  shows "decode_field dec ns n ms old = (old, True)"
  using assms by (induction ms) auto

lemma marker_members:
  "members (Some (marker_json t i)) = [(''run_id'', J_Str i), (''scenario'', J_Str []), (''status'', J_Str StatusRunning),
     (''passed'', J_Bool False), (''started_at'', encode_time t)]"
  by (simp add: marker_json_def obj_def members_def map_filter_simps)

lemma report_field_of: "k \<in> set report_fields \<Longrightarrow> field_of report_fields k = Some k"
    "field_of report_fields ''status'' = None" "field_of report_fields ''started_at'' = None"
  by (auto simp: field_of_def report_fields_def ToLower_def to_lower_char_def)

lemma marker_struct: "is_struct (Some (marker_json t i))"
  by (simp add: marker_json_def)

lemma decode_marker_report:
  "decode_report (Some (marker_json t i)) = (\<lparr>k6_Scenario = [], k6_SaleID = [], k6_Passed = False, k6_Failures = None,
     k6_Metrics = None, k6_Extra = None, k6_FinishedAt = []\<rparr>, True)"
proof -
  have f: "field_of report_fields ''run_id'' = Some ''run_id''" "field_of report_fields ''scenario'' = Some ''scenario''"
    "field_of report_fields ''passed'' = Some ''passed''"
    by (rule report_field_of; simp add: report_fields_def)+
  show ?thesis
    unfolding decode_report_def marker_members Let_def
    by (simp add: f report_field_of(2,3) marker_struct)
qed

lemma marker_time_ok: "report_time_ok (Some (marker_json t i))"
  by (simp add: report_time_ok_def decode_marker_report ParseTime_def parse_date_def take_num_def)

lemma runJob_done:
  assumes "no_fs_faults e1" and "no_fs_faults e2" and "time_ok (fs_now e1)" and "time_ok (fs_now e2)"
    and "k6_tame k6" and "names_distinct fs" and "no_dirs fs"
  obtains r where "done_as (jb_RunID j) r fs (snd (runJob k6 rn (e1, e2) j fs))"
    and "final r" and "rs_RunID r = jb_RunID j" and "good_result r"
proof -
  let ?i = "jb_RunID j"
  obtain x fs1 where w: "WriteRunning e1 ?i fs = (x, fs1)" by fastforce
  note m = WriteResult_ok[OF assms(1,7) good_marker[OF assms(3)] w[unfolded WriteRunning_marker]]
  have id: "rs_RunID (running_marker t i) = i" for t i by (simp add: running_marker_def)
  have f1: "file_at fs1 Results ?i = Some (Some (marker_json (fs_now e1) ?i))"
  proof -
    have "write_json e1 Results ?i (Some (marker_json (fs_now e1) ?i)) fs = (Inr (), fs1)"
      using w m(1) encode_marker[OF assms(3)] by (simp add: WriteRunning_marker WriteResult_def id)
    from write_json_views(2)[OF this] show ?thesis by simp
  qed
  show ?thesis
  proof (cases "rn_script_exists rn (script_path rn j)")
    case False
    let ?r = "missing_script e1 rn j"
    have g: "good_result ?r" "final ?r" "rs_RunID ?r = ?i"
      using assms(3) by (simp_all add: missing_script_def good_result_def final_def)
    have "done_as ?i ?r fs1 (snd (finish e1 ?i (WriteResult e1 ?r fs1)))"
      using WriteResult_done(2)[OF assms(1) m(6) m(5)[OF assms(6)] g(1,3)] .
    then have "done_as ?i ?r fs (snd (runJob k6 rn (e1, e2) j fs))"
      using m(1,3,4) False by (simp add: runJob_def w id done_as_def)
    with that g show ?thesis by blast
  next
    case True
    obtain oe fs2 where k: "k6 (k6_env rn j) (script_path rn j) fs1 = (oe, fs2)" by fastforce
    have t: "names_distinct fs2" "no_dirs fs2" "\<And>D k. (D, k) \<noteq> (Results, ?i) \<Longrightarrow> file_at fs2 D k = file_at fs1 D k"
      "file_at fs2 Results ?i = file_at fs1 Results ?i \<or> (\<forall>b. file_at fs2 Results ?i = Some b \<longrightarrow> report_time_ok b)"
      using assms(5)[unfolded k6_tame_def Let_def, rule_format, of fs1 "k6_env rn j" "script_path rn j"] k m(5)[OF assms(6)] m(6)
      by auto
    have "report_time_ok b" if "file_at fs2 Results ?i = Some b" for b
      using t(4) that f1 marker_time_ok by auto
    from conclude_cases[where j=j and fs=fs2 and rn=rn and oe=oe, OF assms(4) this no_fs_faults_reads[OF assms(2)]]
    obtain r where r: "good_result r" "final r" "rs_RunID r = ?i"
      and c: "conclude rn e2 j oe fs2 = WriteResult e2 r fs2 \<or> conclude rn e2 j oe fs2 = finish e2 ?i (WriteResult e2 r fs2)"
      by metis
    have "done_as ?i r fs2 (snd (conclude rn e2 j oe fs2))"
      using c WriteResult_done[OF assms(2) t(2) t(1) r(1,3)] by metis
    moreover have "job_at fs2 k = job_at fs k" for k
      using job_at_cong[OF t(3)[of Jobs k]] m(4)[of k] by simp
    moreover have "result_at fs2 k = result_at fs k" if "k \<noteq> ?i" for k
      using result_at_cong[OF t(3)[of Results k]] m(3)[of k] that by (simp add: id)
    ultimately have "done_as ?i r fs (snd (runJob k6 rn (e1, e2) j fs))"
      using m(1) True by (simp add: runJob_def w k done_as_def)
    with that r show ?thesis by blast
  qed
qed

lemma done_as_effect:
  assumes "done_as i r fs fs'" and "final r"
  shows "pending_ids fs' = pending_ids fs - {i}" and "running_ids t fs' = running_ids t fs - {i}"
    and "claimed fs' i" and "k \<noteq> i \<Longrightarrow> claimed fs' k = claimed fs k" and "lt_inv fs \<Longrightarrow> lt_inv fs'"
proof -
  note d = assms(1)[unfolded done_as_def]
  have f: "final (tidy r)" using assms(2) by (simp add: final_def)
  then show c: "claimed fs' i" using d by (auto simp: claimed_def)
  show o: "k \<noteq> i \<Longrightarrow> claimed fs' k = claimed fs k" for k using d by (simp add: claimed_def)
  show "pending_ids fs' = pending_ids fs - {i}" 
  proof (rule set_eqI)
    fix k show "k \<in> pending_ids fs' \<longleftrightarrow> k \<in> pending_ids fs - {i}"
      using c o d by (cases "k = i") (simp_all add: pending_ids_def)
  qed
  show "running_ids t fs' = running_ids t fs - {i}"
  proof (rule set_eqI)
    fix k show "k \<in> running_ids t fs' \<longleftrightarrow> k \<in> running_ids t fs - {i}"
      using d final_not_running[OF f] by (cases "k = i") (simp_all add: running_ids_def)
  qed
  have "job_at fs k = Some j" if "job_at fs' k = Some j" for k j
    using d that by (cases "k = i") auto
  then show "lt_inv fs \<Longrightarrow> lt_inv fs'" using d by (simp add: lt_inv_def named_def)
qed

text \<open>A tick that finds something to do and nothing running does the oldest job.\<close>

lemma runner_tick_step:
  assumes "lt_inv fs" and "k6_tame k6" and "no_fs_faults e1" and "no_fs_faults e2"
    and "time_ok (fs_now e1)" and "time_ok (fs_now e2)"
    and "running_ids (fs_now e1) fs = {}" and "pending_ids fs \<noteq> {}"
  obtains i j r where "i \<in> pending_ids fs" "job_at fs i = Some j"
    and "\<forall>k\<in>pending_ids fs. \<forall>j'. job_at fs k = Some j' \<longrightarrow> jb_CreatedAt j \<le> jb_CreatedAt j'"
    and "runner_tick k6 rn (e1, e2) fs = snd (runJob k6 rn (e1, e2) j (made fs))"
    and "done_as i r fs (runner_tick k6 rn (e1, e2) fs)" "final r" "rs_RunID r = i" "good_result r"
proof -
  have n: "names_distinct fs" "no_dirs fs" "named fs" using assms(1) by (simp_all add: lt_inv_def)
  have ro: "reads_ok e1" using assms(3) by simp
  obtain jobs where l: "ListPendingJobs e1 fs = (Inr jobs, made fs)"
    "set jobs = {j. \<exists>i\<in>pending_ids fs. job_at fs i = Some j}"
    "length jobs = card (pending_ids fs)" "sorted (map jb_CreatedAt jobs)"
    using ListPendingJobs_ok[OF ro n(1)] by blast
  have h: "HasRunning e1 (made fs) = (Inr False, made fs)"
    using HasRunning_ok[OF ro, of "made fs"] n(1) assms(7) by simp
  have "jobs \<noteq> []" using l(3) assms(8) finite_pending[OF n(1)] by auto
  then obtain j js where j: "jobs = j # js" by (cases jobs) auto
  then obtain i where i: "i \<in> pending_ids fs" "job_at fs i = Some j" using l(2) by auto
  have id: "jb_RunID j = i" using n(3) i(2) by (simp add: named_def)
  have old: "jb_CreatedAt j \<le> jb_CreatedAt j'" if "k \<in> pending_ids fs" "job_at fs k = Some j'" for k j'
  proof -
    have "j' \<in> set jobs" using that l(2) by blast
    then show ?thesis using l(4) j by auto
  qed
  have t: "runner_tick k6 rn (e1, e2) fs = snd (runJob k6 rn (e1, e2) j (made fs))"
    using l(1) h j by (simp add: runner_tick_def)
  obtain r where r: "done_as (jb_RunID j) r (made fs) (snd (runJob k6 rn (e1, e2) j (made fs)))"
    "final r" "rs_RunID r = jb_RunID j" "good_result r"
    using runJob_done[OF assms(3-6,2), of "made fs" j rn] n by (auto simp: no_dirs_def)
  then have "done_as i r fs (runner_tick k6 rn (e1, e2) fs)" unfolding t id by (simp add: done_as_def)
  with that[OF i _ t this r(2)] old r(3,4) id show ?thesis by blast
qed

lemma fresh_later: "fresh_running t' r \<Longrightarrow> t \<le> t' \<Longrightarrow> fresh_running t r"
  by (auto simp: fresh_running_def split: option.splits)

lemma running_later: "t \<le> t' \<Longrightarrow> running_ids t' fs \<subseteq> running_ids t fs"
  by (auto simp: running_ids_def intro: fresh_later)

text \<open>A tick with nothing to do changes nothing that the readers see.\<close>

lemma runner_tick_idle:
  assumes "lt_inv fs" and "no_fs_faults e1" and "pending_ids fs = {}"
  shows "runner_tick k6 rn (e1, e2) fs = made fs"
proof -
  have n: "names_distinct fs" using assms(1) by (simp add: lt_inv_def)
  obtain jobs where "ListPendingJobs e1 fs = (Inr jobs, made fs)" "length jobs = card (pending_ids fs)"
    using ListPendingJobs_ok[OF no_fs_faults_reads[OF assms(2)] n] by metis
  with assms HasRunning_ok[of e1 "made fs"] n show ?thesis by (simp add: runner_tick_def)
qed

definition calm_ticks :: "int \<Rightarrow> (fs_env \<times> fs_env) list \<Rightarrow> bool" where
  "calm_ticks t ess \<longleftrightarrow> (\<forall>es\<in>set ess. no_fs_faults (fst es) \<and> no_fs_faults (snd es)
     \<and> t \<le> fs_now (fst es) \<and> time_ok (fs_now (fst es)) \<and> time_ok (fs_now (snd es)))"

lemma runner_run_drains:
  assumes "lt_inv fs" and "k6_tame k6" and "calm_ticks t ess" and "running_ids t fs = {}"
    and "card (pending_ids fs) \<le> length ess"
  shows "pending_ids (runner_run k6 rn ess fs) = {}
    \<and> (\<forall>i\<in>pending_ids fs. \<exists>r. result_at (runner_run k6 rn ess fs) i = Some (tidy r) \<and> final r \<and> rs_RunID r = i)
    \<and> (\<forall>i. i \<notin> pending_ids fs \<longrightarrow> result_at (runner_run k6 rn ess fs) i = result_at fs i)"
  using assms
proof (induction ess arbitrary: fs)
  case Nil
  then have "finite (pending_ids fs)" by (auto simp: lt_inv_def finite_pending)
  with Nil show ?case by simp
next
  case (Cons es ess)
  obtain e1 e2 where es: "es = (e1, e2)" by fastforce
  have c: "no_fs_faults e1" "no_fs_faults e2" "t \<le> fs_now e1" "time_ok (fs_now e1)" "time_ok (fs_now e2)" "calm_ticks t ess"
    using Cons.prems(3) by (simp_all add: calm_ticks_def es)
  let ?fs1 = "runner_tick k6 rn (e1, e2) fs"
  show ?case
  proof (cases "pending_ids fs = {}")
    case True
    have "runner_run k6 rn ess (made fs) = runner_run k6 rn (es # ess) fs"
      using runner_tick_idle[OF Cons.prems(1) c(1) True] by (simp add: es)
    moreover have "pending_ids (made fs) = {}" "lt_inv (made fs)" "running_ids t (made fs) = {}"
      using True Cons.prems(1,4) by simp_all
    ultimately show ?thesis using Cons.IH[of "made fs"] Cons.prems(2) c(6) True
      by (simp del: made_simps(3))
  next
    case False
    have "running_ids (fs_now e1) fs = {}" using running_later[OF c(3), of fs] Cons.prems(4) by simp
    from runner_tick_step[OF Cons.prems(1,2) c(1,2,4,5) this False]
    obtain i j r where i: "i \<in> pending_ids fs" and d: "done_as i r fs ?fs1" "final r" "rs_RunID r = i"
      by metis
    note ef = done_as_effect[OF d(1,2)]
    have n: "finite (pending_ids fs)" using Cons.prems(1) by (simp add: lt_inv_def finite_pending)
    have "card (pending_ids ?fs1) \<le> length ess" using Cons.prems(5) i n by (simp add: ef(1))
    moreover have "running_ids t ?fs1 = {}" using Cons.prems(4) by (simp add: ef(2))
    ultimately have ih: "pending_ids (runner_run k6 rn ess ?fs1) = {}
      \<and> (\<forall>i\<in>pending_ids ?fs1. \<exists>r. result_at (runner_run k6 rn ess ?fs1) i = Some (tidy r) \<and> final r \<and> rs_RunID r = i)
      \<and> (\<forall>i. i \<notin> pending_ids ?fs1 \<longrightarrow> result_at (runner_run k6 rn ess ?fs1) i = result_at ?fs1 i)"
      using Cons.IH[OF ef(5)[OF Cons.prems(1)] Cons.prems(2) c(6)] by blast
    have "result_at ?fs1 i = Some (tidy r)" and o: "\<forall>k. k \<noteq> i \<longrightarrow> result_at ?fs1 k = result_at fs k"
      using d(1) by (simp_all add: done_as_def)
    then have "result_at (runner_run k6 rn ess ?fs1) i = Some (tidy r)" using ih by (simp add: ef(1))
    with ih d(2,3) i o show ?thesis unfolding es ef(1) runner_run.simps by (metis Diff_iff singletonD)
  qed
qed

end
