(* ===== verification/Loadqueue.thy ===== *)
theory Loadqueue
  imports Runner
begin

text \<open>
  What the API, the runner and the directories between them guarantee together: the queue's bound, the
  life of a job, what the reader of a status learns, and how a failed write shows.
\<close>

section \<open>Submitting\<close>

definition maxQ :: "limits \<Rightarrow> int" where
  "maxQ l = positive_or 3 (MaxQueueDepth l)"

definition maxRun :: "limits \<Rightarrow> int" where
  "maxRun l = positive_or 1 (MaxConcurrent l)"

lemma WriteJob_ok:
  assumes "no_fs_faults e" and "no_dirs fs" and "good_job j" and "WriteJob e j fs = (x, fs')"
  shows "x = Inr ()" and "job_at fs' (jb_RunID j) = Some j"
proof -
  obtain v where v: "encode_job j = Some v" "decode_job (Some v) = (j, True)"
    using decode_encode_job[OF assms(3)] by blast
  have w: "write_json e Jobs (jb_RunID j) (Some v) fs = (x, fs')" using assms(4) v(1) by (simp add: WriteJob_def)
  have ok: "is_ok x" using write_json_ok[OF assms(1), of fs Jobs "jb_RunID j" v] assms(2) w by (simp add: no_dirs_def)
  then show "x = Inr ()" by (cases x) simp_all
  show "job_at fs' (jb_RunID j) = Some j"
    using write_json_views(2)[OF w ok] v(2) by (auto simp: job_at_def)
qed

lemma WriteJob_frame:
  assumes "WriteJob e j fs = (x, fs')"
  shows "result_at fs' k = result_at fs k" and "k \<noteq> jb_RunID j \<Longrightarrow> job_at fs' k = job_at fs k"
    and "\<not> is_ok x \<Longrightarrow> job_at fs' k = job_at fs k"
    and "names_distinct fs \<Longrightarrow> names_distinct fs'" and "no_dirs fs \<Longrightarrow> no_dirs fs'"
proof -
  have w: "write_json e Jobs (jb_RunID j) (encode_job j) fs = (x, fs')" using assms by (simp add: WriteJob_def)
  show "result_at fs' k = result_at fs k" by (rule result_at_cong) (simp add: write_json_views(1)[OF w])
  show o: "k \<noteq> jb_RunID j \<Longrightarrow> job_at fs' k = job_at fs k" for k by (rule job_at_cong) (simp add: write_json_views(1)[OF w])
  show "\<not> is_ok x \<Longrightarrow> job_at fs' k = job_at fs k"
    using o write_json_views(3)[OF w] by (cases "k = jb_RunID j") (auto intro: job_at_cong)
  show "names_distinct fs \<Longrightarrow> names_distinct fs'" and "no_dirs fs \<Longrightarrow> no_dirs fs'"
    using write_json_views(4,5)[OF w] by blast+
qed

lemma new_job_simps [simp]: "jb_RunID (new_job now i req) = i" "jb_CreatedAt (new_job now i req) = now"
    "jb_Scenario (new_job now i req) = rr_Scenario req"
  by (simp_all add: new_job_def)

lemma enqueue_ok:
  assumes "no_fs_faults e" and "no_dirs fs" and "good_job (new_job (fs_now e) i (Apply l req))"
  obtains fs' where "enqueue e i l req fs = (Inr (new_job (fs_now e) i (Apply l req)), fs')"
    and "job_at fs' i = Some (new_job (fs_now e) i (Apply l req))"
    and "\<forall>k. k \<noteq> i \<longrightarrow> job_at fs' k = job_at fs k" and "\<forall>k. result_at fs' k = result_at fs k"
    and "names_distinct fs \<Longrightarrow> names_distinct fs'" and "no_dirs fs'"
proof -
  let ?j = "new_job (fs_now e) i (Apply l req)"
  obtain x fs' where w: "WriteJob e ?j fs = (x, fs')" by fastforce
  note o = WriteJob_ok[OF assms w] and f = WriteJob_frame[OF w]
  show ?thesis
    using that[of fs'] o f assms(2) w by (simp add: enqueue_def Let_def)
qed

section \<open>A run of submissions and ticks\<close>

datatype lt_call =
    L_Submit fs_env string run_request
  | L_Tick "fs_env \<times> fs_env"

fun lt_exec :: "k6_process \<Rightarrow> runner \<Rightarrow> limits \<Rightarrow> lt_call \<Rightarrow> files \<Rightarrow> files" where
  "lt_exec k6 rn l (L_Submit e i req) fs = snd (Submit e i l req fs)"
| "lt_exec k6 rn l (L_Tick es) fs = runner_tick k6 rn es fs"

text \<open>A call without faults, at a representable time; a submission has a fresh identifier.\<close>

fun lt_valid :: "k6_process \<Rightarrow> limits \<Rightarrow> lt_call \<Rightarrow> files \<Rightarrow> bool" where
  "lt_valid k6 l (L_Submit e i req) fs \<longleftrightarrow> no_fs_faults e \<and> good_job (new_job (fs_now e) i (Apply l req))
     \<and> job_at fs i = None \<and> result_at fs i = None
     \<and> int (card (pending_ids fs)) + int (card (running_ids (fs_now e) fs)) < 2 ^ 63"
| "lt_valid k6 l (L_Tick es) fs \<longleftrightarrow> k6_tame k6 \<and> no_fs_faults (fst es) \<and> no_fs_faults (snd es)
     \<and> time_ok (fs_now (fst es)) \<and> time_ok (fs_now (snd es))"

definition lt_bounded :: "limits \<Rightarrow> files \<Rightarrow> bool" where
  "lt_bounded l fs \<longleftrightarrow> lt_inv fs \<and> int (card (pending_ids fs)) \<le> maxQ l"

text \<open>The three refusals of \<open>Submit\<close> and its acceptance.\<close>

lemma Submit_cases:
  assumes "no_fs_faults e" and "lt_inv fs" and "good_job (new_job (fs_now e) i (Apply l req))"
    and "int (card (pending_ids fs)) + int (card (running_ids (fs_now e) fs)) < 2 ^ 63"
  obtains (refused) err fs' where "Submit e i l req fs = (Inl err, fs')" "fs' = fs \<or> fs' = made fs"
      "err = (if \<not> ValidScenario (rr_Scenario req) then ErrInvalidScenario (rr_Scenario req)
              else if maxRun l \<le> int (card (running_ids (fs_now e) fs)) then ErrAlreadyBusy else ErrQueueFull)"
      "\<not> ValidScenario (rr_Scenario req) \<or> maxRun l \<le> int (card (running_ids (fs_now e) fs))
       \<or> maxQ l \<le> int (card (pending_ids fs)) + int (card (running_ids (fs_now e) fs))"
  | (accepted) fs' where "Submit e i l req fs = (Inr (new_job (fs_now e) i (Apply l req)), fs')"
      "ValidScenario (rr_Scenario req)" "int (card (running_ids (fs_now e) fs)) < maxRun l"
      "int (card (pending_ids fs)) + int (card (running_ids (fs_now e) fs)) < maxQ l"
      "job_at fs' i = Some (new_job (fs_now e) i (Apply l req))"
      "\<forall>k. k \<noteq> i \<longrightarrow> job_at fs' k = job_at fs k" "\<forall>k. result_at fs' k = result_at fs k" "lt_inv fs'"
proof -
  let ?p = "int (card (pending_ids fs))" and ?r = "int (card (running_ids (fs_now e) fs))"
  let ?j = "new_job (fs_now e) i (Apply l req)"
  have n: "names_distinct fs" "no_dirs fs" "named fs" using assms(2) by (simp_all add: lt_inv_def)
  have c: "CountActive e fs = (Inr (?p, ?r), made fs)" by (rule CountActive_ok) (simp_all add: assms(1) n)
  have i64: "int64 (?p + ?r) = ?p + ?r" using assms(4) by (intro int64_id) (simp add: in_int64_def)
  have no: "no_dirs (made fs)" using n(2) by (simp add: no_dirs_def)
  obtain fs' where q: "enqueue e i l req (made fs) = (Inr ?j, fs')" "job_at fs' i = Some ?j"
    "\<forall>k. k \<noteq> i \<longrightarrow> job_at fs' k = job_at fs k" "\<forall>k. result_at fs' k = result_at fs k"
    "names_distinct fs'" "no_dirs fs'"
    using enqueue_ok[OF assms(1) no assms(3)] n(1) by (metis views_made(1,2,6))
  have nm: "named fs'" using q(2,3) n(3) unfolding named_def by (metis new_job_simps(1) option.inject)
  show ?thesis
  proof (cases "ValidScenario (rr_Scenario req) \<and> ?r < maxRun l \<and> ?p + ?r < maxQ l")
    case True
    then have "Submit e i l req fs = (Inr ?j, fs')"
      using c i64 q(1) by (simp add: Submit_def CanAccept_def maxQ_def maxRun_def Let_def)
    then show ?thesis using accepted True q nm by (simp add: lt_inv_def)
  next
    case False
    then show ?thesis
      using refused[of "if \<not> ValidScenario (rr_Scenario req) then ErrInvalidScenario (rr_Scenario req)
              else if maxRun l \<le> ?r then ErrAlreadyBusy else ErrQueueFull"] c i64
      by (cases "ValidScenario (rr_Scenario req)"; cases "maxRun l \<le> ?r")
        (auto simp: Submit_def CanAccept_def maxQ_def maxRun_def Let_def)
  qed
qed


lemma runner_tick_busy:
  assumes "lt_inv fs" and "no_fs_faults e1" and "running_ids (fs_now e1) fs \<noteq> {}"
  shows "runner_tick k6 rn (e1, e2) fs = made fs"
proof -
  have n: "names_distinct fs" using assms(1) by (simp add: lt_inv_def)
  obtain jobs where "ListPendingJobs e1 fs = (Inr jobs, made fs)"
    using ListPendingJobs_ok[OF no_fs_faults_reads[OF assms(2)] n] by metis
  moreover have "0 < card (running_ids (fs_now e1) fs)"
    using assms(3) finite_running[OF n] by (simp add: card_gt_0_iff)
  ultimately show ?thesis using assms(2) HasRunning_ok[of e1 "made fs"] n by (simp add: runner_tick_def)
qed

text \<open>What a tick can do: nothing that the readers see, or one job from the queue to its result.\<close>

lemma runner_tick_cases:
  assumes "lt_inv fs" and "k6_tame k6" and "no_fs_faults e1" and "no_fs_faults e2"
    and "time_ok (fs_now e1)" and "time_ok (fs_now e2)"
  obtains (still) "runner_tick k6 rn (e1, e2) fs = made fs"
  | (ran) i r where "i \<in> pending_ids fs" "done_as i r fs (runner_tick k6 rn (e1, e2) fs)" "final r" "rs_RunID r = i"
  using runner_tick_step[OF assms] runner_tick_idle[OF assms(1,3)] runner_tick_busy[OF assms(1,3)] by metis

lemma pending_accepted:
  assumes "\<forall>k. k \<noteq> i \<longrightarrow> job_at fs' k = job_at fs k" and "\<forall>k. result_at fs' k = result_at fs k"
  shows "pending_ids fs' \<subseteq> insert i (pending_ids fs)"
proof
  fix k assume "k \<in> pending_ids fs'"
  then show "k \<in> insert i (pending_ids fs)"
    using assms by (cases "k = i") (simp_all add: pending_ids_def claimed_def)
qed

lemma enqueue_keeps:
  assumes "good_job (new_job (fs_now e) i (Apply l req))" and "enqueue e i l req fs = (r, fs')" and "lt_inv fs"
  shows "lt_inv fs'" and "pending_ids fs' \<subseteq> insert i (pending_ids fs)"
proof -
  let ?j = "new_job (fs_now e) i (Apply l req)"
  obtain x where w: "WriteJob e ?j fs = (x, fs')"
    using assms(2) by (auto simp: enqueue_def Let_def split: prod.splits sum.splits)
  note f = WriteJob_frame[OF w]
  have ji: "job_at fs' i = Some ?j \<or> job_at fs' i = job_at fs i"
  proof (cases "is_ok x")
    case True
    obtain v where v: "encode_job ?j = Some v" "decode_job (Some v) = (?j, True)"
      using decode_encode_job[OF assms(1)] by blast
    have "write_json e Jobs i (Some v) fs = (x, fs')" using w v(1) by (simp add: WriteJob_def)
    from write_json_views(2)[OF this True] v(2) show ?thesis by (auto simp: job_at_def)
  next
    case False
    then show ?thesis using f(3) by blast
  qed
  have other: "k \<noteq> i \<Longrightarrow> job_at fs' k = job_at fs k" for k using f(2) by simp
  have "jb_RunID j = k" if "job_at fs' k = Some j" for k j
    using that ji other[of k] assms(3) by (cases "k = i") (auto simp: lt_inv_def named_def)
  then show "lt_inv fs'" using f(4,5) assms(3) by (auto simp: lt_inv_def named_def)
  show "pending_ids fs' \<subseteq> insert i (pending_ids fs)" by (rule pending_accepted) (simp_all add: other f(1))
qed

lemma lt_exec_bounded:
  assumes "lt_bounded l fs" and "lt_valid k6 l c fs"
  shows "lt_bounded l (lt_exec k6 rn l c fs)"
proof (cases c)
  case (L_Submit e i req)
  have inv: "lt_inv fs" and b: "int (card (pending_ids fs)) \<le> maxQ l" using assms(1) by (simp_all add: lt_bounded_def)
  have v: "no_fs_faults e" "good_job (new_job (fs_now e) i (Apply l req))"
    "int (card (pending_ids fs)) + int (card (running_ids (fs_now e) fs)) < 2 ^ 63"
    using assms(2) L_Submit by simp_all
  show ?thesis
  proof (cases rule: Submit_cases[OF v(1) inv v(2,3)])
    case (1 err fs')
    then show ?thesis using assms(1) inv L_Submit by (auto simp: lt_bounded_def)
  next
    case (2 fs')
    have "finite (pending_ids fs)" using inv by (simp add: lt_inv_def finite_pending)
    then have "card (pending_ids fs') \<le> card (insert i (pending_ids fs))"
      using pending_accepted[OF 2(6,7)] by (intro card_mono) simp_all
    also have "\<dots> \<le> Suc (card (pending_ids fs))" by (rule card_insert_le_m1) simp_all
    finally show ?thesis using 2 L_Submit by (simp add: lt_bounded_def)
  qed
next
  case (L_Tick es)
  obtain e1 e2 where es: "es = (e1, e2)" by fastforce
  have inv: "lt_inv fs" and b: "int (card (pending_ids fs)) \<le> maxQ l" using assms(1) by (simp_all add: lt_bounded_def)
  have v: "k6_tame k6" "no_fs_faults e1" "no_fs_faults e2" "time_ok (fs_now e1)" "time_ok (fs_now e2)"
    using assms(2) L_Tick es by simp_all
  show ?thesis
  proof (cases rule: runner_tick_cases[OF inv v, of rn])
    case 1
    then show ?thesis using assms(1) inv L_Tick es by (simp add: lt_bounded_def)
  next
    case (2 i r)
    have "finite (pending_ids fs)" using inv by (simp add: lt_inv_def finite_pending)
    then show ?thesis
      using done_as_effect(1,5)[OF 2(2,3)] inv b L_Tick es card_Diff1_le[of "pending_ids fs" i]
      by (simp add: lt_bounded_def)
  qed
qed

interpretation ltq: keeper "lt_exec k6 rn l" "lt_valid k6 l" "lt_bounded l" for k6 rn l
  by unfold_locales (rule lt_exec_bounded)


section \<open>The properties of submissions and runs\<close>

text \<open>
  C12. The queue never holds more jobs than its limit: starting from directories in which it does not,
  every sequence of submissions and runner ticks (without file errors, with fresh identifiers) ends in
  directories with at most \<open>MaxQueueDepth\<close> pending jobs, and that is what \<open>CountActive\<close> reports.
\<close>

theorem queue_never_overflows:
  assumes "lt_inv fs" and "int (card (pending_ids fs)) \<le> maxQ l"
    and "valid_run (lt_exec k6 rn l) (lt_valid k6 l) cs fs" and "reads_ok e"
    and "CountActive e (run_calls (lt_exec k6 rn l) cs fs) = (Inr (pending, running), fs')"
  shows "pending \<le> maxQ l"
proof -
  have b: "lt_bounded l (run_calls (lt_exec k6 rn l) cs fs)"
    using assms(1-3) by (intro ltq.run_keeps) (simp_all add: lt_bounded_def)
  then have "names_distinct (run_calls (lt_exec k6 rn l) cs fs)" by (simp add: lt_bounded_def lt_inv_def)
  from CountActive_ok[OF assms(4) this] assms(5) b show ?thesis by (simp add: lt_bounded_def)
qed

text \<open>A small example: empty directories, a request, and a \<open>k6\<close> that leaves nothing behind.\<close>

definition no_files :: files where
  "no_files = (\<lambda>_. None)"

definition new_year :: int where
  "new_year = (730485 - 719162) * 86400 * 10 ^ 9"

definition a_request :: run_request where
  "a_request = \<lparr>rr_Scenario = ''launch_spike'', rr_SaleID = ''s'', rr_VUsMax = 0, rr_RampUp = [], rr_Steady = ''1h'',
     rr_RampDown = [], rr_AdmitPerMinute = 0, rr_WaitingRoomCap = 0, rr_TotalSeats = 0\<rparr>"

definition silent_k6 :: k6_process where
  "silent_k6 = (\<lambda>env script fs. ((''done'', None), fs))"

definition a_runner :: runner where
  "a_runner = runner_settings (\<lambda>_. []) [] (\<lambda>_. True) (\<lambda>_. ''error'')"

lemma views_no_files [simp]: "lookup no_files D k = None" "entries no_files D = []" "file_at no_files D i = None"
    "job_at no_files i = None"
    "result_at no_files i = None" "pending_ids no_files = {}" "running_ids t no_files = {}" "lt_inv no_files"
  by (simp_all add: no_files_def lookup_def entries_def file_at_def job_at_def result_at_def pending_ids_def running_ids_def
      lt_inv_def names_distinct_def no_dirs_def named_def)

lemma new_year_ok [simp]: "time_ok new_year" "time_ok (new_year + 10800000000000)"
  by code_simp+

lemma silent_k6_tame [simp]: "k6_tame silent_k6"
  by (simp add: k6_tame_def silent_k6_def Let_def)

lemma default_limits_simps [simp]: "maxQ DefaultLimits = 3" "maxRun DefaultLimits = 1"
  by (simp_all add: maxQ_def maxRun_def positive_or_def DefaultLimits_def)

lemma good_a_request [simp]: "good_job (new_job new_year i (Apply DefaultLimits a_request))"
  by (simp add: good_job_def new_job_def Apply_def a_request_def positive_or_def cap_vus_def DefaultLimits_def in_int64_def)

lemma a_request_valid [simp]: "ValidScenario (rr_Scenario a_request)"
  by (simp add: a_request_def ValidScenario_def AllowedScenarios_def)

lemma queue_never_overflows_witness:
  "fst (projr (fst (CountActive (calm_fs new_year) (run_calls (lt_exec silent_k6 a_runner DefaultLimits)
     [L_Submit (calm_fs new_year) ''a'' a_request, L_Tick (calm_fs new_year, calm_fs new_year)] no_files)))) \<le> 3"
proof -
  let ?cs = "[L_Submit (calm_fs new_year) ''a'' a_request, L_Tick (calm_fs new_year, calm_fs new_year)]"
  have v: "valid_run (lt_exec silent_k6 a_runner DefaultLimits) (lt_valid silent_k6 DefaultLimits) ?cs no_files" by simp
  have "lt_bounded DefaultLimits (run_calls (lt_exec silent_k6 a_runner DefaultLimits) ?cs no_files)"
    by (rule ltq.run_keeps[OF _ v]) (simp add: lt_bounded_def)
  then have n: "names_distinct (run_calls (lt_exec silent_k6 a_runner DefaultLimits) ?cs no_files)"
    by (simp add: lt_bounded_def lt_inv_def)
  show ?thesis
    using queue_never_overflows[OF _ _ v, where e = "calm_fs new_year"] CountActive_ok[of "calm_fs new_year", OF _ n]
    by simp
qed



definition one_job :: files where
  "one_job = no_files(Jobs := Some [(''a.json'', F_File (encode_job (new_job new_year ''a'' (Apply DefaultLimits a_request))))])"

lemma one_job_views:
  "job_at one_job i = (if i = ''a'' then Some (new_job new_year ''a'' (Apply DefaultLimits a_request)) else None)"
  "result_at one_job i = None" "pending_ids one_job = {''a''}" "running_ids t one_job = {}" "lt_inv one_job"
proof -
  let ?j = "new_job new_year ''a'' (Apply DefaultLimits a_request)"
  obtain v where v: "encode_job ?j = Some v" "decode_job (Some v) = (?j, True)"
    using decode_encode_job[OF good_a_request] by blast
  have l: "lookup one_job D k = (if D = Jobs \<and> k = ''a.json'' then Some (F_File (Some v)) else None)" for D k
    by (simp add: lookup_def one_job_def v(1))
  have f: "file_at one_job D k = (if D = Jobs \<and> k = ''a'' then Some (Some v) else None)" for D k
  proof -
    have "json_name k = ''a.json'' \<longleftrightarrow> k = ''a''" using json_name_inj[of k "''a''"] by (simp add: json_name_def)
    then show ?thesis by (simp add: file_at_def l)
  qed
  show j: "job_at one_job i = (if i = ''a'' then Some ?j else None)" for i by (simp add: job_at_def f v(2))
  show r: "result_at one_job i = None" for i by (simp add: result_at_def f)
  show "pending_ids one_job = {''a''}" by (auto simp: pending_ids_def claimed_def j r)
  show "running_ids t one_job = {}" by (simp add: running_ids_def r)
  show "lt_inv one_job"
    by (simp add: lt_inv_def names_distinct_def no_dirs_def named_def l j) (simp add: one_job_def)
qed


text \<open>
  \<open>Submit\<close> without file errors: it refuses an unknown scenario, then a busy runner, then a full
  queue, and in these cases leaves every job and result as it is; otherwise it stores the request with
  the limits applied, the run is pending and every reader is told that it is queued.
\<close>

theorem submit_exact:
  assumes "no_fs_faults e" and "lt_inv fs" and "good_job (new_job (fs_now e) i (Apply l req))"
    and "int (card (pending_ids fs)) + int (card (running_ids (fs_now e) fs)) < 2 ^ 63"
    and "result_at fs i = None" and "reads_ok e'"
    and "Submit e i l req fs = (x, fs')"
  shows "x = (if \<not> ValidScenario (rr_Scenario req) then Inl (ErrInvalidScenario (rr_Scenario req))
              else if maxRun l \<le> int (card (running_ids (fs_now e) fs)) then Inl ErrAlreadyBusy
              else if maxQ l \<le> int (card (pending_ids fs)) + int (card (running_ids (fs_now e) fs)) then Inl ErrQueueFull
              else Inr (new_job (fs_now e) i (Apply l req)))
    \<and> (\<forall>k. result_at fs' k = result_at fs k) \<and> (\<forall>k. k \<noteq> i \<or> \<not> is_ok x \<longrightarrow> job_at fs' k = job_at fs k)
    \<and> (is_ok x \<longrightarrow> job_at fs' i = Some (new_job (fs_now e) i (Apply l req)) \<and> i \<in> pending_ids fs'
        \<and> GetRun e' i fs' = Inr (no_result\<lparr>rs_RunID := i, rs_Status := StatusQueued\<rparr>))"
proof (cases rule: Submit_cases[OF assms(1-4)])
  case (1 err fs1)
  then show ?thesis using assms(7) by auto
next
  case (2 fs1)
  have r: "result_at fs1 i = None" using 2(6) assms(5) 2(7) by simp
  have "\<not> (\<exists>y. ReadResult e' i fs1 = Inr y)" using r ReadResult_ok[OF assms(6)] by simp
  then obtain er where "ReadResult e' i fs1 = Inl er" by (cases "ReadResult e' i fs1") auto
  moreover have "ReadJob e' i fs1 = Inr (new_job (fs_now e) i (Apply l req))"
    using 2(5) ReadJob_ok[OF assms(6)] by simp
  ultimately have "GetRun e' i fs1 = Inr (no_result\<lparr>rs_RunID := i, rs_Status := StatusQueued\<rparr>)"
    by (simp add: GetRun_def GetStatus_def)
  moreover have "i \<in> pending_ids fs1" using 2(5) r by (simp add: pending_ids_def claimed_def)
  ultimately show ?thesis using 2 assms(7) by simp
qed

lemma submit_exact_witness:
  "is_ok (fst (Submit (calm_fs new_year) ''a'' DefaultLimits a_request no_files))
   \<and> fst (Submit (calm_fs new_year) ''b'' (DefaultLimits\<lparr>MaxQueueDepth := 1\<rparr>) a_request one_job) = Inl ErrQueueFull"
proof -
  have g: "good_job (new_job (fs_now (calm_fs new_year)) ''b'' (Apply (DefaultLimits\<lparr>MaxQueueDepth := 1\<rparr>) a_request))"
    by (simp add: good_job_def new_job_def Apply_def a_request_def positive_or_def cap_vus_def DefaultLimits_def in_int64_def)
  have q: "maxQ (DefaultLimits\<lparr>MaxQueueDepth := 1\<rparr>) = 1" "maxRun (DefaultLimits\<lparr>MaxQueueDepth := 1\<rparr>) = 1"
    by (simp_all add: maxQ_def maxRun_def positive_or_def DefaultLimits_def)
  show ?thesis
    using submit_exact[of "calm_fs new_year" no_files "''a''" DefaultLimits a_request "calm_fs new_year", OF _ _ _ _ _ _ surjective_pairing]
      submit_exact[OF _ one_job_views(5) g _ _ _ surjective_pairing, of "calm_fs new_year"]
    by (simp add: one_job_views q)
qed

section \<open>A run that writes no summary\<close>

text \<open>
  C29. When \<open>k6\<close> ends without having written its summary, the run is stored as failed, without a message
  and without an end, whether \<open>k6\<close> succeeded or not: \<open>runJob\<close> finds its own running marker in the place
  of the summary and reads it as a report, so that the branch for a missing summary is never taken and
  the error and the output of \<open>k6\<close> are lost.
\<close>

theorem lost_summary_hides_error:
  assumes "no_fs_faults e1" and "no_fs_faults e2" and "time_ok (fs_now e1)" and "no_dirs fs"
    and "rn_script_exists rn (script_path rn j)" and "\<forall>env script gs. snd (k6 env script gs) = gs"
    and "reads_ok e'"
  shows "GetStatus e' (jb_RunID j) (snd (runJob k6 rn (e1, e2) j fs)) =
     Inr (no_result\<lparr>rs_RunID := jb_RunID j, rs_Scenario := jb_Scenario j, rs_SaleID := jb_SaleID j, rs_Status := StatusFailed\<rparr>)"
proof -
  let ?i = "jb_RunID j" and ?m = "marker_json (fs_now e1) (jb_RunID j)"
  let ?r = "no_result\<lparr>rs_RunID := ?i, rs_Scenario := jb_Scenario j, rs_SaleID := jb_SaleID j, rs_Status := StatusFailed\<rparr>"
  obtain x fs1 where w: "WriteRunning e1 ?i fs = (x, fs1)" by fastforce
  note m = WriteResult_ok[OF assms(1,4) good_marker[OF assms(3)] w[unfolded WriteRunning_marker]]
  have "write_json e1 Results ?i (Some ?m) fs = (Inr (), fs1)"
    using w m(1) encode_marker[OF assms(3)] by (simp add: WriteRunning_marker WriteResult_def running_marker_def)
  then have f: "file_at fs1 Results ?i = Some (Some ?m)" using write_json_views(2) by fastforce
  obtain oe where k: "k6 (k6_env rn j) (script_path rn j) fs1 = (oe, fs1)" using assms(6) by (metis prod.collapse)
  obtain out err where oe: "oe = (out, err)" by fastforce
  have "ReadFile e2 Results (json_name ?i) fs1 = Inr (Some ?m)"
    using ReadFile_ok[OF no_fs_faults_reads[OF assms(2)]] f by blast
  moreover have "ParseK6Report ?i (Some ?m) = Inr (no_result\<lparr>rs_RunID := ?i, rs_Status := StatusFailed\<rparr>)"
    by (simp add: ParseK6Report_def decode_marker_report no_result_def)
  moreover have "evaluated j err (no_result\<lparr>rs_RunID := ?i, rs_Status := StatusFailed\<rparr>) = ?r"
    by (simp add: evaluated_def Let_def nonempty_or_def StatusFailed_def StatusPassed_def no_result_def)
  ultimately have c: "conclude rn e2 j oe fs1 = finish e2 ?i (WriteResult e2 ?r fs1)"
    by (simp add: conclude_def oe)
  have g: "good_result ?r" by (simp add: good_result_def)
  obtain y fs2 where w2: "WriteResult e2 ?r fs1 = (y, fs2)" by fastforce
  note o = WriteResult_ok[OF assms(2) m(6) g w2]
  have "tidy ?r = ?r" by (simp add: tidy_def nil_of_def no_result_def)
  then have "result_at fs2 ?i = Some ?r" using o(2) by simp
  moreover have "snd (runJob k6 rn (e1, e2) j fs) = drop_entry Jobs (json_name ?i) fs2"
    using m(1) assms(5) o(1) assms(2) by (simp add: runJob_def w k c w2 finish_def Remove_def)
  ultimately have "result_at (snd (runJob k6 rn (e1, e2) j fs)) ?i = Some ?r"
    by (simp add: result_at_def drop_entry_views)
  then have "ReadResult e' ?i (snd (runJob k6 rn (e1, e2) j fs)) = Inr ?r" using ReadResult_ok[OF assms(7)] by blast
  then show ?thesis by (simp add: GetStatus_def StatusFailed_def StatusRunning_def)
qed

definition failing_k6 :: k6_process where
  "failing_k6 = (\<lambda>env script fs. ((''panic'', Some ''exit status 107''), fs))"

lemma lost_summary_hides_error_witness:
  "rs_Error (projr (GetStatus (calm_fs new_year) ''a'' (snd (runJob failing_k6 a_runner
      (calm_fs new_year, calm_fs new_year) (new_job new_year ''a'' a_request) no_files)))) = ''''"
  using lost_summary_hides_error[of "calm_fs new_year" "calm_fs new_year" no_files a_runner
      "new_job new_year ''a'' a_request" failing_k6 "calm_fs new_year"]
  by (simp add: failing_k6_def a_runner_def runner_settings_def no_dirs_def)

section \<open>Runs that were interrupted\<close>

definition timed_out :: "int \<Rightarrow> run_result \<Rightarrow> bool" where
  "timed_out now r \<longleftrightarrow> rs_Status r = StatusRunning \<and> (\<exists>t. rs_StartedAt r = Some t \<and> stale_after < now - t)"

lemma runner_run_keeps_results:
  assumes "lt_inv fs" and "k6_tame k6" and "calm_ticks t ess" and "i \<notin> pending_ids fs"
  shows "result_at (runner_run k6 rn ess fs) i = result_at fs i"
  using assms
proof (induction ess arbitrary: fs)
  case (Cons es ess)
  obtain e1 e2 where es: "es = (e1, e2)" by fastforce
  have c: "no_fs_faults e1" "no_fs_faults e2" "time_ok (fs_now e1)" "time_ok (fs_now e2)" "calm_ticks t ess"
    using Cons.prems(3) by (simp_all add: calm_ticks_def es)
  let ?fs1 = "runner_tick k6 rn (e1, e2) fs"
  have "lt_inv ?fs1 \<and> i \<notin> pending_ids ?fs1 \<and> result_at ?fs1 i = result_at fs i"
  proof (cases rule: runner_tick_cases[OF Cons.prems(1,2) c(1-4), of rn])
    case 1
    then show ?thesis using Cons.prems(1,4) by simp
  next
    case (2 k r)
    then have "i \<noteq> k" using Cons.prems(4) by blast
    with 2 done_as_effect(1,5)[OF 2(2,3)] Cons.prems(1,4) show ?thesis by (simp add: done_as_def)
  qed
  with Cons.IH[of ?fs1] Cons.prems(2) c(5) show ?case by (simp add: es)
qed simp


text \<open>The runner died in the only run, at the start of the year.\<close>

definition crashed :: files where
  "crashed = snd (WriteRunning (calm_fs new_year) ''a'' one_job)"

lemma crashed_views:
  "result_at crashed i = (if i = ''a'' then Some (running_marker new_year ''a'') else None)"
  "job_at crashed i = job_at one_job i" "lt_inv crashed"
proof -
  obtain x fs' where w: "WriteResult (calm_fs new_year) (running_marker new_year ''a'') one_job = (x, fs')" by fastforce
  have n: "no_dirs one_job" "names_distinct one_job" "named one_job" using one_job_views(5) by (simp_all add: lt_inv_def)
  have id: "rs_RunID (running_marker new_year ''a'') = ''a''" by (simp add: running_marker_def)
  have t: "tidy (running_marker new_year ''a'') = running_marker new_year ''a''"
    by (simp add: tidy_def nil_of_def running_marker_def no_result_def)
  note o = WriteResult_ok[OF _ n(1) good_marker[OF new_year_ok(1)] w]
  have c: "crashed = fs'" using w by (simp add: crashed_def WriteRunning_marker)
  show "result_at crashed i = (if i = ''a'' then Some (running_marker new_year ''a'') else None)"
    using o(2,3) by (simp add: c id t one_job_views(2))
  show j: "job_at crashed i = job_at one_job i" for i using o(4) by (simp add: c)
  show "lt_inv crashed" using o(5,6) n by (simp add: c lt_inv_def named_def j[unfolded c])
qed


lemma clean_loop_effect:
  assumes "no_fs_faults e" and "clean_loop e maxAge ids n fs = (m, fs')"
  shows "(\<forall>k. result_at fs' k = (if k \<in> set ids \<and> (\<exists>r. result_at fs k = Some r \<and> abandoned (fs_now e) maxAge r)
      then None else result_at fs k)) \<and> (\<forall>k. job_at fs' k = job_at fs k)
    \<and> (names_distinct fs \<longrightarrow> names_distinct fs') \<and> (no_dirs fs \<longrightarrow> no_dirs fs')"
  using assms(2)
proof (induction ids arbitrary: n fs)
  case (Cons i ids)
  have ro: "reads_ok e" using assms(1) by simp
  show ?case
  proof (cases "\<exists>r. result_at fs i = Some r \<and> abandoned (fs_now e) maxAge r")
    case False
    have "clean_loop e maxAge ids n fs = (m, fs')"
      using Cons.prems False ReadResult_ok[OF ro, of i fs] by (auto split: sum.splits if_splits)
    from Cons.IH[OF this] False show ?thesis by auto
  next
    case True
    let ?d = "drop_entry Results (json_name i) fs"
    obtain r where r: "result_at fs i = Some r" "abandoned (fs_now e) maxAge r" using True by blast
    then have "ReadResult e i fs = Inr r" using ReadResult_ok[OF ro] by blast
    then have l: "clean_loop e maxAge ids (n + 1) ?d = (m, fs')"
      using Cons.prems r(2) assms(1) by (simp add: Remove_def)
    have "job_at ?d k = job_at fs k" "result_at ?d k = (if k = i then None else result_at fs k)" for k
      by (simp_all add: job_at_def result_at_def drop_entry_views)
    with Cons.IH[OF l] r drop_entry_views(2,3)[where fs = fs and D = Results] show ?thesis by auto
  qed
qed simp

lemma runner_start_effect:
  assumes "no_fs_faults e" and "lt_inv fs" and "runner_start e fs = Some fs'"
  shows "lt_inv fs' \<and> pending_ids fs' = pending_ids fs
      \<union> {i. job_at fs i \<noteq> None \<and> (\<exists>r. result_at fs i = Some r \<and> abandoned (fs_now e) (2 * 3600 * 10 ^ 9) r)}
    \<and> (\<forall>i. result_at fs' i = (if \<exists>r. result_at fs i = Some r \<and> abandoned (fs_now e) (2 * 3600 * 10 ^ 9) r
        then None else result_at fs i))
    \<and> (\<forall>i. job_at fs' i = job_at fs i)"
proof -
  let ?two = "2 * 3600 * 10 ^ 9 :: int"
  let ?ids = "runs_of (sort_key fst (entries fs Results))"
  have n: "names_distinct fs" "no_dirs fs" "named fs" using assms(2) by (simp_all add: lt_inv_def)
  obtain m fs1 where c: "clean_loop e ?two ?ids 0 (made fs) = (m, fs1)" by fastforce
  have "fs' = fs1"
    using assms(1,3) c by (simp add: runner_start_def EnsureDirs_ok CleanStaleRunning_def ReadDir_def)
  note l = clean_loop_effect[OF assms(1) c, folded \<open>fs' = fs1\<close>]
  have ids: "k \<in> set ?ids" if "result_at fs k = Some r" for k r
    using run_ids(2)[OF n(1)] result_at_file[OF that] by blast
  have r: "result_at fs' k = (if \<exists>r. result_at fs k = Some r \<and> abandoned (fs_now e) ?two r then None else result_at fs k)" for k
    using l ids by auto
  have j: "job_at fs' k = job_at fs k" for k using l by simp
  have inv: "lt_inv fs'" using l n by (simp add: lt_inv_def named_def no_dirs_def)
  have cl: "abandoned now a x \<Longrightarrow> claims x" for now a x by (simp add: abandoned_def claims_def)
  have "pending_ids fs' = pending_ids fs
      \<union> {i. job_at fs i \<noteq> None \<and> (\<exists>r. result_at fs i = Some r \<and> abandoned (fs_now e) ?two r)}"
    by (rule set_eqI) (auto simp: pending_ids_def claimed_def j r)
  then show ?thesis using inv r j by blast
qed

text \<open>
  C31. Only a restart of the runner frees an interrupted run, and only when its marker is at least two hours
  old (or carries no start): then the marker is removed and the job is pending again. Every other result
  and every job stays. A runner restarted earlier leaves the run to its marker for good.
\<close>

theorem restart_requeues_old_runs:
  assumes "no_fs_faults e" and "lt_inv fs" and "runner_start e fs = Some fs'"
  shows "lt_inv fs' \<and> pending_ids fs' = pending_ids fs
      \<union> {i. job_at fs i \<noteq> None \<and> (\<exists>r. result_at fs i = Some r \<and> abandoned (fs_now e) (2 * 3600 * 10 ^ 9) r)}
    \<and> (\<forall>i. result_at fs' i = (if \<exists>r. result_at fs i = Some r \<and> abandoned (fs_now e) (2 * 3600 * 10 ^ 9) r
        then None else result_at fs i))
    \<and> (\<forall>i. job_at fs' i = job_at fs i)"
  using runner_start_effect[OF assms] .

lemma restart_requeues_old_runs_witness:
  "\<exists>fs'. runner_start (calm_fs (new_year + 10800000000000)) crashed = Some fs' \<and> pending_ids fs' = {''a''}"
proof -
  obtain fs' where s: "runner_start (calm_fs (new_year + 10800000000000)) crashed = Some fs'"
    by (simp add: runner_start_def EnsureDirs_ok)
  have "abandoned (new_year + 10800000000000) 7200000000000 (running_marker new_year ''a'')"
    by (simp add: abandoned_def running_marker_def)
  moreover have "pending_ids crashed = {}"
    by (auto simp: pending_ids_def claimed_def crashed_views one_job_views claims_def running_marker_def)
  ultimately have "pending_ids fs' = {''a''}"
    using restart_requeues_old_runs[OF _ crashed_views(3) s] by (auto simp: crashed_views one_job_views split: if_splits)
  with s show ?thesis by blast
qed

section \<open>Requests with limits applied\<close>

definition request_ints :: "run_request \<Rightarrow> int list" where
  "request_ints q = [rr_VUsMax q, rr_AdmitPerMinute q, rr_WaitingRoomCap q, rr_TotalSeats q]"

definition limits_ok :: "limits \<Rightarrow> bool" where
  "limits_ok l \<longleftrightarrow> 0 < DefaultVUs l \<and> in_int64 (DefaultVUs l) \<and> 0 < MaxVUs l \<and> in_int64 (MaxVUs l)
     \<and> 0 < MaxSteady l \<and> in_int64 (MaxSteady l)"

lemma fmt_not_empty: "DurationString d \<noteq> []" if "in_int64 d"
  using ParseDuration_String[OF that] by (auto simp: ParseDuration_def parse_sign_def)

lemma cap_steady_fixed: "in_int64 (MaxSteady l) \<Longrightarrow> cap_steady l (cap_steady l s) = cap_steady l s"
  using ParseDuration_String[of "MaxSteady l"] by (simp add: cap_steady_def split: option.split)

lemma cap_steady_nonempty: "in_int64 (MaxSteady l) \<Longrightarrow> s \<noteq> [] \<Longrightarrow> cap_steady l s \<noteq> []"
  using fmt_not_empty by (simp add: cap_steady_def split: option.split)

lemma nonempty_or_simps [simp]: "d \<noteq> [] \<Longrightarrow> nonempty_or d s \<noteq> []" "s \<noteq> [] \<Longrightarrow> nonempty_or d s = s"
  by (simp_all add: nonempty_or_def)

lemma positive_or_simps [simp]: "0 < n \<Longrightarrow> positive_or d n = n" "in_int64 d \<Longrightarrow> in_int64 n \<Longrightarrow> in_int64 (positive_or d n)"
  by (simp_all add: positive_or_def)

text \<open>
  C37. Every request that goes into the queue is well formed: its sizes are positive 64-bit numbers, the
  virtual users are within their limit, no duration is empty and a steady phase whose duration Go can
  read is within its limit; one it cannot read is passed on unchanged. Scenario and sale are kept, and
  applying the limits again changes nothing.
\<close>

theorem request_well_formed:
  assumes "limits_ok l" and "\<forall>n\<in>set (request_ints req). in_int64 n"
  defines "q \<equiv> Apply l req"
  shows "rr_Scenario q = rr_Scenario req \<and> rr_SaleID q = rr_SaleID req
    \<and> (\<forall>n\<in>set (request_ints q). 0 < n \<and> in_int64 n) \<and> rr_VUsMax q \<le> MaxVUs l
    \<and> rr_RampUp q \<noteq> [] \<and> rr_Steady q \<noteq> [] \<and> rr_RampDown q \<noteq> []
    \<and> (\<forall>d. ParseDuration (rr_Steady q) = Some d \<longrightarrow> d \<le> MaxSteady l)
    \<and> (rr_Steady req \<noteq> [] \<and> ParseDuration (rr_Steady req) = None \<longrightarrow> rr_Steady q = rr_Steady req)
    \<and> Apply l q = q"
proof -
  have l: "0 < DefaultVUs l" "in_int64 (DefaultVUs l)" "0 < MaxVUs l" "in_int64 (MaxVUs l)" "0 < MaxSteady l" "in_int64 (MaxSteady l)"
    using assms(1) by (simp_all add: limits_ok_def)
  have vu: "0 < cap_vus l n \<and> in_int64 (cap_vus l n) \<and> cap_vus l n \<le> MaxVUs l \<and> cap_vus l (cap_vus l n) = cap_vus l n"
    if "0 < n" "in_int64 n" for n using l that by (simp add: cap_vus_def)
  have c: "in_int64 6000" "in_int64 100000" "in_int64 500" by (simp_all add: in_int64_def)
  note v = vu[OF Apply_positive[OF l(1)] positive_or_simps(2)[OF l(2)], of "rr_VUsMax req"]
  have st: "cap_steady l (nonempty_or ''30s'' (rr_Steady req)) \<noteq> []"
    by (rule cap_steady_nonempty[OF l(6)]) simp
  show ?thesis
    using assms(2) v st c Apply_positive cap_steady_le[OF l(6,5)] cap_steady_fixed[OF l(6)]
    by (simp add: q_def Apply_def request_ints_def) (auto simp: cap_steady_def)
qed

lemma request_well_formed_witness:
  "rr_VUsMax (Apply DefaultLimits a_request) \<le> 150 \<and> rr_Steady (Apply DefaultLimits a_request) \<noteq> ''''
   \<and> Apply DefaultLimits (Apply DefaultLimits a_request) = Apply DefaultLimits a_request"
proof -
  have "limits_ok DefaultLimits" by (simp add: limits_ok_def DefaultLimits_def in_int64_def)
  moreover have "\<forall>n\<in>set (request_ints a_request). in_int64 n" by (simp add: request_ints_def a_request_def in_int64_def)
  ultimately show ?thesis using request_well_formed[of DefaultLimits a_request] by (simp add: DefaultLimits_def)
qed

section \<open>Jobs and results on disk\<close>

text \<open>
  C38. What is written is read back: a job unchanged, a result with its empty lists and maps as absent
  ones (\<open>omitempty\<close>), to the nanosecond of its times.
\<close>

theorem disk_round_trip:
  assumes "no_fs_faults e" and "no_dirs fs" and "good_job j" and "good_result r" and "reads_ok e'"
  shows "ReadJob e' (jb_RunID j) (snd (WriteJob e j fs)) = Inr j
    \<and> ReadResult e' (rs_RunID r) (snd (WriteResult e r fs)) = Inr (tidy r)"
proof -
  obtain x fs1 where j: "WriteJob e j fs = (x, fs1)" by fastforce
  obtain y fs2 where r: "WriteResult e r fs = (y, fs2)" by fastforce
  show ?thesis
    using WriteJob_ok(2)[OF assms(1-3) j] WriteResult_ok(2)[OF assms(1,2,4) r]
    by (simp add: j r ReadJob_ok[OF assms(5)] ReadResult_ok[OF assms(5)])
qed

lemma disk_round_trip_witness:
  "ReadJob (calm_fs 0) ''a'' (snd (WriteJob (calm_fs 0) (new_job new_year ''a'' (Apply DefaultLimits a_request)) no_files))
     = Inr (new_job new_year ''a'' (Apply DefaultLimits a_request))
   \<and> ReadResult (calm_fs 0) ''a'' (snd (WriteResult (calm_fs 0) (running_marker new_year ''a'') no_files))
     = Inr (running_marker new_year ''a'')"
proof -
  have "tidy (running_marker new_year ''a'') = running_marker new_year ''a''" "rs_RunID (running_marker new_year ''a'') = ''a''"
    by (simp_all add: tidy_def nil_of_def running_marker_def no_result_def)
  then show ?thesis
    using disk_round_trip[OF _ _ good_a_request good_marker[OF new_year_ok(1)], of "calm_fs 0" no_files "calm_fs 0" "''a''" "''a''"]
    by (simp add: no_dirs_def)
qed

text \<open>
  C21. Writing a result is all or nothing, whatever fails in it and even when a failing write leaves half a
  file: after an error every reader finds the result that was there before, after a success the new one;
  other runs and all jobs are as before.
\<close>

theorem write_result_atomic:
  assumes "good_result r" and "WriteResult e r fs = (x, fs')" and "reads_ok e'"
  shows "(if is_ok x then ReadResult e' (rs_RunID r) fs' = Inr (tidy r)
      else ReadResult e' (rs_RunID r) fs' = ReadResult e' (rs_RunID r) fs)
    \<and> (\<forall>k. k \<noteq> rs_RunID r \<longrightarrow> ReadResult e' k fs' = ReadResult e' k fs) \<and> (\<forall>k. ReadJob e' k fs' = ReadJob e' k fs)"
proof -
  obtain v where v: "encode_result r = Some v" "decode_result (Some v) = (tidy r, True)"
    using decode_encode_result[OF assms(1)] by blast
  have w: "write_json e Results (rs_RunID r) (Some v) fs = (x, fs')" using assms(2) v(1) by (simp add: WriteResult_def)
  note ef = write_json_effect[OF w]
  have same: "ReadResult e' k fs' = ReadResult e' k fs" if "lookup fs' Results (json_name k) = lookup fs Results (json_name k)" for k
    using that by (simp add: ReadResult_def ReadFile_def)
  have "ReadJob e' k fs' = ReadJob e' k fs" for k using ef(1) by (simp add: ReadJob_def ReadFile_def)
  moreover have "ReadResult e' k fs' = ReadResult e' k fs" if "k \<noteq> rs_RunID r" for k using that ef(1) by (intro same) simp
  moreover have "ReadResult e' (rs_RunID r) fs' = Inr (tidy r)" if "is_ok x"
    using ef(2)[OF that] v(2) assms(3) by (auto simp: ReadResult_def ReadFile_def reads_ok_def)
  ultimately show ?thesis using ef(3) same by simp
qed

lemma write_result_atomic_witness:
  "let e = (calm_fs 0)\<lparr>fs_fault := (\<lambda>p. p = Op_Write Results ''a.json.tmp''), fs_torn := True\<rparr>
   in \<not> is_ok (fst (WriteResult e (running_marker (new_year + 10800000000000) ''a'') crashed))
    \<and> ReadResult (calm_fs 0) ''a'' (snd (WriteResult e (running_marker (new_year + 10800000000000) ''a'') crashed))
      = Inr (running_marker new_year ''a'')"
proof -
  let ?e = "(calm_fs 0)\<lparr>fs_fault := (\<lambda>p. p = Op_Write Results ''a.json.tmp''), fs_torn := True\<rparr>"
  let ?r = "running_marker (new_year + 10800000000000) ''a''"
  obtain v where v: "encode_result ?r = Some v" using encode_marker[OF new_year_ok(2)] by blast
  have id: "rs_RunID ?r = ''a''" by (simp add: running_marker_def)
  have no: "no_dirs crashed" using crashed_views(3) by (simp add: lt_inv_def)
  have "\<not> is_ok (fst (WriteResult ?e ?r crashed))"
    using no unfolding WriteResult_def v id write_json_def no_dirs_def
    by (simp add: EnsureDirs_ok reads_ok_def json_name_def WriteFile_def Let_def)
  moreover have "ReadResult (calm_fs 0) ''a'' crashed = Inr (running_marker new_year ''a'')"
    using ReadResult_ok[of "calm_fs 0" "''a''" crashed] crashed_views(1) by simp
  ultimately show ?thesis
    using write_result_atomic[OF good_marker[OF new_year_ok(2), of "''a''"] surjective_pairing, where e' = "calm_fs 0" and e = ?e and fs = crashed]
    by (simp add: id Let_def)
qed

end
