(* ===== verification/Demo.thy ===== *)
theory Demo
  imports System Dashboard Loadqueue
begin

text \<open>
  The demo page's part of the API: \<open>internal/httpapi/simulation_handlers.go\<close>, \<open>loadtest_handlers.go\<close>, the
  routes below \<open>/v1/demo\<close>, and the wiring of \<open>cmd/api/main.go\<close>; and the API as the server that the
  simulation engine talks to.
\<close>

section \<open>The process\<close>

text \<open>\<open>main\<close>: the limits of the load tests and the engine, from the configuration.\<close>

definition api_limits :: "config \<Rightarrow> limits" where
  "api_limits cfg = \<lparr>MaxVUs = LoadtestMaxVUs cfg, MaxQueueDepth = LoadtestMaxQueue cfg,
     MaxConcurrent = LoadtestMaxConcurrent cfg, MaxSteady = int64 (LoadtestMaxSteadySec cfg * 10 ^ 9),
     DefaultVUs = LoadtestDefaultVUs cfg\<rparr>"

definition api_engine :: "config \<Rightarrow> int \<Rightarrow> engine" where
  "api_engine cfg now = new_engine (SimulationBaseURL cfg) (AdminAPIKey cfg) now"

definition auto_setup :: "'s http_client \<Rightarrow> (nat \<Rightarrow> int) \<Rightarrow> config \<Rightarrow> engine \<times> 's \<Rightarrow> engine \<times> 's" where
  "auto_setup ask ck cfg st = (if DemoAutoSetup cfg then snd (SetupDemo ask ck st) else st)"

text \<open>
  What a demo handler works on: the engine, what its client talks to, and the directories of the load
  tests. The parameters of one call: the environment of its database and Redis calls, the clock of the
  engine, the file system and the fresh identifier of a run.
\<close>

record 's demo =
  dm_engine :: engine
  dm_net :: 's
  dm_files :: files

record demo_env =
  de_env :: env
  de_clock :: "nat \<Rightarrow> int"
  de_fs :: fs_env
  de_runID :: string

datatype demo_reply =
    D_Error string string
  | D_ErrorOf string error
  | D_Config bool int int int string int
  | D_Sale string
  | D_Reset string
  | D_SimConfig sim_config
  | D_Simulation sim_config string "string list"
  | D_Live live_stats
  | D_Submitted string string string status
  | D_Result run_result
  | D_Runs "run_result list" "string list"

type_synonym demo_response = "int \<times> demo_reply"

section \<open>Request bodies\<close>

definition sim_fields :: "string list" where
  "sim_fields = [''launch_spike'', ''backdoor_race'', ''late_surge'', ''refresh_storm'', ''reconnect_churn'',
     ''scalper_bots'', ''mixed_realistic'']"

definition decode_sim_config :: "body \<Rightarrow> sim_config \<times> bool" where
  "decode_sim_config b =
     (let f = (\<lambda>k. decode_field decode_bool sim_fields k (members b) False)
      in (\<lparr>LaunchSpike = fst (f ''launch_spike''), BackdoorRace = fst (f ''backdoor_race''),
           LateSurge = fst (f ''late_surge''), RefreshStorm = fst (f ''refresh_storm''),
           ReconnectChurn = fst (f ''reconnect_churn''), ScalperBots = fst (f ''scalper_bots''),
           MixedRealistic = fst (f ''mixed_realistic'')\<rparr>,
          is_struct b \<and> list_all (snd \<circ> f) sim_fields))"

definition run_fields :: "string list" where
  "run_fields = [''scenario'', ''sale_id'', ''vus_max'', ''ramp_up'', ''steady'', ''ramp_down'', ''admit_per_minute'',
     ''waiting_room_cap'', ''total_seats'']"

definition decode_run_request :: "body \<Rightarrow> run_request \<times> bool" where
  "decode_run_request b =
     (let s = (\<lambda>k. decode_field decode_string run_fields k (members b) []);
          n = (\<lambda>k. decode_field decode_int run_fields k (members b) 0)
      in (\<lparr>rr_Scenario = fst (s ''scenario''), rr_SaleID = fst (s ''sale_id''), rr_VUsMax = fst (n ''vus_max''),
           rr_RampUp = fst (s ''ramp_up''), rr_Steady = fst (s ''steady''), rr_RampDown = fst (s ''ramp_down''),
           rr_AdmitPerMinute = fst (n ''admit_per_minute''), rr_WaitingRoomCap = fst (n ''waiting_room_cap''),
           rr_TotalSeats = fst (n ''total_seats'')\<rparr>,
          is_struct b \<and> list_all (snd \<circ> s) [''scenario'', ''sale_id'', ''ramp_up'', ''steady'', ''ramp_down'']
          \<and> list_all (snd \<circ> n) [''vus_max'', ''admit_per_minute'', ''waiting_room_cap'', ''total_seats'']))"

definition reset_fields :: "string list" where
  "reset_fields = [''admit_per_minute'', ''waiting_room_cap'', ''total_seats'']"

definition decode_reset :: "body \<Rightarrow> reset_request" where
  "decode_reset b =
     (let n = (\<lambda>k. fst (decode_field decode_int reset_fields k (members b) 0))
      in \<lparr>rq_AdmitPerMinute = n ''admit_per_minute'', rq_WaitingRoomCap = n ''waiting_room_cap'',
          rq_TotalSeats = n ''total_seats''\<rparr>)"

section \<open>Handlers\<close>

definition setup_params ::
  "'s http_client \<Rightarrow> demo_env \<Rightarrow> sale_params \<Rightarrow> 's demo \<Rightarrow> string result \<times> 's demo" where
  "setup_params ask de p m =
     (case SetupDemoWithParams ask (de_clock de) p (dm_engine m, dm_net m) of
        (r, en, s) \<Rightarrow> (r, m\<lparr>dm_engine := en, dm_net := s\<rparr>))"

definition setup_default :: "'s http_client \<Rightarrow> demo_env \<Rightarrow> 's demo \<Rightarrow> string result \<times> 's demo" where
  "setup_default ask de m =
     (case SetupDemo ask (de_clock de) (dm_engine m, dm_net m) of
        (r, en, s) \<Rightarrow> (r, m\<lparr>dm_engine := en, dm_net := s\<rparr>))"

definition getSimulation :: "'s demo \<Rightarrow> demo_response" where
  "getSimulation m = (200, D_SimConfig (GetConfig (dm_engine m)))"

definition setSimulation :: "'s http_client \<Rightarrow> demo_env \<Rightarrow> body \<Rightarrow> 's demo \<Rightarrow> demo_response \<times> 's demo" where
  "setSimulation ask de b m =
     (case decode_sim_config b of (cfg, ok) \<Rightarrow>
        if \<not> ok then ((400, D_Error ''bad_request'' ''invalid body''), m)
        else let saleID = SaleID (dm_engine m);
                 apply_cfg = (\<lambda>i m. let en = Update cfg (dm_engine m) in
                   ((200, D_Simulation cfg i (ss_ActiveScenarios (StatsSnapshot en))), m\<lparr>dm_engine := en\<rparr>))
             in if saleID = []
                then (case setup_default ask de m of
                        (Inl err, m1) \<Rightarrow> ((500, D_ErrorOf ''setup_failed'' err), m1)
                      | (Inr i, m1) \<Rightarrow> apply_cfg i m1)
                else apply_cfg saleID m)"

definition demoSetup :: "'s http_client \<Rightarrow> demo_env \<Rightarrow> 's demo \<Rightarrow> demo_response \<times> 's demo" where
  "demoSetup ask de m =
     (case setup_default ask de m of
        (Inl err, m1) \<Rightarrow> ((500, D_ErrorOf ''setup_failed'' err), m1)
      | (Inr i, m1) \<Rightarrow> ((200, D_Sale i), m1\<lparr>dm_engine := SetSaleID i (dm_engine m1)\<rparr>))"

definition demoReset :: "'s http_client \<Rightarrow> demo_env \<Rightarrow> body \<Rightarrow> 's demo \<Rightarrow> demo_response \<times> 's demo" where
  "demoReset ask de b m =
     (let req = decode_reset b in
      case setup_params ask de \<lparr>sp_TotalSeats = rq_TotalSeats req, sp_AdmitPerMinute = rq_AdmitPerMinute req,
                                sp_WaitingRoomCap = rq_WaitingRoomCap req\<rparr> m of
        (Inl err, m1) \<Rightarrow> ((500, D_ErrorOf ''reset_failed'' err), m1)
      | (Inr i, m1) \<Rightarrow> ((200, D_Reset i), m1))"

text \<open>\<open>param\<close> is the query parameter \<open>sale_id\<close>; the world is what \<open>Live\<close> reads.\<close>

definition liveDashboard :: "'r redis_api \<Rightarrow> demo_env \<Rightarrow> string \<Rightarrow> ('s \<Rightarrow> 'r world) \<Rightarrow> 's demo \<Rightarrow> demo_response" where
  "liveDashboard R de param world_of m =
     (let saleID = (if param = [] then SaleID (dm_engine m) else param) in
      if saleID = [] then (400, D_Error ''no_sale'' ''run demo setup first'')
      else case Live R (de_env de) saleID (dm_engine m) (world_of (dm_net m)) of
        Inl err \<Rightarrow> (500, D_ErrorOf ''internal'' err)
      | Inr st \<Rightarrow> (200, D_Live st))"

definition demoConfig :: "config \<Rightarrow> limits \<Rightarrow> demo_response" where
  "demoConfig cfg lmt = (200, D_Config (DemoAPIKey cfg \<noteq> []) (MaxVUs lmt) (MaxQueueDepth lmt) (MaxConcurrent lmt)
     (DurationString (MaxSteady lmt)) (DefaultVUs lmt))"

definition submit_run :: "limits \<Rightarrow> demo_env \<Rightarrow> run_request \<Rightarrow> 's demo \<Rightarrow> demo_response \<times> 's demo" where
  "submit_run lmt de req m =
     (case Submit (de_fs de) (de_runID de) lmt req (dm_files m) of
        (Inl err, fs) \<Rightarrow>
          ((if errors_is err ErrQueueFull \<or> errors_is err ErrAlreadyBusy then (429, D_ErrorOf ''loadtest_busy'' err)
            else (500, D_ErrorOf ''submit_failed'' err)), m\<lparr>dm_files := fs\<rparr>)
      | (Inr j, fs) \<Rightarrow>
          ((202, D_Submitted (jb_RunID j) (rr_SaleID req) (jb_Scenario j) StatusQueued), m\<lparr>dm_files := fs\<rparr>))"

definition startLoadTest :: "limits \<Rightarrow> 's http_client \<Rightarrow> demo_env \<Rightarrow> body \<Rightarrow> 's demo \<Rightarrow> demo_response \<times> 's demo" where
  "startLoadTest lmt ask de b m =
     (case decode_run_request b of (req, ok) \<Rightarrow>
        if \<not> ok then ((400, D_Error ''bad_request'' ''invalid body''), m)
        else if \<not> ValidScenario (rr_Scenario req) then ((400, D_Error ''invalid_scenario'' ''unknown scenario''), m)
        else let saleID = nonempty_or (SaleID (dm_engine m)) (rr_SaleID req)
             in if saleID = []
                then (case setup_params ask de \<lparr>sp_TotalSeats = rr_TotalSeats req,
                             sp_AdmitPerMinute = rr_AdmitPerMinute req, sp_WaitingRoomCap = rr_WaitingRoomCap req\<rparr> m of
                        (Inl err, m1) \<Rightarrow> ((500, D_ErrorOf ''setup_failed'' err), m1)
                      | (Inr i, m1) \<Rightarrow> submit_run lmt de (req\<lparr>rr_SaleID := i\<rparr>) m1)
                else submit_run lmt de (req\<lparr>rr_SaleID := saleID\<rparr>) m)"

definition getLoadTest :: "demo_env \<Rightarrow> string \<Rightarrow> 's demo \<Rightarrow> demo_response" where
  "getLoadTest de runID m =
     (case GetRun (de_fs de) runID (dm_files m) of
        Inl err \<Rightarrow> if IsNotExist err then (404, D_Error ''not_found'' ''run not found'') else (500, D_ErrorOf ''internal'' err)
      | Inr res \<Rightarrow> (200, D_Result res))"

definition listLoadTests :: "demo_env \<Rightarrow> 's demo \<Rightarrow> demo_response \<times> 's demo" where
  "listLoadTests de m =
     (case ListRuns (de_fs de) 20 (dm_files m) of
        (Inl err, fs) \<Rightarrow> ((500, D_ErrorOf ''internal'' err), m\<lparr>dm_files := fs\<rparr>)
      | (Inr runs, fs) \<Rightarrow> ((200, D_Runs runs AllowedScenarios), m\<lparr>dm_files := fs\<rparr>))"

section \<open>Routes\<close>

datatype demo_route =
    Dm_Config | Dm_Setup | Dm_Reset | Dm_SetSimulation | Dm_GetSimulation | Dm_Dashboard string
  | Dm_StartLoadTest | Dm_ListLoadTests | Dm_GetLoadTest string

text \<open>The routes below \<open>/v1/demo\<close>, behind \<open>demoAuth\<close>; \<open>None\<close> keeps the middleware's answer apart.\<close>

fun demo_handler ::
  "config \<Rightarrow> 'r redis_api \<Rightarrow> 's http_client \<Rightarrow> ('s \<Rightarrow> 'r world) \<Rightarrow> demo_env \<Rightarrow> demo_route \<Rightarrow> body \<Rightarrow> 's demo
     \<Rightarrow> demo_response \<times> 's demo" where
  "demo_handler cfg R ask wo de Dm_Config b m = (demoConfig cfg (api_limits cfg), m)"
| "demo_handler cfg R ask wo de Dm_Setup b m = demoSetup ask de m"
| "demo_handler cfg R ask wo de Dm_Reset b m = demoReset ask de b m"
| "demo_handler cfg R ask wo de Dm_SetSimulation b m = setSimulation ask de b m"
| "demo_handler cfg R ask wo de Dm_GetSimulation b m = (getSimulation m, m)"
| "demo_handler cfg R ask wo de (Dm_Dashboard param) b m = (liveDashboard R de param wo m, m)"
| "demo_handler cfg R ask wo de Dm_StartLoadTest b m = startLoadTest (api_limits cfg) ask de b m"
| "demo_handler cfg R ask wo de Dm_ListLoadTests b m = listLoadTests de m"
| "demo_handler cfg R ask wo de (Dm_GetLoadTest runID) b m = (getLoadTest de runID m, m)"

definition serve_demo ::
  "config \<Rightarrow> 'r redis_api \<Rightarrow> 's http_client \<Rightarrow> ('s \<Rightarrow> 'r world) \<Rightarrow> demo_env \<Rightarrow> demo_route \<Rightarrow> request \<Rightarrow> 's demo
     \<Rightarrow> (response + demo_response) \<times> 's demo" where
  "serve_demo cfg R ask wo de rt rq m =
     (case demoAuth cfg rq of
        Some r \<Rightarrow> (Inl r, m)
      | None \<Rightarrow> (case demo_handler cfg R ask wo de rt (rq_body rq) m of (r, m') \<Rightarrow> (Inr r, m')))"

section \<open>The API as the server of the engine\<close>

text \<open>
  The table of \<open>Routes\<close> (without the demo's own routes and the static files), for a path split at its
  slashes; a parameter matches one segment.
\<close>

fun split_on :: "char \<Rightarrow> string \<Rightarrow> string list" where
  "split_on c [] = [[]]"
| "split_on c (x # xs) = (if x = c then [] # split_on c xs
     else (case split_on c xs of [] \<Rightarrow> [[x]] | y # ys \<Rightarrow> (x # y) # ys))"

definition find_route :: "string \<Rightarrow> string list \<Rightarrow> route option" where
  "find_route mth ss =
     (case ss of
        [v, s, i, r, a] \<Rightarrow>
          if v = ''v1'' \<and> s = ''sales'' \<and> r = ''waiting-room'' then
            (if mth = ''POST'' \<and> a = ''join'' then Some (Rt_Join i)
             else if mth = ''GET'' \<and> a = ''status'' then Some (Rt_Status i)
             else if mth = ''GET'' \<and> a = ''stream'' then Some (Rt_Stream i) else None)
          else if v = ''v1'' \<and> s = ''admin'' \<and> i = ''sales'' then
            (if mth = ''GET'' \<and> a = ''stats'' then Some (Rt_SaleStats r)
             else if mth = ''GET'' \<and> a = ''queue-entries'' then Some (Rt_QueueEntries r) else None)
          else None
      | [v, s, i, a] \<Rightarrow>
          if v = ''v1'' \<and> s = ''sales'' then
            (if mth = ''GET'' \<and> a = ''seats'' then Some (Rt_Seats i)
             else if mth = ''POST'' \<and> a = ''holds'' then Some (Rt_Hold i)
             else if mth = ''POST'' \<and> a = ''checkout'' then Some (Rt_Checkout i) else None)
          else None
      | [v, s, a] \<Rightarrow>
          if v = ''v1'' \<and> s = ''auth'' then
            (if mth = ''POST'' \<and> a = ''register'' then Some Rt_Register
             else if mth = ''POST'' \<and> a = ''login'' then Some Rt_Login else None)
          else if v = ''v1'' \<and> s = ''orders'' \<and> mth = ''GET'' \<and> a \<noteq> [] then Some (Rt_Order a)
          else if v = ''v1'' \<and> s = ''admin'' \<and> mth = ''POST'' then
            (if a = ''events'' then Some Rt_CreateEvent else if a = ''sales'' then Some Rt_CreateSale else None)
          else if v = ''v1'' \<and> s = ''tickets'' \<and> a = ''transfer'' \<and> mth = ''POST'' then Some Rt_Transfer
          else None
      | [s, a] \<Rightarrow>
          if s = ''health'' \<and> mth = ''GET'' then
            (if a = ''live'' then Some Rt_Live else if a = ''ready'' then Some Rt_Ready else None)
          else None
      | _ \<Rightarrow> None)"

definition route_of :: "string \<Rightarrow> string \<Rightarrow> route option" where
  "route_of mth path = (case split_on CHR ''/'' path of [] # ss \<Rightarrow> find_route mth ss | _ \<Rightarrow> None)"

text \<open>
  The network between the engine and the API: the environments of the API's calls, in the order in which
  they arrive, the address requests come from, the answers to paths that are not routed, and the bodies
  of the answers that the engine does not read.
\<close>

record 'r net =
  nt_deps :: "'r deps"
  nt_base :: string
  nt_addr :: string
  nt_calls :: "nat \<Rightarrow> nat \<Rightarrow> env"
  nt_unrouted :: "http_req \<Rightarrow> int \<times> body"
  nt_other :: "reply \<Rightarrow> body"

definition header_of :: "http_req \<Rightarrow> string \<Rightarrow> string" where
  "header_of h k = (case map_of (hq_headers h) k of None \<Rightarrow> [] | Some v \<Rightarrow> v)"

definition api_request :: "string \<Rightarrow> http_req \<Rightarrow> request" where
  "api_request addr h = \<lparr>rq_Authorization = header_of h ''Authorization'', rq_XForwardedFor = [], rq_RemoteAddr = addr,
     rq_AdminKey = header_of h ''X-Admin-Key'', rq_DemoKey = [], rq_demo_key_param = [], rq_body = hq_body h,
     rq_flusher = True\<rparr>"

definition reply_body :: "(reply \<Rightarrow> body) \<Rightarrow> reply \<Rightarrow> body" where
  "reply_body other r = (case r of
       R_Error code msg \<Rightarrow> Some (J_Obj [(''error'', J_Str code), (''message'', J_Str msg)])
     | R_Plain _ \<Rightarrow> None
     | R_UserToken u tok \<Rightarrow> Some (J_Obj [(''token'', J_Str tok), (''user_id'', J_Str u)])
     | R_EventID i \<Rightarrow> Some (J_Obj [(''event_id'', J_Str i)])
     | R_SaleID i \<Rightarrow> Some (J_Obj [(''sale_id'', J_Str i)])
     | _ \<Rightarrow> other r)"

definition strip_prefix :: "string \<Rightarrow> string \<Rightarrow> string option" where
  "strip_prefix p s = (if prefix p s then Some (drop (length p) s) else None)"

text \<open>Its state is the world of the API and the number of calls so far; other addresses do not answer.\<close>

definition api_client :: "'r net \<Rightarrow> ('r world \<times> nat) http_client" where
  "api_client N req = (\<lambda>(w, n).
     case strip_prefix (nt_base N) (hq_url req) of None \<Rightarrow> (None, (w, n))
     | Some path \<Rightarrow>
         (case route_of (hq_method req) path of
            None \<Rightarrow> (Some (nt_unrouted N req), (w, Suc n))
          | Some rt \<Rightarrow>
              (case serve (nt_deps N) (nt_calls N n) rt (api_request (nt_addr N) req) w of
                 ((status, r), w') \<Rightarrow> (Some (status, reply_body (nt_other N) r), (w', Suc n)))))"

lemma split_on_simps [simp]: "c \<notin> set xs \<Longrightarrow> split_on c (xs @ c # ys) = xs # split_on c ys" "c \<notin> set xs \<Longrightarrow> split_on c xs = [xs]"
  by (induction xs) auto

lemma routes_of_engine [simp]:
  "route_of ''POST'' ''/v1/auth/register'' = Some Rt_Register"
  "route_of ''POST'' ''/v1/admin/events'' = Some Rt_CreateEvent"
  "route_of ''POST'' ''/v1/admin/sales'' = Some Rt_CreateSale"
  "route_of ''POST'' ''/v1/tickets/transfer'' = Some Rt_Transfer"
  by (simp_all add: route_of_def find_route_def)

text \<open>A literal piece of a path that ends with a slash.\<close>

lemma routes_of_sale [unfolded append_Cons append_Nil, simp]:
  assumes "CHR ''/'' \<notin> set i"
  shows "route_of ''POST'' (''/v1/sales/'' @ i @ ''/waiting-room/join'') = Some (Rt_Join i)"
    and "route_of ''GET'' (''/v1/sales/'' @ i @ ''/waiting-room/status'') = Some (Rt_Status i)"
    and "route_of ''POST'' (''/v1/sales/'' @ i @ ''/checkout'') = Some (Rt_Checkout i)"
  using assms by (simp_all add: route_of_def find_route_def)

lemma strip_prefix_append [simp]: "strip_prefix p (p @ s) = Some s"
  by (simp add: strip_prefix_def)

section \<open>Traffic and the invariants of the system\<close>

text \<open>What every request keeps, a pass of a loop and the setting up of a sale keep.\<close>

lemma registerFake_keeps:
  assumes "\<And>r s. P s \<Longrightarrow> P (snd (ask r s))" and "P s" and "registerFake ask ck tag (en, s) = (tok, en', s')"
  shows "P s'"
  using assms(2,3) assms(1)[of s]
  by (auto simp: registerFake_def Let_def split: prod.splits option.splits if_splits; metis snd_conv)

lemma loop_work_keeps:
  assumes "\<And>r s. P s \<Longrightarrow> P (snd (ask r s))" and "P (snd st)"
  shows "P (snd (loop_work ask ck lp st))"
proof -
  obtain en s where st: "st = (en, s)" by fastforce
  have reg: "P s'" if "registerFake ask ck tag (en, s) = (tok, en', s')" for tag tok en' s'
    using registerFake_keeps[where P = P, OF assms(1) _ that] assms(2) st by simp
  have ask1: "P s'" if "ask r s0 = (x, s')" "P s0" for r s0 x s' using assms(1)[OF that(2), of r] that(1) by simp
  have once: "P (doJoinOnce ask i tok (en', s0))" if "P s0" for i tok en' s0
    using assms(1)[OF that] by (simp add: doJoinOnce_def)
  show ?thesis
    unfolding st loop_work_def
    by (cases "lp_kind lp")
      (auto simp: doLaunchSpike_def doBackdoor_def doJoin_def doRefresh_def doReconnect_def doScalper_def ask_status_def Let_def
        split: prod.splits option.splits dest: reg ask1 intro: once)
qed

lemma SetupDemoWithParams_keeps:
  assumes "\<And>r s. P s \<Longrightarrow> P (snd (ask r s))" and "P s" and "SetupDemoWithParams ask ck p (en, s) = (x, en', s')"
  shows "P s'"
proof -
  have ask1: "P s'" if "ask r s0 = (x, s')" "P s0" for r s0 x s' using assms(1)[OF that(2), of r] that(1) by simp
  show ?thesis using assms(2,3) by (auto simp: SetupDemoWithParams_def Let_def split: prod.splits option.splits dest: ask1)
qed

text \<open>The calls that change the engine, and the passes of its loops, as one sequence.\<close>

datatype engine_call =
    E_Pass "nat \<Rightarrow> int" sim_loop
  | E_Update sim_config
  | E_Setup "nat \<Rightarrow> int" sale_params

fun engine_exec :: "'s http_client \<Rightarrow> engine_call \<Rightarrow> engine \<times> 's \<Rightarrow> engine \<times> 's" where
  "engine_exec ask (E_Pass ck lp) st = loop_tick ask ck lp st"
| "engine_exec ask (E_Update c) st = apfst (Update c) st"
| "engine_exec ask (E_Setup ck p) st = snd (SetupDemoWithParams ask ck p st)"

lemma engine_exec_keeps:
  assumes "\<And>r s. P s \<Longrightarrow> P (snd (ask r s))" and "P (snd st)"
  shows "P (snd (engine_exec ask c st))"
proof (cases c)
  case (E_Pass ck lp)
  then show ?thesis using loop_work_keeps[where P = P and ask = ask, OF assms] by (simp add: loop_tick_def)
next
  case (E_Update x)
  then show ?thesis using assms(2) by simp
next
  case (E_Setup ck p)
  obtain en s x en' s' where "st = (en, s)" "SetupDemoWithParams ask ck p (en, s) = (x, en', s')" by (metis prod_cases3 surj_pair)
  then show ?thesis using SetupDemoWithParams_keeps[where P = P and ask = ask, OF assms(1)] assms(2) E_Setup by simp
qed

lemma api_client_keeps:
  assumes "redis_server (dp_redis (nt_deps N)) alpha" and "system_inv (alpha (redis (fst s))) (dbs (fst s))"
  shows "system_inv (alpha (redis (fst (snd (api_client N r s))))) (dbs (fst (snd (api_client N r s))))"
proof -
  obtain w n where s: "s = (w, n)" by fastforce
  have "system_inv (alpha (redis (snd (serve (nt_deps N) es rt rq w)))) (dbs (snd (serve (nt_deps N) es rt rq w)))" for es rt rq
    using redis_server.serve_inv[OF assms(1) _ refl] assms(2) s by simp
  then show ?thesis using assms(2) by (simp add: api_client_def s split: option.splits prod.splits) (metis snd_conv)
qed

lemma traffic_keeper:
  assumes "redis_server (dp_redis (nt_deps N)) alpha"
  shows "keeper (engine_exec (api_client N)) (\<lambda>_ _. True) (\<lambda>st. system_inv (alpha (redis (fst (snd st)))) (dbs (fst (snd st))))"
  by unfold_locales
    (rule engine_exec_keeps[where P = "\<lambda>s. system_inv (alpha (redis (fst s))) (dbs (fst s))", OF api_client_keeps[OF assms]])

text \<open>The in-memory Redis server interprets it.\<close>

interpretation demo_traffic:
  keeper "engine_exec (api_client (N\<lparr>nt_deps := D\<lparr>dp_redis := mem_redis\<rparr>\<rparr>))" "\<lambda>_ _. True"
    "\<lambda>st. system_inv (redis (fst (snd st))) (dbs (fst (snd st)))" for N :: "keyspace net" and D :: "keyspace deps"
  using traffic_keeper[of "N\<lparr>nt_deps := D\<lparr>dp_redis := mem_redis\<rparr>\<rparr>" id] mem_redis_server by (simp add: id_def)

text \<open>
  The traffic of the simulation keeps the system's invariants, whatever is switched on and however often
  its loops pass, sales are set up and toggles change, under every database fault: the queue and stock
  invariants hold and no order or ticket appears, though two of the loops try to check out.
\<close>

theorem traffic_keeps_system_inv:
  assumes "redis_server (dp_redis (nt_deps N)) alpha" and "system_inv (alpha (redis w)) (dbs w)"
    and "run_calls (engine_exec (api_client N)) cs (en, (w, n)) = (en', (w', n'))"
  shows "queue_inv (alpha (redis w')) (dbs w') \<and> stock_inv (dbs w') \<and> orders (dbs w') = [] \<and> tickets (dbs w') = []"
  using keeper.run_keeps[OF traffic_keeper[OF assms(1)], of "(en, (w, n))" cs] assms(2,3) by (simp add: system_inv_def)

text \<open>The engine of a process whose API has the small database.\<close>

definition demo_net :: "keyspace net" where
  "demo_net = \<lparr>nt_deps = demo_deps, nt_base = ''http://127.0.0.1:8080'', nt_addr = ''127.0.0.1:1'',
     nt_calls = (\<lambda>n k. calm_env new_year (''c'' @ replicate n CHR ''.'')), nt_unrouted = (\<lambda>_. (404, None)), nt_other = (\<lambda>_. None)\<rparr>"

definition demo_engine :: engine where
  "demo_engine = api_engine demo_config new_year"

lemma demo_net_simps [simp]:
  "nt_deps demo_net = demo_deps" "nt_base demo_net = ''http://127.0.0.1:8080''"
  "nt_calls demo_net n k = calm_env new_year (''c'' @ replicate n CHR ''.'')"
  by (simp_all add: demo_net_def)

lemma traffic_keeps_system_inv_witness:
  "orders (dbs (fst (snd (run_calls (engine_exec (api_client demo_net))
     [E_Setup (\<lambda>_. new_year) defaultSaleParams, E_Update mixed,
      E_Pass (\<lambda>_. new_year) \<lparr>lp_kind = Loop_Scalper, lp_sale = ''c.'', lp_ctx = 0\<rparr>] (demo_engine, (demo_world, 0)))))) = []"
proof -
  let ?cs = "[E_Setup (\<lambda>_. new_year) defaultSaleParams, E_Update mixed,
      E_Pass (\<lambda>_. new_year) \<lparr>lp_kind = Loop_Scalper, lp_sale = ''c.'', lp_ctx = 0\<rparr>]"
  obtain en' w' n' where r: "run_calls (engine_exec (api_client demo_net)) ?cs (demo_engine, (demo_world, 0)) = (en', (w', n'))"
    by (metis prod_cases3)
  have "redis_server (dp_redis (nt_deps demo_net)) (\<lambda>m. m)" using mem_redis_server by simp
  from traffic_keeps_system_inv[OF this demo_system_inv r] show ?thesis by (simp only: r fst_conv snd_conv)
qed

section \<open>Setting up a sale through the API\<close>

lemma string_field_obj [simp]:
  "string_field k (Some (J_Obj [(k, J_Str v)])) = v"
  by (simp add: string_field_def members_def field_of_def decode_string_def)

lemma admin_post_simps [simp]:
  "hq_method (admin_post en path b) = ''POST''" "hq_url (admin_post en path b) = en_baseURL en @ path"
  "rq_AdminKey (api_request a (admin_post en path b)) = en_adminKey en"
  "rq_body (api_request a (admin_post en path b)) = Some b"
  by (simp_all add: admin_post_def api_request_def header_of_def json_type_def)

lemma decode_sale_json:
  assumes "in_int64 (sp_TotalSeats p)" and "in_int64 (sp_AdmitPerMinute p)" and "in_int64 (sp_WaitingRoomCap p)"
  shows "fst (decode_sale (Some (sale_json i opens ends p))) = \<lparr>sr_EventID = i, sr_OpensAt = Format False opens,
     sr_EndsAt = Format False ends, sr_TotalSeats = sp_TotalSeats p, sr_AdmitPerMinute = sp_AdmitPerMinute p,
     sr_WaitingRoomCap = sp_WaitingRoomCap p\<rparr>"
  using assms by (simp add: decode_sale_def sale_json_def members_def is_struct_def field_of_def decode_string_def decode_int_def)

definition whole_second :: "int \<Rightarrow> int" where
  "whole_second t = t - t mod nanos_per_sec"

lemma parse_time_Format: "time_ok t \<Longrightarrow> parse_time (Format False t) = whole_second t"
  using ParseTime_Format[of t False] by (simp add: parse_time_def time_ok_def whole_second_def)

lemma positive_params_pos:
  "0 < sp_TotalSeats (positive_params p)" "0 < sp_AdmitPerMinute (positive_params p)" "0 < sp_WaitingRoomCap (positive_params p)"
  by (simp_all add: positive_params_def Apply_positive)

lemma createSale_ok:
  assumes "no_faults e" and "insert_sale (new_sale e (fst (decode_sale (rq_body rq)))) (dbs w) = Inr (d1, k)"
  obtains w' where "createSale D e rq w = ((201, R_SaleID (new_uuid e 0)), w')" and "sales (dbs w') = sales d1"
  using assms CreateSeats_rest by (auto simp: createSale_def exec_stmt_def Let_def new_sale_def)

lemma api_createEvent:
  assumes "nt_base N = en_baseURL en" and "en_adminKey en = AdminAPIKey (dp_cfg (nt_deps N))"
    and "no_faults (nt_calls N n 0)" and "\<not> has_key ev_id (new_uuid (nt_calls N n 0) 0) (events (dbs w))"
  obtains row where "ev_id row = new_uuid (nt_calls N n 0) 0"
    "api_client N (admin_post en ''/v1/admin/events'' event_json) (w, n)
      = (Some (201, Some (J_Obj [(''event_id'', J_Str (new_uuid (nt_calls N n 0) 0))])),
         (w\<lparr>dbs := (dbs w)\<lparr>events := events (dbs w) @ [row]\<rparr>\<rparr>, Suc n))"
proof -
  let ?er = "fst (decode_event (Some event_json))"
  show ?thesis
    by (rule that[of "\<lparr>ev_id = new_uuid (nt_calls N n 0) 0, ev_name = er_Name ?er, ev_venue = er_Venue ?er,
        ev_starts_at = parse_time (er_StartsAt ?er), ev_created_at = sql_now (nt_calls N n 0)\<rparr>"])
      (use assms in \<open>simp_all add: api_client_def with_admin_def adminAuth_def createEvent_def exec_stmt_def
        insert_event_def reply_body_def Let_def\<close>)
qed


lemma demo_engine_simps [simp]:
  "en_baseURL demo_engine = ''http://127.0.0.1:8080''" "en_adminKey demo_engine = AdminAPIKey demo_config"
  "en_saleID demo_engine = []" "sim_inv demo_engine"
  by (simp_all add: demo_engine_def api_engine_def sim_inv_new) (simp_all add: new_engine_def demo_config_def Load_def getEnv_def Let_def)

lemma new_year_window: "time_ok (new_year + 86280000000000)" "time_ok (new_year + 172800000000000)"
  by code_simp+


text \<open>
  C36. A setup that the API refuses counts as done: when every answer is an error (a wrong key, a failing
  database), setting up the demo still answers 200, with an empty sale identifier, and forgets the sale the
  engine had; a load test is then accepted with 202 and queued for no sale at all.
\<close>

theorem refused_setup_counts_as_done:
  assumes "\<forall>r s. \<exists>st c msg. fst (ask r s) = Some (st, Some (J_Obj [(''error'', J_Str c), (''message'', J_Str msg)]))"
    and "decode_run_request b = (req, True)" and "ValidScenario (rr_Scenario req)" and "rr_SaleID req = []"
    and "SaleID (dm_engine m) = []"
    and "Submit (de_fs de) (de_runID de) lmt req (dm_files m) = (Inr j, fs)"
  shows "(\<exists>m'. demoSetup ask de m0 = ((200, D_Sale []), m') \<and> SaleID (dm_engine m') = [])
    \<and> (\<exists>m'. startLoadTest lmt ask de b m = ((202, D_Submitted (jb_RunID j) [] (jb_Scenario j) StatusQueued), m') \<and> dm_files m' = fs)"
proof -
  have e: "string_field k (Some (J_Obj [(''error'', J_Str c), (''message'', J_Str msg)])) = []"
    if "k \<in> {''event_id'', ''sale_id''}" for k c msg
    using that by (auto simp: string_field_def members_def field_of_def ToLower_def to_lower_char_def)
  have s: "\<exists>s'. SetupDemoWithParams ask ck p (en, s) = (Inr [], SetSaleID [] en, s')" for ck p en s
  proof -
    let ?r1 = "admin_post en ''/v1/admin/events'' event_json"
    obtain st c msg s1 where a: "ask ?r1 s = (Some (st, Some (J_Obj [(''error'', J_Str c), (''message'', J_Str msg)])), s1)"
      using assms(1) by (metis prod.collapse)
    let ?r2 = "admin_post en ''/v1/admin/sales'' (sale_json [] (ck 0 - 2 * 60 * 10 ^ 9) (ck 1 + 24 * 3600 * 10 ^ 9) (positive_params p))"
    obtain st2 c2 msg2 s2 where "ask ?r2 s1 = (Some (st2, Some (J_Obj [(''error'', J_Str c2), (''message'', J_Str msg2)])), s2)"
      using assms(1) by (metis prod.collapse)
    with a show ?thesis by (simp add: SetupDemoWithParams_def Let_def e)
  qed
  obtain s1 where "SetupDemoWithParams ask (de_clock de) defaultSaleParams (dm_engine m0, dm_net m0) = (Inr [], SetSaleID [] (dm_engine m0), s1)"
    using s by blast
  then have 1: "\<exists>m'. demoSetup ask de m0 = ((200, D_Sale []), m') \<and> SaleID (dm_engine m') = []"
    by (simp add: demoSetup_def setup_default_def SetupDemo_def SaleID_def SetSaleID_def)
  let ?p = "\<lparr>sp_TotalSeats = rr_TotalSeats req, sp_AdmitPerMinute = rr_AdmitPerMinute req, sp_WaitingRoomCap = rr_WaitingRoomCap req\<rparr>"
  obtain s2 where "SetupDemoWithParams ask (de_clock de) ?p (dm_engine m, dm_net m) = (Inr [], SetSaleID [] (dm_engine m), s2)"
    using s by blast
  moreover have rq: "req\<lparr>rr_SaleID := []\<rparr> = req" using assms(4) by (cases req) simp
  ultimately have "\<exists>m'. startLoadTest lmt ask de b m = ((202, D_Submitted (jb_RunID j) [] (jb_Scenario j) StatusQueued), m') \<and> dm_files m' = fs"
    using assms(2-6) by (simp add: startLoadTest_def setup_params_def submit_run_def nonempty_or_def rq)
  with 1 show ?thesis by blast
qed

lemma decode_scenario [simp]:
  "decode_run_request (Some (J_Obj [(''scenario'', J_Str x)])) = (\<lparr>rr_Scenario = x, rr_SaleID = [], rr_VUsMax = 0,
     rr_RampUp = [], rr_Steady = [], rr_RampDown = [], rr_AdmitPerMinute = 0, rr_WaitingRoomCap = 0, rr_TotalSeats = 0\<rparr>, True)"
  by (simp add: decode_run_request_def run_fields_def members_def is_struct_def field_of_def decode_string_def Let_def)

definition plain_request :: run_request where
  "plain_request = fst (decode_run_request (Some (J_Obj [(''scenario'', J_Str ''late_surge'')])))"

lemma refused_setup_counts_as_done_witness:
  "\<exists>m'. startLoadTest DefaultLimits (\<lambda>r (s::unit). (Some (401, Some (J_Obj [(''error'', J_Str ''unauthorized''), (''message'', J_Str [])])), s))
      \<lparr>de_env = calm_env 0 [], de_clock = (\<lambda>_. 0), de_fs = calm_fs new_year, de_runID = ''r''\<rparr>
      (Some (J_Obj [(''scenario'', J_Str ''late_surge'')])) \<lparr>dm_engine = demo_engine, dm_net = (), dm_files = no_files\<rparr>
    = ((202, D_Submitted ''r'' [] ''late_surge'' StatusQueued), m')"
proof -
  let ?ask = "\<lambda>r (s::unit). (Some (401, Some (J_Obj [(''error'', J_Str ''unauthorized''), (''message'', J_Str [])])), s)"
  let ?m = "\<lparr>dm_engine = demo_engine, dm_net = (), dm_files = no_files\<rparr>"
  let ?de = "\<lparr>de_env = calm_env 0 [], de_clock = (\<lambda>_. 0), de_fs = calm_fs new_year, de_runID = ''r''\<rparr>"
  have d: "decode_run_request (Some (J_Obj [(''scenario'', J_Str ''late_surge'')])) = (plain_request, True)"
    by (simp add: plain_request_def)
  have q: "ValidScenario (rr_Scenario plain_request)" "rr_SaleID plain_request = []" "rr_Scenario plain_request = ''late_surge''"
    "ValidScenario ''late_surge''"
    by (simp_all add: plain_request_def ValidScenario_def AllowedScenarios_def)
  have g: "good_job (new_job (fs_now (calm_fs new_year)) ''r'' (Apply DefaultLimits plain_request))"
    by (simp add: good_job_def new_job_def Apply_def plain_request_def positive_or_def cap_vus_def DefaultLimits_def in_int64_def)
  obtain fs where s: "Submit (calm_fs new_year) ''r'' DefaultLimits plain_request no_files
      = (Inr (new_job (fs_now (calm_fs new_year)) ''r'' (Apply DefaultLimits plain_request)), fs)"
    by (cases rule: Submit_cases[OF _ _ g, of no_files]) (simp_all add: q)
  have a: "\<forall>r s. \<exists>st c msg. fst (?ask r s) = Some (st, Some (J_Obj [(''error'', J_Str c), (''message'', J_Str msg)]))"
    by simp
  let ?j = "new_job (fs_now (calm_fs new_year)) ''r'' (Apply DefaultLimits plain_request)"
  have f: "SaleID (dm_engine ?m) = []" "Submit (de_fs ?de) (de_runID ?de) DefaultLimits plain_request (dm_files ?m) = (Inr ?j, fs)"
    using s by (simp_all add: SaleID_def)
  have j: "jb_RunID ?j = ''r''" "jb_Scenario ?j = ''late_surge''" by (simp_all add: q Apply_def)
  have "\<exists>m'. startLoadTest DefaultLimits ?ask ?de (Some (J_Obj [(''scenario'', J_Str ''late_surge'')])) ?m
      = ((202, D_Submitted (jb_RunID ?j) [] (jb_Scenario ?j) StatusQueued), m')"
    using refused_setup_counts_as_done[OF a d q(1,2) f, of ?m] by blast
  then show ?thesis by (simp only: j)
qed

section \<open>Resetting the demo\<close>

text \<open>
  A reset does not redirect running traffic: it sets the engine's sale to the fresh one, but the loops
  that are running go on sending to the sale they were started for, until the toggles are changed.
\<close>

theorem reset_leaves_loops_on_old_sale:
  assumes "demoReset ask de b m = ((200, D_Reset i), m')" and "live_loops (dm_engine m) = loops_of c old g"
  shows "SaleID (dm_engine m') = i \<and> live_loops (dm_engine m') = loops_of c old g
    \<and> (\<forall>lp\<in>set (live_loops (dm_engine m')). lp_sale lp = old)"
proof -
  obtain p en' s' where p: "SetupDemoWithParams ask (de_clock de) p (dm_engine m, dm_net m) = (Inr i, en', s')" "dm_engine m' = en'"
    using assms(1) by (auto simp: demoReset_def setup_params_def Let_def split: prod.splits sum.splits)
  from p(1) have "en' = SetSaleID i (dm_engine m)"
    by (auto simp: SetupDemoWithParams_def Let_def split: prod.splits option.splits)
  then show ?thesis using p(2) assms(2) by (auto simp: SaleID_def SetSaleID_def live_loops_def loops_of_def)
qed

lemma reset_leaves_loops_on_old_sale_witness:
  "\<exists>m'. demoReset (\<lambda>r s. (Some (201, Some (J_Obj [(''sale_id'', J_Str ''B'')])), s))
      \<lparr>de_env = calm_env 0 [], de_clock = (\<lambda>_. 0), de_fs = calm_fs 0, de_runID = []\<rparr> None
      \<lparr>dm_engine = Update mixed (SetSaleID ''A'' demo_engine), dm_net = (), dm_files = no_files\<rparr> = ((200, D_Reset ''B''), m')
    \<and> SaleID (dm_engine m') = ''B'' \<and> live_loops (dm_engine m') \<noteq> [] \<and> (\<forall>lp\<in>set (live_loops (dm_engine m')). lp_sale lp = ''A'')"
proof -
  let ?ask = "\<lambda>r (s::unit). (Some (201 :: int, Some (J_Obj [(''sale_id'', J_Str ''B'')])), s)"
  let ?de = "\<lparr>de_env = calm_env 0 [], de_clock = (\<lambda>_. 0), de_fs = calm_fs 0, de_runID = []\<rparr>"
  let ?m = "\<lparr>dm_engine = Update mixed (SetSaleID ''A'' demo_engine), dm_net = (), dm_files = no_files\<rparr>"
  obtain m' where r: "demoReset ?ask ?de None ?m = ((200, D_Reset ''B''), m')"
    by (simp add: demoReset_def setup_params_def SetupDemoWithParams_def Let_def)
  have "sim_inv (SetSaleID ''A'' demo_engine)"
    using demo_engine_simps(4) by (simp add: sim_inv_def SetSaleID_def live_loops_def cong: option.case_cong)
  then have l: "live_loops (dm_engine ?m) = loops_of mixed ''A'' (en_contexts demo_engine)"
    using Update_inv(2)[of "SetSaleID ''A'' demo_engine" mixed] by (simp add: SetSaleID_def)
  have "loops_of mixed ''A'' (en_contexts demo_engine) \<noteq> []"
    by (simp add: loops_of_def loop_kinds_def mixed_def all_off_def)
  with reset_leaves_loops_on_old_sale[OF r l] r show ?thesis by auto
qed

section \<open>The back door\<close>

lemma register_answers:
  assumes "register D e rq w = ((st, r), w')"
  shows "st \<in> {201, 400, 409, 500} \<and> redis w' = redis w \<and> queue_entries (dbs w') = queue_entries (dbs w) \<and> shop (dbs w') = shop (dbs w)"
proof -
  have u: "queue_entries d = queue_entries (dbs w) \<and> shop d = shop (dbs w)"
    if "exec_stmt flt (insert_user row) (dbs w) = (x, d)" for flt row x d
    using exec_stmt_effect[OF that] by (auto simp: insert_user_def shop_def split: if_splits)
  show ?thesis using assms by (auto simp: register_def Let_def dest: u split: prod.splits sum.splits if_splits)
qed

text \<open>
  The back-door loop never gets through: each of its passes registers a user at most and has its checkout
  answered 403, which counts as one blocked request of two, and leaves Redis, queue, seats, holds, orders
  and tickets as they are; under every fault, for every sale.
\<close>

theorem backdoor_is_blocked:
  assumes "nt_base N = en_baseURL en" and "CHR ''/'' \<notin> set saleID"
    and "doBackdoor (api_client N) ck saleID (en, (w, n)) = (en', (w', n'))"
  shows "RequestsTotal (en_stats en') = int64 (int64 (RequestsTotal (en_stats en) + 1) + 1)
    \<and> BlockedTotal (en_stats en') = int64 (BlockedTotal (en_stats en) + 1)
    \<and> redis w' = redis w \<and> queue_entries (dbs w') = queue_entries (dbs w) \<and> shop (dbs w') = shop (dbs w)"
proof -
  obtain tok en1 w1 n1 where r: "registerFake (api_client N) ck ''back'' (en, (w, n)) = (tok, en1, (w1, n1))"
    by (metis prod_cases4)
  have rec: "BlockedTotal (en_stats (record_request st l False en)) = BlockedTotal (en_stats en)"
    "RequestsTotal (en_stats (record_request st l False en)) = int64 (RequestsTotal (en_stats en) + 1)"
    "en_baseURL (record_request st l False en) = en_baseURL en" for st l
    by (simp_all add: record_request_def Let_def)
  have 1: "BlockedTotal (en_stats en1) = BlockedTotal (en_stats en) \<and> RequestsTotal (en_stats en1) = int64 (RequestsTotal (en_stats en) + 1)
      \<and> en_baseURL en1 = en_baseURL en
      \<and> redis w1 = redis w \<and> queue_entries (dbs w1) = queue_entries (dbs w) \<and> shop (dbs w1) = shop (dbs w)"
    using r assms(1)
    by (auto simp: registerFake_def api_client_def Let_def rec split: prod.splits if_splits dest!: register_answers)
  have c: "\<exists>x. api_client N (checkout_http en1 saleID tok ''fake'' ''x'') (w1, n1) = (Some (403, x), (w1, Suc n1))"
    using assms(1,2) 1
    by (simp add: api_client_def checkout_http_def with_admission_def AdmissionMiddleware_def api_request_def header_of_def
        json_type_def bearer_def)
  then obtain x where "en' = record_request 403 (ck 4 - ck 3) True en1" "w' = w1"
    using assms(3) r by (auto simp: doBackdoor_def)
  then show ?thesis using 1 by (auto simp: record_request_def Let_def)
qed

lemma backdoor_is_blocked_witness:
  "BlockedTotal (en_stats (fst (doBackdoor (api_client demo_net) (\<lambda>_. new_year) ''A'' (demo_engine, (demo_world, 0))))) = 1"
proof -
  obtain en' w' n' where r: "doBackdoor (api_client demo_net) (\<lambda>_. new_year) ''A'' (demo_engine, (demo_world, 0)) = (en', (w', n'))"
    by (metis prod_cases3)
  have "BlockedTotal (en_stats demo_engine) = 0" by (simp add: demo_engine_def api_engine_def new_engine_def)
  with backdoor_is_blocked[OF _ _ r] show ?thesis by (simp add: r int64_def)
qed

section \<open>Limits from the environment\<close>

text \<open>
  A \<open>LOADTEST_MAX_STEADY_SEC\<close> that is not a number (\<open>90s\<close>) does not leave the default of 90 seconds: it
  switches the limit off, and every steady duration that a request asks for is passed to \<open>k6\<close>.
\<close>

theorem bad_max_steady_is_no_limit:
  assumes "os ''LOADTEST_MAX_STEADY_SEC'' \<noteq> []" and "Atoi (os ''LOADTEST_MAX_STEADY_SEC'') = (0, False)"
    and "rr_Steady req \<noteq> []"
  shows "MaxSteady (api_limits (Load os)) = 0 \<and> rr_Steady (Apply (api_limits (Load os)) req) = rr_Steady req
    \<and> jb_Steady (new_job now i (Apply (api_limits (Load os)) req)) = rr_Steady req"
  using assms by (simp add: api_limits_def Load_def getEnv_def int64_def Let_def Apply_def cap_steady_def new_job_def)

lemma bad_max_steady_is_no_limit_witness:
  "rr_Steady (Apply (api_limits (Load (\<lambda>k. if k = ''LOADTEST_MAX_STEADY_SEC'' then ''90s'' else []))) a_request) = ''1h''"
  using bad_max_steady_is_no_limit[of "\<lambda>k. if k = ''LOADTEST_MAX_STEADY_SEC'' then ''90s'' else []" a_request]
  by (simp add: Atoi_def parse_sign_def is_digit_def digit_val_def Let_def a_request_def)

end
