(* ===== verification/Assert_Queue.thy ===== *)
theory Assert_Queue
  imports Waitingroom "HOL-Library.Product_Lexorder"
begin

text \<open>
  \<open>cmd/assert-queue/main.go\<close>: the audit that looks for unfair pairs in a sale's queue. The process
  is modelled by its exit code; the lines it prints are the counts that decide it.
\<close>

section \<open>The program\<close>

record audit_row =
  ar_Position :: int
  ar_Joined :: int
  ar_UserID :: string

definition audit_rows :: "queue_entry list \<Rightarrow> audit_row list" where
  "audit_rows entries =
     map (\<lambda>e. \<lparr>ar_Position = EntryPosition e, ar_Joined = JoinedAt e, ar_UserID = UserID e\<rparr>) entries"

text \<open>
  The two sorted copies. \<open>sort.Slice\<close> leaves rows that compare equal in any order; here they keep
  the order of the query.
\<close>

definition byJoin :: "audit_row list \<Rightarrow> audit_row list" where
  "byJoin rows = sort_key (\<lambda>r. (ar_Joined r, ar_Position r)) rows"

definition byPos :: "audit_row list \<Rightarrow> audit_row list" where
  "byPos rows = sort_key ar_Position rows"

text \<open>The loops over neighbours.\<close>

fun count_neighbours :: "('a \<Rightarrow> 'a \<Rightarrow> bool) \<Rightarrow> 'a list \<Rightarrow> nat" where
  "count_neighbours bad (x # y # rest) = (if bad x y then 1 else 0) + count_neighbours bad (y # rest)"
| "count_neighbours bad _ = 0"

definition inversions :: "audit_row list \<Rightarrow> nat" where
  "inversions rows =
     count_neighbours (\<lambda>x y. ar_Position y < ar_Position x) (byJoin rows)
     + count_neighbours (\<lambda>x y. ar_Joined y < ar_Joined x) (byPos rows)"

definition assert_queue :: "bool \<Rightarrow> string \<Rightarrow> db \<Rightarrow> nat" where
  "assert_queue flt saleID d =
     (if saleID = [] then 2
      else case QueueEntriesForAssert flt saleID d of
        Inl _ \<Rightarrow> 1
      | Inr entries \<Rightarrow>
          if length entries = 0 then 0
          else if 0 < inversions (audit_rows entries) then 1 else 0)"

section \<open>What the counts mean\<close>

lemma count_neighbours_0: "count_neighbours (\<lambda>x y. (f y :: int) < f x) xs = 0 \<longleftrightarrow> sorted (map f xs)"
  by (induction "\<lambda>x y. f y < f x" xs rule: count_neighbours.induct) (auto simp: not_less intro: order_trans)

text \<open>Rows in which whoever came earlier stands in front.\<close>

definition fair :: "audit_row list \<Rightarrow> bool" where
  "fair rows \<longleftrightarrow> (\<forall>x\<in>set rows. \<forall>y\<in>set rows. ar_Joined x < ar_Joined y \<longrightarrow> ar_Position x < ar_Position y)"

lemma inversions_0:
  assumes "distinct (map ar_Position rows)"
  shows "inversions rows = 0 \<longleftrightarrow> fair rows"
proof
  assume "inversions rows = 0"
  then have s: "sorted (map ar_Position (byJoin rows))" by (simp add: inversions_def count_neighbours_0)
  have k: "sorted (map (\<lambda>r. (ar_Joined r, ar_Position r)) (byJoin rows))" by (simp add: byJoin_def)
  show "fair rows" unfolding fair_def
  proof (intro ballI impI)
    fix x y assume x: "x \<in> set rows" and y: "y \<in> set rows" and less: "ar_Joined x < ar_Joined y"
    have set: "set (byJoin rows) = set rows" by (simp add: byJoin_def)
    obtain i j where i: "i < length (byJoin rows)" "byJoin rows ! i = x"
      and j: "j < length (byJoin rows)" "byJoin rows ! j = y"
      using x y set by (metis in_set_conv_nth)
    have "i < j"
    proof (rule ccontr)
      assume "\<not> i < j"
      then have "(ar_Joined y, ar_Position y) \<le> (ar_Joined x, ar_Position x)"
        using sorted_nth_mono[OF k, of j i] i j by simp
      with less show False by (simp add: less_eq_prod_def)
    qed
    then have "ar_Position x \<le> ar_Position y" using sorted_nth_mono[OF s, of i j] i j by simp
    moreover have "ar_Position x \<noteq> ar_Position y" using distinct_map_inj[OF assms x y] less by auto
    ultimately show "ar_Position x < ar_Position y" by simp
  qed
next
  assume f: "fair rows"
  have "sorted (map ar_Position (byJoin rows))"
  proof -
    have "sorted_wrt (\<lambda>x y. (ar_Joined x, ar_Position x) \<le> (ar_Joined y, ar_Position y)) (byJoin rows)"
      using sorted_sort_key[of "\<lambda>r. (ar_Joined r, ar_Position r)" rows] by (simp add: byJoin_def sorted_map)
    then have "sorted_wrt (\<lambda>x y. ar_Position x \<le> ar_Position y) (byJoin rows)"
      by (rule sorted_wrt_mono_rel[rotated])
        (use f in \<open>auto simp: byJoin_def less_eq_prod_def fair_def dest: order.strict_implies_order\<close>)
    then show ?thesis by (simp add: sorted_map)
  qed
  moreover have "sorted (map ar_Joined (byPos rows))"
  proof -
    have "sorted_wrt (\<lambda>x y. ar_Position x \<le> ar_Position y) (byPos rows)"
      using sorted_sort_key[of ar_Position rows] by (simp add: byPos_def sorted_map)
    then have "sorted_wrt (\<lambda>x y. ar_Joined x \<le> ar_Joined y) (byPos rows)"
      by (rule sorted_wrt_mono_rel[rotated]) (use f in \<open>force simp: byPos_def fair_def not_le[symmetric]\<close>)
    then show ?thesis by (simp add: sorted_map)
  qed
  ultimately show "inversions rows = 0" by (simp add: inversions_def count_neighbours_0)
qed

lemma audit_of_sale:
  "QueueEntriesForAssert False s d = Inr (map (\<lambda>q. \<lparr>UserID = q_user_id q, EntryPosition = q_position q,
     JoinedAt = q_joined_at q\<rparr>) (sort_key q_position (sale_entries s d)))"
  by (simp add: QueueEntriesForAssert_def query_rows_def sale_entries_def)

text \<open>The exit code, for a table that satisfies its \<open>UNIQUE\<close> constraints.\<close>

lemma assert_queue_0:
  assumes "queue_unique d" and "s \<noteq> []"
  shows "assert_queue False s d = 0 \<longleftrightarrow>
    (\<forall>x\<in>set (sale_entries s d). \<forall>y\<in>set (sale_entries s d). q_joined_at x < q_joined_at y \<longrightarrow> q_position x < q_position y)"
proof -
  let ?es = "map (\<lambda>q. \<lparr>UserID = q_user_id q, EntryPosition = q_position q, JoinedAt = q_joined_at q\<rparr>)
    (sort_key q_position (sale_entries s d))"
  have "distinct (map q_position (sale_entries s d))"
    using assms(1) by (auto simp: queue_unique_def sale_entries_def distinct_map inj_on_def)
  then have "distinct (map q_position (sort_key q_position (sale_entries s d)))"
    by (simp add: distinct_map)
  then have "distinct (map ar_Position (audit_rows ?es))" by (simp add: audit_rows_def comp_def)
  note i = inversions_0[OF this]
  have "fair (audit_rows ?es) \<longleftrightarrow>
    (\<forall>x\<in>set (sale_entries s d). \<forall>y\<in>set (sale_entries s d). q_joined_at x < q_joined_at y \<longrightarrow> q_position x < q_position y)"
    by (simp add: fair_def audit_rows_def)
  with i show ?thesis
    using assms(2) by (auto simp: assert_queue_def audit_of_sale)
qed

lemma assert_queue_01: "s \<noteq> [] \<Longrightarrow> assert_queue flt s d = 0 \<or> assert_queue flt s d = 1"
  by (auto simp: assert_queue_def split: sum.splits)

text \<open>Entries whose times do not decrease in the order of insertion, the last not after \<open>t\<close>.\<close>

definition timed :: "string \<Rightarrow> int \<Rightarrow> db \<Rightarrow> bool" where
  "timed s t d \<longleftrightarrow> sorted (map q_joined_at (sale_entries s d)) \<and> (\<forall>q\<in>set (sale_entries s d). q_joined_at q \<le> t)"

lemma timed_mono: "timed s t d \<Longrightarrow> t \<le> t' \<Longrightarrow> timed s t' d"
  by (fastforce simp: timed_def)

lemma new_row_simps:
  "q_sale_id (new_queue_row e s u n) = s" "q_user_id (new_queue_row e s u n) = u"
  "q_position (new_queue_row e s u n) = n" "q_joined_at (new_queue_row e s u n) = sql_now e"
  by (simp_all add: new_queue_row_def)

context redis_server begin

lemma run_joins_timed:
  "timed s t (dbs w) \<Longrightarrow> sorted (t # map (sql_now \<circ> fst) es) \<Longrightarrow> \<exists>t'. timed s t' (dbs (run_joins R s es w))"
proof (induction es arbitrary: w t)
  case (Cons x es)
  obtain e u where x: "x = (e, u)" by (cases x)
  obtain r w' where j: "Join R e s u w = (r, w')" by fastforce
  have t: "t \<le> sql_now e" "sorted (sql_now e # map (sql_now \<circ> fst) es)" using Cons.prems(2) x by (auto simp: comp_def)
  have "timed s (sql_now e) (dbs w')"
    using Join_entries[OF j]
  proof (elim disjE exE conjE)
    fix n assume "queue_entries (dbs w') = queue_entries (dbs w) @ [new_queue_row e s u n]"
    then show ?thesis using timed_mono[OF Cons.prems(1) t(1)]
      by (simp add: timed_def sale_entries_def new_row_simps sorted_append)
  qed (use timed_mono[OF Cons.prems(1) t(1)] in \<open>simp add: timed_def sale_entries_def\<close>)
  from Cons.IH[OF this t(2)] x j show ?case by simp
qed auto

lemma sequential_fair:
  assumes "queue_inv (alpha (redis w)) (dbs w)" and "positions_sorted (dbs w) s"
    and "timed s t (dbs w)" and "sorted (t # map (sql_now \<circ> fst) es)"
  shows "\<forall>x\<in>set (sale_entries s (dbs (run_joins R s es w))). \<forall>y\<in>set (sale_entries s (dbs (run_joins R s es w))).
    q_joined_at x < q_joined_at y \<longrightarrow> q_position x < q_position y"
proof (intro ballI impI)
  let ?E = "sale_entries s (dbs (run_joins R s es w))"
  fix x y assume x: "x \<in> set ?E" and y: "y \<in> set ?E" and less: "q_joined_at x < q_joined_at y"
  have p: "sorted_wrt (<) (map q_position ?E)"
    using run_joins_sorted[OF assms(1,2)] by (simp add: positions_sorted_def)
  have j: "sorted (map q_joined_at ?E)" using run_joins_timed[OF assms(3,4)] by (auto simp: timed_def)
  obtain a b where a: "a < length ?E" "?E ! a = x" and b: "b < length ?E" "?E ! b = y"
    using x y by (metis in_set_conv_nth)
  have "a < b"
  proof (rule ccontr)
    assume "\<not> a < b"
    with sorted_nth_mono[OF j, of b a] a b less show False by simp
  qed
  with p a b show "q_position x < q_position y"
    by (auto simp: sorted_wrt_iff_nth_less)
qed

end

section \<open>Properties\<close>

text \<open>
  \<^bold>\<open>The audit is exact.\<close> On a table that satisfies its unique constraints, and when the query
  succeeds, the audit exits with 0 exactly when no entry of the sale stands behind one that
  joined later; otherwise it exits with 1.
\<close>

theorem audit_exact:
  assumes "queue_unique d" and "s \<noteq> []"
  shows "assert_queue False s d = (if \<forall>x\<in>set (queue_entries d). \<forall>y\<in>set (queue_entries d).
      q_sale_id x = s \<longrightarrow> q_sale_id y = s \<longrightarrow> q_joined_at x < q_joined_at y \<longrightarrow> q_position x < q_position y
    then 0 else 1)"
proof -
  note assert_queue_01[OF assms(2), of False d]
  moreover have "(\<forall>x\<in>set (sale_entries s d). \<forall>y\<in>set (sale_entries s d). q_joined_at x < q_joined_at y \<longrightarrow> q_position x < q_position y)
    \<longleftrightarrow> (\<forall>x\<in>set (queue_entries d). \<forall>y\<in>set (queue_entries d).
      q_sale_id x = s \<longrightarrow> q_sale_id y = s \<longrightarrow> q_joined_at x < q_joined_at y \<longrightarrow> q_position x < q_position y)"
    by (auto simp: sale_entries_def)
  ultimately show ?thesis using assert_queue_0[OF assms] by auto
qed

text \<open>
  \<^bold>\<open>Sequential joins pass the audit.\<close> From a fair queue, after any sequence of join requests that
  run one after the other while the database clock does not go back, the audit of the sale exits
  with 0.
\<close>

theorem sequential_joins_pass_audit:
  assumes "redis_server R alpha" and "queue_inv (alpha (redis w)) (dbs w)" and "positions_sorted (dbs w) s"
    and "timed s t (dbs w)" and "sorted (t # map (sql_now \<circ> fst) es)" and "s \<noteq> []"
  shows "assert_queue False s (dbs (run_joins R s es w)) = 0"
proof -
  have "queue_unique (dbs (run_joins R s es w))"
    using redis_server.run_joins_inv[OF assms(1,2), of s es] by (simp add: queue_inv_def)
  from assert_queue_0[OF this assms(6)] redis_server.sequential_fair[OF assms(1-5)] show ?thesis by simp
qed

definition demo_unfair :: db where
  "demo_unfair = demo_db\<lparr>queue_entries :=
     [\<lparr>q_id = ''a'', q_sale_id = ''A'', q_user_id = ''u1'', q_position = 2, q_joined_at = 200, q_admitted_at = None\<rparr>,
      \<lparr>q_id = ''b'', q_sale_id = ''A'', q_user_id = ''u2'', q_position = 1, q_joined_at = 300, q_admitted_at = None\<rparr>]\<rparr>"

theorem audit_exact_witness: "assert_queue False ''A'' demo_unfair = 1"
proof -
  have "queue_unique demo_unfair" by (simp add: queue_unique_def demo_unfair_def)
  from audit_exact[OF this, of "''A''"] show ?thesis by (simp add: demo_unfair_def)
qed

theorem sequential_joins_pass_audit_witness:
  "assert_queue False ''A'' (dbs (run_joins mem_redis ''A''
      [(calm_env 200 ''q'', ''u1''), (calm_env 300 ''r'', ''u2'')] demo_world)) = 0"
proof -
  have "positions_sorted (dbs demo_world) ''A''" "timed ''A'' 0 (dbs demo_world)"
    by (simp_all add: positions_sorted_def timed_def sale_entries_def demo_defs)
  from sequential_joins_pass_audit[OF mem_redis_server demo_queue_inv this,
      of "[(calm_env 200 ''q'', ''u1''), (calm_env 300 ''r'', ''u2'')]"] show ?thesis by simp
qed

end
