(* ===== verification/Process.thy ===== *)
theory Process
  imports Demo Assert_Queue
begin

text \<open>
  The programs: the \<open>main\<close> functions below \<open>cmd/\<close> with \<open>internal/db/db.go\<close> and
  \<open>internal/redisclient/redis.go\<close> (connecting), their loops over ticks and signals, the status they exit
  with and the deferred calls that run; and the deployment of the API, the worker and the runner.
\<close>

section \<open>Connecting\<close>

text \<open>
  \<open>pgxpool\<close> and \<open>go-redis\<close> are parameters. A configuration has the two sizes that \<open>Connect\<close> sets and the
  rest of its fields; a Redis client is the record of its commands.
\<close>

record 'c pool_config =
  pc_MaxConns :: int
  pc_MinConns :: int
  pc_rest :: 'c

record ('c, 'p) pgx_api =
  pg_ParseConfig :: "string \<Rightarrow> 'c pool_config result"
  pg_NewWithConfig :: "'c pool_config \<Rightarrow> 'p result"

definition db_Connect :: "('c, 'p) pgx_api \<Rightarrow> string \<Rightarrow> int \<Rightarrow> int \<Rightarrow> 'p result" where
  "db_Connect P url maxConns minConns =
     (case pg_ParseConfig P url of
        Inl err \<Rightarrow> Inl err
      | Inr cfg \<Rightarrow> (case Connect_pool maxConns minConns of (maxC, minC) \<Rightarrow>
          pg_NewWithConfig P (cfg\<lparr>pc_MaxConns := maxC, pc_MinConns := minC\<rparr>)))"

record ('o, 'r) redis_lib =
  rl_ParseURL :: "string \<Rightarrow> 'o result"
  rl_NewClient :: "'o \<Rightarrow> 'r redis_api"
  rl_Ping :: "'o \<Rightarrow> unit result"

definition redis_Connect :: "('o, 'r) redis_lib \<Rightarrow> string \<Rightarrow> 'r redis_api result" where
  "redis_Connect L url =
     (case rl_ParseURL L url of
        Inl err \<Rightarrow> Inl err
      | Inr opt \<Rightarrow> (case rl_Ping L opt of Inl err \<Rightarrow> Inl err | Inr _ \<Rightarrow> Inr (rl_NewClient L opt)))"

section \<open>A process\<close>

text \<open>
  A process runs, or has exited with a status after the deferred calls of its \<open>main\<close> in the order in which
  they ran. \<open>log.Fatalf\<close> and \<open>os.Exit\<close> run none.
\<close>

datatype deferred = PoolClose | RdbClose | TickerStop | CancelShutdown

datatype 's process =
    Running (state_of: 's)
  | Exited int "deferred list" (state_of: 's)

text \<open>How \<open>main\<close> begins in the API, the worker and the audit.\<close>

definition with_connections ::
  "('c, 'p) pgx_api \<Rightarrow> ('o, 'r) redis_lib \<Rightarrow> config \<Rightarrow> ('p \<Rightarrow> 'r redis_api \<Rightarrow> 's \<Rightarrow> 's process) \<Rightarrow> 's \<Rightarrow> 's process" where
  "with_connections P L cfg body s =
     (case db_Connect P (DatabaseURL cfg) (DBMaxConns cfg) (DBMinConns cfg) of
        Inl _ \<Rightarrow> Exited 1 [] s
      | Inr pool \<Rightarrow> (case redis_Connect L (RedisURL cfg) of
            Inl _ \<Rightarrow> Exited 1 [] s
          | Inr rdb \<Rightarrow> body pool rdb s))"

section \<open>The worker\<close>

text \<open>What the loop's \<open>select\<close> receives, in the order in which it does.\<close>

datatype worker_event = W_Tick "env \<times> env" | W_Signal

fun worker_loop ::
  "'r redis_api \<Rightarrow> (sale_row list \<Rightarrow> sale_row list) \<Rightarrow> (hold_row list \<Rightarrow> hold_row list) \<Rightarrow>
     worker_event list \<Rightarrow> 'r world \<Rightarrow> 'r world process" where
  "worker_loop R pick pick' [] w = Running w"
| "worker_loop R pick pick' (W_Signal # _) w = Exited 0 [TickerStop, RdbClose, PoolClose] w"
| "worker_loop R pick pick' (W_Tick es # rest) w = worker_loop R pick pick' rest (worker_tick R pick pick' es w)"

definition worker_main ::
  "('c, 'p) pgx_api \<Rightarrow> ('o, 'r) redis_lib \<Rightarrow> environ \<Rightarrow> (sale_row list \<Rightarrow> sale_row list) \<Rightarrow>
     (hold_row list \<Rightarrow> hold_row list) \<Rightarrow> worker_event list \<Rightarrow> 'r world \<Rightarrow> 'r world process" where
  "worker_main P L os pick pick' evs =
     with_connections P L (Load os) (\<lambda>pool rdb. worker_loop rdb pick pick' evs)"

section \<open>The audit\<close>

text \<open>
  \<open>flag.Parse\<close> for the one flag \<open>-sale\<close>: the status of the process when it ends there (2 for a command line
  that is not understood, 0 for a request for help), otherwise the value of the flag.
\<close>

definition is_flag :: "string \<Rightarrow> bool" where
  "is_flag s \<longleftrightarrow> 2 \<le> length s \<and> hd s = CHR ''-'' \<and> s \<noteq> ''--''"

definition flag_body :: "string \<Rightarrow> string" where
  "flag_body s = (if s ! 1 = CHR ''-'' then drop 2 s else tl s)"

text \<open>The name, and the value after the first equals sign that is not the first character.\<close>

definition flag_parts :: "string \<Rightarrow> string \<times> string option" where
  "flag_parts b = (let n = takeWhile (\<lambda>c. c \<noteq> CHR ''='') (tl b); v = drop (Suc (length n)) b in
     (hd b # n, if v = [] then None else Some (tl v)))"

definition flag_value :: "string \<Rightarrow> int + string option" where
  "flag_value b =
     (if b = [] \<or> hd b = CHR ''-'' \<or> hd b = CHR ''='' then Inl 2
      else case flag_parts b of (name, v) \<Rightarrow>
        if name = ''sale'' then Inr v
        else if name = ''help'' \<or> name = ''h'' then Inl 0 else Inl 2)"

fun flag_Parse :: "string \<Rightarrow> string list \<Rightarrow> int + string" where
  "flag_Parse cur [] = Inr cur"
| "flag_Parse cur [s] =
     (if \<not> is_flag s then Inr cur
      else case flag_value (flag_body s) of Inl c \<Rightarrow> Inl c | Inr (Some v) \<Rightarrow> Inr v | Inr None \<Rightarrow> Inl 2)"
| "flag_Parse cur (s # t # rest) =
     (if \<not> is_flag s then Inr cur
      else case flag_value (flag_body s) of
        Inl c \<Rightarrow> Inl c
      | Inr (Some v) \<Rightarrow> flag_Parse v (t # rest)
      | Inr None \<Rightarrow> flag_Parse t rest)"

text \<open>\<open>main\<close>: \<open>flt\<close> tells whether the query of the entries fails. It always ends.\<close>

definition assert_main ::
  "('c, 'p) pgx_api \<Rightarrow> ('o, 'r) redis_lib \<Rightarrow> environ \<Rightarrow> string list \<Rightarrow> bool \<Rightarrow> 'r world \<Rightarrow> 'r world process" where
  "assert_main P L os args flt w =
     (case flag_Parse [] args of
        Inl c \<Rightarrow> Exited c [] w
      | Inr saleID \<Rightarrow>
          if saleID = [] then Exited 2 [] w
          else with_connections P L (Load os) (\<lambda>pool rdb w.
            let code = assert_queue flt saleID (dbs w);
                closed = (case QueueEntriesForAssert flt saleID (dbs w) of
                  Inr (_ # _) \<Rightarrow> if code = 0 then [RdbClose, PoolClose] else []
                | _ \<Rightarrow> [])
            in Exited (int code) closed w) w)"

section \<open>The runner\<close>

text \<open>Its loop has no end and no signal is handled.\<close>

definition runner_main ::
  "k6_process \<Rightarrow> runner \<Rightarrow> fs_env \<Rightarrow> (fs_env \<times> fs_env) list \<Rightarrow> files \<Rightarrow> files process" where
  "runner_main k6 rn e ticks fs =
     (case runner_start e fs of
        None \<Rightarrow> Exited 1 [] (snd (EnsureDirs e fs))
      | Some fs1 \<Rightarrow> Running (runner_run k6 rn ticks fs1))"

section \<open>The API\<close>

text \<open>
  What \<open>main\<close> has built: the Redis client, the engine with its network and the directories of the load tests,
  and whether the goroutine of the automatic setup is still to run. The pool is the world's database.
\<close>

record 'r api_proc =
  ap_rdb :: "'r redis_api"
  ap_demo :: "('r world \<times> nat) demo"
  ap_setup_due :: bool

definition api_world :: "'r api_proc \<Rightarrow> 'r world" where
  "api_world a = fst (dm_net (ap_demo a))"

definition on_world :: "('r world \<Rightarrow> 'r world) \<Rightarrow> 'r api_proc \<Rightarrow> 'r api_proc" where
  "on_world f a = a\<lparr>ap_demo := (ap_demo a)\<lparr>dm_net := apfst f (dm_net (ap_demo a))\<rparr>\<rparr>"

definition on_files :: "(files \<Rightarrow> files) \<Rightarrow> 'r api_proc \<Rightarrow> 'r api_proc" where
  "on_files f a = a\<lparr>ap_demo := (ap_demo a)\<lparr>dm_files := f (dm_files (ap_demo a))\<rparr>\<rparr>"

definition on_engine ::
  "(engine \<times> ('r world \<times> nat) \<Rightarrow> engine \<times> ('r world \<times> nat)) \<Rightarrow> 'r api_proc \<Rightarrow> 'r api_proc" where
  "on_engine f a = (case f (dm_engine (ap_demo a), dm_net (ap_demo a)) of
     (en, s) \<Rightarrow> a\<lparr>ap_demo := (ap_demo a)\<lparr>dm_engine := en, dm_net := s\<rparr>\<rparr>)"

text \<open>The services of the process use its configuration and its client.\<close>

definition api_net :: "'r net \<Rightarrow> config \<Rightarrow> 'r redis_api \<Rightarrow> 'r net" where
  "api_net N cfg rdb = N\<lparr>nt_deps := (nt_deps N)\<lparr>dp_cfg := cfg, dp_redis := rdb\<rparr>\<rparr>"

text \<open>
  What can happen in the process: a request, a request below \<open>/v1/demo\<close>, a pass of a loop of the engine or its
  return, the automatic setup, the failure of the listener, and a signal, after which \<open>Shutdown\<close> lets the
  requests end.
\<close>

datatype api_event =
    A_Http "nat \<Rightarrow> env" route request
  | A_Demo demo_env demo_route request
  | A_Pass "nat \<Rightarrow> int" sim_loop
  | A_Return sim_loop
  | A_AutoSetup "nat \<Rightarrow> int"
  | A_ListenFails
  | A_Signal

fun api_step :: "'r net \<Rightarrow> config \<Rightarrow> api_event \<Rightarrow> 'r api_proc \<Rightarrow> 'r api_proc process" where
  "api_step N cfg (A_Http es rt rq) a =
     Running (on_world (\<lambda>w. snd (serve (nt_deps (api_net N cfg (ap_rdb a))) es rt rq w)) a)"
| "api_step N cfg (A_Demo de rt rq) a =
     Running (a\<lparr>ap_demo := snd (serve_demo cfg (ap_rdb a) (api_client (api_net N cfg (ap_rdb a))) fst de rt rq (ap_demo a))\<rparr>)"
| "api_step N cfg (A_Pass ck lp) a =
     Running (if lp \<in> set (en_loops (dm_engine (ap_demo a)))
              then on_engine (loop_tick (api_client (api_net N cfg (ap_rdb a))) ck lp) a else a)"
| "api_step N cfg (A_Return lp) a =
     Running (if lp \<in> set (en_loops (dm_engine (ap_demo a))) \<and> lp_ctx lp \<in> set (en_cancelled (dm_engine (ap_demo a)))
              then on_engine (apfst (loop_return lp)) a else a)"
| "api_step N cfg (A_AutoSetup ck) a =
     Running (if ap_setup_due a
              then on_engine (auto_setup (api_client (api_net N cfg (ap_rdb a))) ck cfg) (a\<lparr>ap_setup_due := False\<rparr>)
              else a)"
| "api_step N cfg A_ListenFails a = Exited 1 [] a"
| "api_step N cfg A_Signal a = Exited 0 [CancelShutdown, RdbClose, PoolClose] a"

text \<open>\<open>main\<close> up to its wait, at the time \<open>now\<close>; the world and the directories are those it finds.\<close>

definition api_main ::
  "('c, 'p) pgx_api \<Rightarrow> ('o, 'r) redis_lib \<Rightarrow> environ \<Rightarrow> int \<Rightarrow> 'r api_proc \<Rightarrow> 'r api_proc process" where
  "api_main P L os now =
     with_connections P L (Load os) (\<lambda>pool rdb a.
       Running (a\<lparr>ap_rdb := rdb, ap_demo := (ap_demo a)\<lparr>dm_engine := api_engine (Load os) now\<rparr>,
                  ap_setup_due := DemoAutoSetup (Load os)\<rparr>))"

section \<open>The deployment\<close>

text \<open>
  The API, the worker and the runner on one database, one Redis server and one volume. The API may start,
  also after a crash, at any time; the state of a process that does not run is what it left behind.
\<close>

datatype deploy_event =
    D_Start int
  | D_Api api_event
  | D_Worker "env \<times> env"
  | D_RunnerStart fs_env
  | D_Runner "fs_env \<times> fs_env"

record ('c, 'p, 'o, 'r) deployment =
  dy_pgx :: "('c, 'p) pgx_api"
  dy_redis :: "('o, 'r) redis_lib"
  dy_environ :: environ
  dy_net :: "'r net"
  dy_worker_rdb :: "'r redis_api"
  dy_pick :: "sale_row list \<Rightarrow> sale_row list"
  dy_pick_holds :: "hold_row list \<Rightarrow> hold_row list"
  dy_k6 :: k6_process
  dy_runner :: runner

fun deploy_exec :: "('c, 'p, 'o, 'r) deployment \<Rightarrow> deploy_event \<Rightarrow> 'r api_proc process \<Rightarrow> 'r api_proc process" where
  "deploy_exec Y (D_Start now) p = api_main (dy_pgx Y) (dy_redis Y) (dy_environ Y) now (state_of p)"
| "deploy_exec Y (D_Api ev) p = (case p of
       Running a \<Rightarrow> api_step (dy_net Y) (Load (dy_environ Y)) ev a
     | Exited _ _ _ \<Rightarrow> p)"
| "deploy_exec Y (D_Worker es) p =
     map_process (on_world (worker_tick (dy_worker_rdb Y) (dy_pick Y) (dy_pick_holds Y) es)) p"
| "deploy_exec Y (D_RunnerStart e) p =
     map_process (on_files (\<lambda>fs. state_of (runner_main (dy_k6 Y) (dy_runner Y) e [] fs))) p"
| "deploy_exec Y (D_Runner es) p = map_process (on_files (runner_tick (dy_k6 Y) (dy_runner Y) es)) p"

section \<open>What the demo's handlers keep\<close>

lemma sim_inv_SetSaleID [simp]: "sim_inv (SetSaleID i en) = sim_inv en"
  by (simp add: sim_inv_def SetSaleID_def live_loops_def cong: option.case_cong)

lemma SetupDemoWithParams_engine:
  "SetupDemoWithParams ask ck p (en, s) = (x, en', s') \<Longrightarrow> sim_inv en \<Longrightarrow> sim_inv en'"
  by (auto simp: SetupDemoWithParams_def Let_def split: prod.splits option.splits)

text \<open>An invariant of the engine's network that every answer keeps, with the invariant of the engine.\<close>

definition demo_keeps :: "('s \<Rightarrow> bool) \<Rightarrow> 's demo \<Rightarrow> bool" where
  "demo_keeps P m \<longleftrightarrow> P (dm_net m) \<and> sim_inv (dm_engine m)"

lemma demo_keeps_simps [simp]:
  "demo_keeps P (m\<lparr>dm_files := fs\<rparr>) = demo_keeps P m"
  "demo_keeps P m \<Longrightarrow> demo_keeps P (m\<lparr>dm_engine := Update c (dm_engine m)\<rparr>)"
  "demo_keeps P (m\<lparr>dm_engine := SetSaleID i (dm_engine m)\<rparr>) = demo_keeps P m"
  by (simp_all add: demo_keeps_def Update_inv(1))

lemma setup_params_keeps:
  assumes "\<And>r s. P s \<Longrightarrow> P (snd (ask r s))" and "demo_keeps P m" and "setup_params ask de p m = (x, m')"
  shows "demo_keeps P m'"
proof -
  obtain y en s where y: "SetupDemoWithParams ask (de_clock de) p (dm_engine m, dm_net m) = (y, en, s)" by (metis prod_cases3)
  have "P s" by (rule SetupDemoWithParams_keeps[where P = P and ask = ask, OF assms(1) _ y]) (use assms(2) in \<open>simp_all add: demo_keeps_def\<close>)
  moreover have "sim_inv en" by (rule SetupDemoWithParams_engine[OF y]) (use assms(2) in \<open>simp add: demo_keeps_def\<close>)
  ultimately show ?thesis using assms(3) y by (auto simp: setup_params_def demo_keeps_def)
qed

lemma setup_default_params: "setup_default ask de m = setup_params ask de defaultSaleParams m"
  by (simp add: setup_default_def setup_params_def SetupDemo_def)

lemma submit_run_keeps: "submit_run l de req m = (r, m') \<Longrightarrow> demo_keeps P m' = demo_keeps P m"
  by (auto simp: submit_run_def split: prod.splits sum.splits)

lemma demo_handler_keeps:
  assumes ask: "\<And>r s. P s \<Longrightarrow> P (snd (ask r s))" and "demo_keeps P m" and "demo_handler cfg R ask wo de rt b m = (r, m')"
  shows "demo_keeps P m'"
proof -
  note s = setup_params_keeps[where P = P and ask = ask, OF ask assms(2)]
  show ?thesis
  proof (cases rt)
    case Dm_Setup
    then show ?thesis
      using assms(2,3) s[of de defaultSaleParams]
      by (auto simp: demoSetup_def setup_default_params split: prod.splits sum.splits)
  next
    case Dm_Reset
    then show ?thesis
      using assms(2,3) s by (auto simp: demoReset_def Let_def split: prod.splits sum.splits)
  next
    case Dm_SetSimulation
    then show ?thesis
      using assms(2,3) s[of de defaultSaleParams]
      by (auto simp: setSimulation_def setup_default_params Let_def split: prod.splits sum.splits if_splits)
  next
    case Dm_StartLoadTest
    then show ?thesis
      using assms(2,3) s
      by (auto simp: startLoadTest_def Let_def submit_run_keeps split: prod.splits sum.splits if_splits)
  next
    case Dm_ListLoadTests
    then show ?thesis using assms(2,3) by (auto simp: listLoadTests_def split: prod.splits sum.splits)
  qed (use assms(2,3) in auto)
qed

lemma serve_demo_keeps:
  assumes "\<And>r s. P s \<Longrightarrow> P (snd (ask r s))" and "demo_keeps P m"
  shows "demo_keeps P (snd (serve_demo cfg R ask wo de rt rq m))"
proof -
  obtain r m' where h: "demo_handler cfg R ask wo de rt (rq_body rq) m = (r, m')" by fastforce
  have "demo_keeps P m'" by (rule demo_handler_keeps[where P = P and ask = ask, OF assms h])
  with assms(2) h show ?thesis by (simp add: serve_demo_def split: option.split)
qed

section \<open>The invariant of the deployment\<close>

definition proc_inv :: "('r \<Rightarrow> keyspace) \<Rightarrow> 'r api_proc \<Rightarrow> bool" where
  "proc_inv alpha a \<longleftrightarrow> system_inv (alpha (redis (api_world a))) (dbs (api_world a))"

definition deploy_inv :: "('r \<Rightarrow> keyspace) \<Rightarrow> 'r api_proc process \<Rightarrow> bool" where
  "deploy_inv alpha p \<longleftrightarrow> proc_inv alpha (state_of p)
     \<and> (case p of Running a \<Rightarrow> redis_server (ap_rdb a) alpha \<and> sim_inv (dm_engine (ap_demo a)) | Exited _ _ _ \<Rightarrow> True)"

lemma on_simps [simp]:
  "api_world (on_world f a) = f (api_world a)" "ap_rdb (on_world f a) = ap_rdb a"
  "dm_engine (ap_demo (on_world f a)) = dm_engine (ap_demo a)"
  "api_world (on_files g a) = api_world a" "ap_rdb (on_files g a) = ap_rdb a"
  "dm_engine (ap_demo (on_files g a)) = dm_engine (ap_demo a)"
  by (simp_all add: api_world_def on_world_def on_files_def)

lemma api_net_deps [simp]: "dp_redis (nt_deps (api_net N cfg rdb)) = rdb"
  by (simp add: api_net_def)

lemma state_of_map [simp]: "state_of (map_process f p) = f (state_of p)"
  by (cases p) simp_all

lemma with_connections_cases:
  obtains (failed) "with_connections P L cfg body s = Exited 1 [] s"
  | (connected) pool opt where "db_Connect P (DatabaseURL cfg) (DBMaxConns cfg) (DBMinConns cfg) = Inr pool"
      "rl_ParseURL L (RedisURL cfg) = Inr opt" "with_connections P L cfg body s = body pool (rl_NewClient L opt) s"
  by (force simp: with_connections_def redis_Connect_def split: sum.splits)

lemma on_engine_keeps:
  assumes "proc_inv alpha a" and "sim_inv (dm_engine (ap_demo a))"
    and "\<And>en s en' s'. f (en, s) = (en', s') \<Longrightarrow> sim_inv en \<Longrightarrow> system_inv (alpha (redis (fst s))) (dbs (fst s)) \<Longrightarrow>
      sim_inv en' \<and> system_inv (alpha (redis (fst s'))) (dbs (fst s'))"
  shows "proc_inv alpha (on_engine f a) \<and> sim_inv (dm_engine (ap_demo (on_engine f a))) \<and> ap_rdb (on_engine f a) = ap_rdb a"
  using assms(1,2) assms(3)[of "dm_engine (ap_demo a)" "dm_net (ap_demo a)"]
  by (auto simp: on_engine_def proc_inv_def api_world_def split: prod.splits)

lemma api_step_keeps:
  assumes R: "redis_server (ap_rdb a) alpha" and inv: "proc_inv alpha a" "sim_inv (dm_engine (ap_demo a))"
  shows "deploy_inv alpha (api_step N cfg ev a)"
proof -
  let ?N = "api_net N cfg (ap_rdb a)"
  let ?P = "\<lambda>s :: 'a world \<times> nat. system_inv (alpha (redis (fst s))) (dbs (fst s))"
  have ask: "?P (snd (api_client ?N r s))" if "?P s" for r s
    using api_client_keeps[of ?N alpha s] that R by simp
  show ?thesis
  proof (cases ev)
    case (A_Http es rt rq)
    then show ?thesis
      using inv R redis_server.serve_inv[OF R, of "api_world a" "nt_deps ?N"]
      by (simp add: deploy_inv_def proc_inv_def)
  next
    case (A_Demo de rt rq)
    have "demo_keeps ?P (ap_demo a)" using inv by (simp add: demo_keeps_def proc_inv_def api_world_def)
    from serve_demo_keeps[where P = ?P and ask = "api_client ?N", OF ask this]
    show ?thesis using A_Demo R by (simp add: deploy_inv_def proc_inv_def api_world_def demo_keeps_def)
  next
    case (A_Pass ck lp)
    have "sim_inv en' \<and> ?P s'" if "loop_tick (api_client ?N) ck lp (en, s) = (en', s')" "sim_inv en" "?P s" for en s en' s'
      using loop_tick_inv[OF that(2,1)] engine_exec_keeps[where P = ?P and ask = "api_client ?N", OF ask, of "(en, s)" "E_Pass ck lp"] that
      by simp
    from on_engine_keeps[OF inv this] show ?thesis
      using A_Pass inv R by (simp add: deploy_inv_def)
  next
    case (A_Return lp)
    have "sim_inv (loop_return lp (dm_engine (ap_demo a)))"
      if "lp \<in> set (en_loops (dm_engine (ap_demo a)))" "lp_ctx lp \<in> set (en_cancelled (dm_engine (ap_demo a)))"
      by (rule sim_step_inv[OF step_return[OF that] inv(2)])
    then show ?thesis
      using A_Return inv R by (simp add: deploy_inv_def on_engine_def proc_inv_def api_world_def split: prod.split)
  next
    case (A_AutoSetup ck)
    let ?a = "a\<lparr>ap_setup_due := False\<rparr>"
    have a: "proc_inv alpha ?a" "sim_inv (dm_engine (ap_demo ?a))" "ap_rdb ?a = ap_rdb a"
      using inv by (simp_all add: proc_inv_def api_world_def)
    have "sim_inv en' \<and> ?P s'" if "auto_setup (api_client ?N) ck cfg (en, s) = (en', s')" "sim_inv en" "?P s" for en s en' s'
    proof (cases "DemoAutoSetup cfg")
      case True
      then have "snd (SetupDemoWithParams (api_client ?N) ck defaultSaleParams (en, s)) = (en', s')"
        using that(1) by (simp add: auto_setup_def SetupDemo_def)
      then obtain x where x: "SetupDemoWithParams (api_client ?N) ck defaultSaleParams (en, s) = (x, en', s')"
        by (metis prod.collapse)
      show ?thesis
        using SetupDemoWithParams_keeps[where P = ?P and ask = "api_client ?N", OF ask that(3) x]
          SetupDemoWithParams_engine[OF x that(2)] by simp
    qed (use that in \<open>simp add: auto_setup_def\<close>)
    from on_engine_keeps[OF a(1,2) this] show ?thesis
      using A_AutoSetup inv R a(3) by (simp add: deploy_inv_def)
  qed (use inv in \<open>simp_all add: deploy_inv_def\<close>)
qed

text \<open>Every event keeps the invariant: the locale of Prelude with the deployment's steps.\<close>

lemma deploy_keeper:
  fixes Y :: "('c, 'p, 'o, 'r) deployment"
  assumes "\<And>o'. redis_server (rl_NewClient (dy_redis Y) o') alpha" and "redis_server (dy_worker_rdb Y) alpha"
    and "delivers (dy_pick_holds Y)"
  shows "keeper (deploy_exec Y) (\<lambda>_ _. True) (deploy_inv alpha)"
proof
  fix p :: "'r api_proc process" and ev
  assume i: "deploy_inv alpha p"
  then have w: "proc_inv alpha (state_of p)" by (simp add: deploy_inv_def)
  show "deploy_inv alpha (deploy_exec Y ev p)"
  proof (cases ev)
    case (D_Start now)
    let ?body = "\<lambda>(pool :: 'p) rdb a. Running (a\<lparr>ap_rdb := rdb, ap_demo := (ap_demo a)\<lparr>dm_engine := api_engine (Load (dy_environ Y)) now\<rparr>,
      ap_setup_due := DemoAutoSetup (Load (dy_environ Y))\<rparr>)"
    show ?thesis
      by (rule with_connections_cases[of "dy_pgx Y" "dy_redis Y" "Load (dy_environ Y)" ?body "state_of p"])
        (use w assms(1) sim_inv_new in \<open>simp_all add: D_Start api_main_def deploy_inv_def proc_inv_def api_world_def api_engine_def\<close>)
  next
    case (D_Api e)
    show ?thesis
    proof (cases p)
      case (Running a)
      then have "redis_server (ap_rdb a) alpha" "proc_inv alpha a" "sim_inv (dm_engine (ap_demo a))"
        using i by (simp_all add: deploy_inv_def)
      then show ?thesis using api_step_keeps D_Api Running by simp
    qed (use i D_Api in simp)
  next
    case (D_Worker es)
    have "proc_inv alpha (on_world (worker_tick (dy_worker_rdb Y) (dy_pick Y) (dy_pick_holds Y) es) (state_of p))"
      using w redis_server.worker_tick_inv[OF assms(2) _ assms(3)] by (simp add: proc_inv_def)
    with D_Worker i show ?thesis by (cases p) (simp_all add: deploy_inv_def)
  next
    case (D_RunnerStart e)
    with i show ?thesis by (cases p) (simp_all add: deploy_inv_def proc_inv_def)
  next
    case (D_Runner es)
    with i show ?thesis by (cases p) (simp_all add: deploy_inv_def proc_inv_def)
  qed
qed

text \<open>The in-memory Redis server interprets it.\<close>

definition mem_deployment :: "('c, 'p, 'o, keyspace) deployment \<Rightarrow> ('c, 'p, 'o, keyspace) deployment" where
  "mem_deployment Y = Y\<lparr>dy_redis := (dy_redis Y)\<lparr>rl_NewClient := \<lambda>_. mem_redis\<rparr>, dy_worker_rdb := mem_redis, dy_pick_holds := id\<rparr>"

interpretation mem_deploy: keeper "deploy_exec (mem_deployment Y)" "\<lambda>_ _. True" "deploy_inv id" for Y
  by (rule deploy_keeper)
    (simp_all add: mem_deployment_def mem_redis_server[unfolded id_def] id_def delivers_def)

section \<open>Properties\<close>

text \<open>
  C1. \<^bold>\<open>The deployment never sells and never books a seat twice.\<close> Through every sequence of requests, demo
  requests, passes of the engine, automatic setups, worker ticks, runner ticks, failures to connect or to
  listen, signals, crashes and restarts, with any database fault: the queue and stock invariants hold, no
  order and no ticket is ever stored and no seat is ever sold; and while the API runs, the loops of its
  engine that are not stopped are those of the configuration that was set last.
\<close>

theorem deployment_safe:
  fixes Y :: "('c, 'p, 'o, 'r) deployment"
  assumes "\<And>o'. redis_server (rl_NewClient (dy_redis Y) o') alpha" and "redis_server (dy_worker_rdb Y) alpha"
    and "delivers (dy_pick_holds Y)"
    and "system_inv (alpha (redis (api_world a))) (dbs (api_world a))"
    and "run_calls (deploy_exec Y) evs (Exited 0 [] a) = p" and "b = state_of p" and "en = dm_engine (ap_demo b)"
  shows "queue_inv (alpha (redis (api_world b))) (dbs (api_world b)) \<and> stock_inv (dbs (api_world b))
    \<and> orders (dbs (api_world b)) = [] \<and> tickets (dbs (api_world b)) = []
    \<and> (\<forall>x\<in>set (seats (dbs (api_world b))). st_status x \<noteq> Sold)
    \<and> (p = Running b \<longrightarrow> live_loops en = [] \<or>
         (\<exists>saleID g. en_stop en = Some g \<and> saleID \<noteq> [] \<and> live_loops en = loops_of (en_cfg en) saleID g))"
proof -
  have "deploy_inv alpha (Exited 0 [] a)" using assms(4) by (simp add: deploy_inv_def proc_inv_def)
  from keeper.run_keeps[OF deploy_keeper[OF assms(1-3)] this, of evs]
  have i: "deploy_inv alpha p" using assms(5) by simp
  then have "proc_inv alpha b" using assms(6) by (simp add: deploy_inv_def)
  moreover from this have "\<forall>x\<in>set (seats (dbs (api_world b))). st_status x \<noteq> Sold"
    by (simp add: proc_inv_def no_seat_sold)
  moreover have "sim_inv en" if "p = Running b" using i that assms(7) by (simp add: deploy_inv_def)
  ultimately show ?thesis by (auto simp: proc_inv_def system_inv_def sim_inv_def split: option.splits)
qed

text \<open>Libraries that accept every address, and the deployment on the in-memory server.\<close>

definition demo_pgx :: "(unit, unit) pgx_api" where
  "demo_pgx = \<lparr>pg_ParseConfig = (\<lambda>_. Inr \<lparr>pc_MaxConns = 4, pc_MinConns = 0, pc_rest = ()\<rparr>), pg_NewWithConfig = (\<lambda>_. Inr ())\<rparr>"

definition demo_redis :: "(unit, keyspace) redis_lib" where
  "demo_redis = \<lparr>rl_ParseURL = (\<lambda>_. Inr ()), rl_NewClient = (\<lambda>_. mem_redis), rl_Ping = (\<lambda>_. Inr ())\<rparr>"

definition demo_deployment :: "(unit, unit, unit, keyspace) deployment" where
  "demo_deployment = \<lparr>dy_pgx = demo_pgx, dy_redis = demo_redis, dy_environ = (\<lambda>_. []), dy_net = demo_net,
     dy_worker_rdb = mem_redis, dy_pick = id, dy_pick_holds = id, dy_k6 = silent_k6, dy_runner = a_runner\<rparr>"

definition demo_proc :: "keyspace api_proc" where
  "demo_proc = \<lparr>ap_rdb = mem_redis, ap_demo = \<lparr>dm_engine = demo_engine, dm_net = (demo_world, 0), dm_files = no_files\<rparr>,
     ap_setup_due = False\<rparr>"

lemma demo_connects [simp]:
  "with_connections demo_pgx demo_redis cfg body s = body () mem_redis s"
  by (simp add: with_connections_def db_Connect_def redis_Connect_def demo_pgx_def demo_redis_def Connect_pool_def Let_def)

lemma deployment_safe_witness:
  "\<exists>b. run_calls (deploy_exec demo_deployment)
      [D_Start new_year, D_Worker (calm_env 200 [], calm_env 200 [])] (Exited 0 [] demo_proc) = Running b
    \<and> ap_setup_due b \<and> stock_inv (dbs (api_world b)) \<and> orders (dbs (api_world b)) = []"
proof -
  let ?p = "run_calls (deploy_exec demo_deployment) [D_Start new_year, D_Worker (calm_env 200 [], calm_env 200 [])] (Exited 0 [] demo_proc)"
  have l: "dy_redis demo_deployment = demo_redis" "dy_worker_rdb demo_deployment = mem_redis" "dy_pick_holds demo_deployment = id"
    "\<And>o'. rl_NewClient demo_redis o' = mem_redis" "api_world demo_proc = demo_world"
    by (simp_all add: demo_deployment_def demo_redis_def demo_proc_def api_world_def)
  have "stock_inv (dbs (api_world (state_of ?p))) \<and> orders (dbs (api_world (state_of ?p))) = []"
    using deployment_safe[of demo_deployment "\<lambda>m. m" demo_proc, OF _ _ _ _ refl refl refl] demo_system_inv mem_redis_server
    by (simp add: l delivers_def del: run_calls.simps deploy_exec.simps)
  moreover have "?p = Running (state_of ?p) \<and> ap_setup_due (state_of ?p)"
    by (simp add: demo_deployment_def api_main_def on_world_def Load_def boolEnv_def)
  ultimately show ?thesis by metis
qed

section \<open>Lives of the worker\<close>

definition connects :: "('c, 'p) pgx_api \<Rightarrow> ('o, 'r) redis_lib \<Rightarrow> config \<Rightarrow> bool" where
  "connects P L cfg \<longleftrightarrow> is_ok (db_Connect P (DatabaseURL cfg) (DBMaxConns cfg) (DBMinConns cfg))
     \<and> is_ok (redis_Connect L (RedisURL cfg))"

lemma with_connections_if:
  assumes "\<And>o'. rl_NewClient L o' = R" and "\<And>pool. body pool = f"
  shows "with_connections P L cfg body s = (if connects P L cfg then f R s else Exited 1 [] s)"
  using assms by (auto simp: with_connections_def connects_def is_ok_def redis_Connect_def split: sum.splits)

text \<open>The ticks that a loop takes before its signal.\<close>

fun ticks_taken :: "worker_event list \<Rightarrow> (env \<times> env) list" where
  "ticks_taken [] = []"
| "ticks_taken (W_Signal # _) = []"
| "ticks_taken (W_Tick es # rest) = es # ticks_taken rest"

lemma worker_loop_ticks:
  "state_of (worker_loop R pick pick' evs w) = worker_run R pick pick' (ticks_taken evs) w"
  "(\<exists>w'. worker_loop R pick pick' evs w = Running w') \<longleftrightarrow> W_Signal \<notin> set evs"
  "worker_loop R pick pick' evs w = Exited c ds w' \<Longrightarrow> c = 0 \<and> ds = [TickerStop, RdbClose, PoolClose]"
  by (induction evs arbitrary: w rule: ticks_taken.induct) auto

lemma worker_run_append:
  "worker_run R pick pick' (xs @ ys) w = worker_run R pick pick' ys (worker_run R pick pick' xs w)"
  by (induction xs arbitrary: w) auto

text \<open>A worker that is started again and again, each time with its own luck in connecting and its own events.\<close>

definition life_ticks :: "environ \<Rightarrow> ('c, 'p) pgx_api \<times> ('o, 'r) redis_lib \<times> worker_event list \<Rightarrow> (env \<times> env) list" where
  "life_ticks os = (\<lambda>(P, L, evs). if connects P L (Load os) then ticks_taken evs else [])"

fun worker_lives ::
  "environ \<Rightarrow> (sale_row list \<Rightarrow> sale_row list) \<Rightarrow> (hold_row list \<Rightarrow> hold_row list) \<Rightarrow>
     (('c, 'p) pgx_api \<times> ('o, 'r) redis_lib \<times> worker_event list) list \<Rightarrow> 'r world \<Rightarrow> 'r world" where
  "worker_lives os pick pick' [] w = w"
| "worker_lives os pick pick' ((P, L, evs) # lives) w =
     worker_lives os pick pick' lives (state_of (worker_main P L os pick pick' evs w))"

lemma worker_main_if:
  assumes "\<And>opt. rl_NewClient L opt = R"
  shows "worker_main P L os pick pick' evs w
      = (if connects P L (Load os) then worker_loop R pick pick' evs w else Exited 1 [] w)"
  unfolding worker_main_def by (rule with_connections_if) (use assms in auto)

definition worker_ends :: "bool \<Rightarrow> worker_event list \<Rightarrow> 'r world \<Rightarrow> 'r world process \<Rightarrow> bool" where
  "worker_ends conn evs w p = (if \<not> conn then p = Exited 1 [] w
     else if W_Signal \<in> set evs then p = Exited 0 [TickerStop, RdbClose, PoolClose] (state_of p)
     else p = Running (state_of p))"

lemma worker_main_ends:
  assumes "\<And>opt. rl_NewClient L opt = R"
  shows "worker_ends (connects P L (Load os)) evs w (worker_main P L os pick pick' evs w)"
proof (cases "worker_loop R pick pick' evs w")
  case (Running w')
  then show ?thesis
    using worker_loop_ticks(2)[of R pick pick' evs w] by (simp add: worker_main_if[OF assms] worker_ends_def)
next
  case (Exited c ds w')
  then show ?thesis
    using worker_loop_ticks(2)[of R pick pick' evs w] worker_loop_ticks(3)[OF Exited]
    by (simp add: worker_main_if[OF assms] worker_ends_def)
qed

text \<open>
  C23. \<^bold>\<open>The worker keeps nothing in memory.\<close> Whatever the lives of its process (failures to connect, signals in
  the middle of the ticks, restarts), the database and Redis are as after one uninterrupted run of the ticks
  that were taken. A life that does not connect changes nothing and ends with status 1; one that gets a
  signal ends with status 0 after closing its connections, without a tick after the signal; the others run.
\<close>

theorem worker_lives_join:
  assumes "\<forall>(P, L, evs)\<in>set lives. \<forall>opt. rl_NewClient L opt = R"
  shows "worker_lives os pick pick' lives w = worker_run R pick pick' (concat (map (life_ticks os) lives)) w
    \<and> (\<forall>(P, L, evs)\<in>set lives. worker_ends (connects P L (Load os)) evs w (worker_main P L os pick pick' evs w))"
proof
  show "worker_lives os pick pick' lives w = worker_run R pick pick' (concat (map (life_ticks os) lives)) w"
    using assms
  proof (induction lives arbitrary: w)
    case (Cons l lives)
    obtain P L evs where l: "l = (P, L, evs)" by (cases l)
    have "state_of (worker_main P L os pick pick' evs w) = worker_run R pick pick' (life_ticks os l) w"
      using worker_main_if[of L R P os pick pick' evs w] Cons.prems by (simp add: l life_ticks_def worker_loop_ticks(1))
    with Cons show ?case by (simp add: l worker_run_append)
  qed simp
  show "\<forall>(P, L, evs)\<in>set lives. worker_ends (connects P L (Load os)) evs w (worker_main P L os pick pick' evs w)"
    using assms worker_main_ends by blast
qed

definition demo_pair :: "int \<Rightarrow> env \<times> env" where
  "demo_pair t = (calm_env t [], calm_env t [])"

lemma worker_lives_join_witness:
  "worker_lives (\<lambda>_. []) id id
      [(demo_pgx, demo_redis, [W_Tick (demo_pair 200), W_Signal, W_Tick (demo_pair 205)]),
       (demo_pgx, demo_redis\<lparr>rl_Ping := \<lambda>_. Inl RedisError\<rparr>, [W_Tick (demo_pair 205)]),
       (demo_pgx, demo_redis, [W_Tick (demo_pair 210)])] demo_world
   = worker_run mem_redis id id [demo_pair 200, demo_pair 210] demo_world"
proof -
  have "connects demo_pgx demo_redis cfg" "\<not> connects demo_pgx (demo_redis\<lparr>rl_Ping := \<lambda>_. Inl RedisError\<rparr>) cfg" for cfg
    by (simp_all add: connects_def db_Connect_def redis_Connect_def demo_pgx_def demo_redis_def is_ok_def Connect_pool_def Let_def)
  then show ?thesis
    using worker_lives_join[of "[(demo_pgx, demo_redis, [W_Tick (demo_pair 200), W_Signal, W_Tick (demo_pair 205)]),
       (demo_pgx, demo_redis\<lparr>rl_Ping := \<lambda>_. Inl RedisError\<rparr>, [W_Tick (demo_pair 205)]), (demo_pgx, demo_redis, [W_Tick (demo_pair 210)])]" mem_redis]
    by (simp add: life_ticks_def demo_redis_def del: worker_lives.simps)
qed

section \<open>The audit's status\<close>

lemma flag_Parse_sale:
  "flag_Parse [] [''-sale'', s] = Inr s" "flag_Parse [] [''-sale='' @ s] = Inr s" "flag_Parse [] [] = Inr []"
  "flag_Parse [] [''-sale''] = Inl 2" "flag_Parse [] [''-h''] = Inl 0"
  by (simp_all add: is_flag_def flag_body_def flag_value_def flag_parts_def Let_def)

lemma flag_value_codes: "flag_value b = Inl c \<Longrightarrow> c = 0 \<or> c = 2"
  by (auto simp: flag_value_def split: if_splits prod.splits)

lemma flag_Parse_codes: "flag_Parse cur args = Inl c \<Longrightarrow> c = 0 \<or> c = 2"
  by (induction cur args rule: flag_Parse.induct)
    (auto split: if_splits sum.splits option.splits dest: flag_value_codes)

definition fair_queue :: "string \<Rightarrow> db \<Rightarrow> bool" where
  "fair_queue s d \<longleftrightarrow> (\<forall>x\<in>set (sale_entries s d). \<forall>y\<in>set (sale_entries s d).
     q_joined_at x < q_joined_at y \<longrightarrow> q_position x < q_position y)"



end
