(* ===== verification/Site.thy ===== *)
theory Site
  imports Process
begin

text \<open>
  The whole route table of \<open>internal/httpapi/handlers.go\<close>: the routes of the API and of the demo, the page of
  \<open>internal/httpapi/static.go\<close> and the metrics, each behind its middleware; and what a client without any
  credential can change.
\<close>

section \<open>The page\<close>

text \<open>
  The embedded files and \<open>net/http\<close> that serves them are parameters: a sub-directory of the files, the answer of
  the file server to a path, a single file, and the answer for a missing one.
\<close>

record 'f static_lib =
  sl_Sub :: "string \<Rightarrow> 'f result"
  sl_FileServer :: "'f \<Rightarrow> string \<Rightarrow> int \<times> string"
  sl_ServeFileFS :: "'f \<Rightarrow> string \<Rightarrow> int \<times> string"
  sl_NotFound :: "int \<times> string"

definition staticHandler :: "'f static_lib \<Rightarrow> string \<Rightarrow> int \<times> string" where
  "staticHandler S path = (case sl_Sub S ''static'' of Inl _ \<Rightarrow> sl_NotFound S | Inr sub \<Rightarrow> sl_FileServer S sub path)"

definition serveIndex :: "'f static_lib \<Rightarrow> int \<times> string" where
  "serveIndex S = (case sl_Sub S ''static'' of Inl _ \<Rightarrow> sl_NotFound S | Inr sub \<Rightarrow> sl_ServeFileFS S sub ''index.html'')"

section \<open>The route table\<close>

datatype site_route =
    S_Api route
  | S_Demo demo_route
  | S_Index
  | S_File string
  | S_Metrics

text \<open>The routes below \<open>/v1/demo\<close>; \<open>param\<close> is the query parameter \<open>sale_id\<close>.\<close>

definition find_demo :: "string \<Rightarrow> string \<Rightarrow> string list \<Rightarrow> demo_route option" where
  "find_demo mth param ss =
     (case ss of
        [a] \<Rightarrow>
          if mth = ''GET'' then
            (if a = ''config'' then Some Dm_Config
             else if a = ''simulation'' then Some Dm_GetSimulation
             else if a = ''dashboard'' then Some (Dm_Dashboard param)
             else if a = ''loadtests'' then Some Dm_ListLoadTests else None)
          else if mth = ''POST'' then
            (if a = ''setup'' then Some Dm_Setup
             else if a = ''reset'' then Some Dm_Reset
             else if a = ''loadtest'' then Some Dm_StartLoadTest else None)
          else if mth = ''PUT'' \<and> a = ''simulation'' then Some Dm_SetSimulation else None
      | [a, runID] \<Rightarrow> if mth = ''GET'' \<and> a = ''loadtest'' \<and> runID \<noteq> [] then Some (Dm_GetLoadTest runID) else None
      | _ \<Rightarrow> None)"

text \<open>\<open>None\<close>: no handler of the program runs.\<close>

definition Routes :: "string \<Rightarrow> string \<Rightarrow> string \<Rightarrow> site_route option" where
  "Routes mth path param =
     (case split_on CHR ''/'' path of
        [] # v # g # ss \<Rightarrow>
          if v = ''v1'' \<and> g = ''demo'' then map_option S_Demo (find_demo mth param ss)
          else map_option S_Api (find_route mth (v # g # ss))
      | [[], f] \<Rightarrow>
          if mth = ''GET'' \<and> (f = [] \<or> f = ''index.html'') then Some S_Index
          else if f = ''styles.css'' \<or> f = ''app.js'' then Some (S_File path)
          else if f = ''metrics'' then Some S_Metrics
          else None
      | _ \<Rightarrow> None)"

section \<open>A request to the site\<close>

datatype site_answer =
    An_Api response
  | An_Demo "response + demo_response"
  | An_File "int \<times> string"
  | An_Metrics "metric list"
  | An_Unrouted

text \<open>The collectors as they stand.\<close>

definition metrics_Handler :: "'r world \<Rightarrow> metric list" where
  "metrics_Handler w = metrics w"

fun serve_site ::
  "'f static_lib \<Rightarrow> 'r net \<Rightarrow> config \<Rightarrow> (nat \<Rightarrow> env) \<Rightarrow> demo_env \<Rightarrow> site_route option \<Rightarrow> request \<Rightarrow> 'r api_proc
     \<Rightarrow> site_answer \<times> 'r api_proc" where
  "serve_site S N cfg es de (Some (S_Api rt)) rq a =
     (case serve (nt_deps (api_net N cfg (ap_rdb a))) es rt rq (api_world a) of
        (r, w) \<Rightarrow> (An_Api r, on_world (\<lambda>_. w) a))"
| "serve_site S N cfg es de (Some (S_Demo rt)) rq a =
     (case serve_demo cfg (ap_rdb a) (api_client (api_net N cfg (ap_rdb a))) fst de rt rq (ap_demo a) of
        (r, m) \<Rightarrow> (An_Demo r, a\<lparr>ap_demo := m\<rparr>))"
| "serve_site S N cfg es de (Some S_Index) rq a = (An_File (serveIndex S), a)"
| "serve_site S N cfg es de (Some (S_File path)) rq a = (An_File (staticHandler S path), a)"
| "serve_site S N cfg es de (Some S_Metrics) rq a = (An_Metrics (metrics_Handler (api_world a)), a)"
| "serve_site S N cfg es de None rq a = (An_Unrouted, a)"

section \<open>Clients without a credential\<close>

definition anonymous :: "'r deps \<Rightarrow> config \<Rightarrow> int \<Rightarrow> request \<Rightarrow> bool" where
  "anonymous D cfg now rq \<longleftrightarrow>
     isl (Middleware (dp_jwt D) now (JWTSecret cfg) (rq_Authorization rq))
     \<and> isl (AdmissionMiddleware (dp_jwt D) now (JWTSecret cfg) (rq_Authorization rq))
     \<and> adminAuth cfg rq \<noteq> None \<and> (demoAuth cfg rq \<noteq> None \<or> DemoAPIKey cfg = [])"

lemma api_net_simps [simp]:
  "dp_cfg (nt_deps (api_net N cfg rdb)) = cfg" "dp_jwt (nt_deps (api_net N cfg rdb)) = dp_jwt (nt_deps N)"
  by (simp_all add: api_net_def)

lemma on_world_const:
  "on_world (\<lambda>_. api_world a) a = a" "on_world (\<lambda>_. f (api_world a)) a = on_world f a"
  by (simp_all add: on_world_def api_world_def apfst_def map_prod_def split: prod.split)

lemma register_adds_user:
  assumes "register D e rq w = (r, w')"
  shows "w' = w \<or> (\<exists>u. w' = w\<lparr>dbs := (dbs w)\<lparr>users := users (dbs w) @ [u]\<rparr>\<rparr>)"
proof -
  have "d = dbs w \<or> (\<exists>u. d = (dbs w)\<lparr>users := users (dbs w) @ [u]\<rparr>)"
    if "exec_stmt flt (insert_user row) (dbs w) = (x, d)" for flt row x d
    using exec_stmt_effect[OF that] by (auto simp: insert_user_def split: if_splits)
  with assms show ?thesis
    by (fastforce simp: register_def Let_def split: prod.splits sum.splits if_splits)
qed

lemma anonymous_serve:
  assumes "anonymous D (dp_cfg D) (go_now (es 0)) rq" and "serve D es rt rq w = (r, w')"
  shows "w' = w \<or> rt = Rt_Register \<and> (\<exists>u. w' = w\<lparr>dbs := (dbs w)\<lparr>users := users (dbs w) @ [u]\<rparr>\<rparr>)"
proof -
  obtain c where c: "Middleware (dp_jwt D) (go_now (es 0)) (JWTSecret (dp_cfg D)) (rq_Authorization rq) = Inl c"
    using assms(1) by (auto simp: anonymous_def isl_def)
  obtain c' where c': "AdmissionMiddleware (dp_jwt D) (go_now (es 0)) (JWTSecret (dp_cfg D)) (rq_Authorization rq) = Inl c'"
    using assms(1) by (auto simp: anonymous_def isl_def)
  have guarded: "snd (with_user D (es 0) rq f w) = w" "snd (with_admission D (es 0) rq g w) = w" "snd (with_admin D rq x w) = w"
    for f g x
    using assms(1) c c' by (auto simp: with_user_def with_admission_def with_admin_def anonymous_def split: prod.split)
  show ?thesis
  proof (cases rt)
    case Rt_Register
    then show ?thesis using register_adds_user[of D "es 0" rq w r w'] assms(2) by simp
  next
    case Rt_Login
    then show ?thesis using assms(2) by (auto simp: login_def Let_def split: prod.splits sum.splits if_splits)
  qed (use assms(2) guarded in \<open>auto simp: ready_def; metis snd_conv\<close>)+
qed

section \<open>Properties\<close>

text \<open>
  C10. \<^bold>\<open>Without a credential nothing changes but the list of accounts.\<close> Whatever method and path a client
  sends, with an \<open>Authorization\<close> that neither middleware accepts, without the administrator's key and without
  the demo key: the database, Redis, the engine, its network and the directories of the load tests stay as
  they are, except that registering may add one user. The routes of the demo are open to everybody when no
  demo key is configured, which is the default.
\<close>

theorem anonymous_is_harmless:
  assumes "anonymous (nt_deps N) cfg (go_now (es 0)) rq"
    and "serve_site S N cfg es de (Routes mth path param) rq a = (ans, a')"
  shows "a' = a \<or> Routes mth path param = Some (S_Api Rt_Register)
    \<and> (\<exists>u. a' = on_world (\<lambda>w. w\<lparr>dbs := (dbs w)\<lparr>users := users (dbs w) @ [u]\<rparr>\<rparr>) a)
    \<or> DemoAPIKey cfg = [] \<and> (\<exists>x. Routes mth path param = Some (S_Demo x))"
proof (cases "Routes mth path param")
  case (Some rt)
  show ?thesis
  proof (cases rt)
    case (S_Api x)
    let ?D = "nt_deps (api_net N cfg (ap_rdb a))"
    obtain r w where s: "serve ?D es x rq (api_world a) = (r, w)" by fastforce
    then have a': "a' = on_world (\<lambda>_. w) a" using assms(2) Some S_Api by simp
    have "anonymous ?D (dp_cfg ?D) (go_now (es 0)) rq" using assms(1) by (simp add: anonymous_def)
    from anonymous_serve[OF this s] show ?thesis
      using a' Some S_Api on_world_const(2)[of "\<lambda>w. w\<lparr>dbs := (dbs w)\<lparr>users := users (dbs w) @ [u]\<rparr>\<rparr>" a for u]
      by (auto simp: on_world_const(1))
  next
    case (S_Demo x)
    then show ?thesis using assms Some by (auto simp: serve_demo_def anonymous_def)
  qed (use assms(2) Some in auto)
qed (use assms(2) in auto)

definition demo_static :: "unit static_lib" where
  "demo_static = \<lparr>sl_Sub = (\<lambda>_. Inr ()), sl_FileServer = (\<lambda>_ p. (200, p)), sl_ServeFileFS = (\<lambda>_ p. (200, p)), sl_NotFound = (404, [])\<rparr>"

lemma demo_routes:
  "Routes ''POST'' ''/v1/demo/setup'' [] = Some (S_Demo Dm_Setup)" "Routes ''GET'' ''/'' [] = Some S_Index"
  "Routes ''GET'' ''/app.js'' [] = Some (S_File ''/app.js'')" "Routes ''GET'' ''/metrics'' [] = Some S_Metrics"
  "Routes ''POST'' ''/v1/auth/login'' [] = Some (S_Api Rt_Login)" "Routes ''GET'' ''/health/live'' [] = Some (S_Api Rt_Live)"
  "Routes ''GET'' ''/v1/sales/x/seats'' [] = Some (S_Api (Rt_Seats ''x''))" "Routes ''GET'' ''/v1/orders/'' [] = None"
  "Routes ''PUT'' ''/v1/demo/simulation'' [] = Some (S_Demo Dm_SetSimulation)" "Routes ''GET'' ''/v1/demo/setup'' [] = None"
  by (simp_all add: Routes_def find_demo_def find_route_def)

definition a_demo_env :: demo_env where
  "a_demo_env = \<lparr>de_env = calm_env 5 [], de_clock = (\<lambda>_. new_year), de_fs = calm_fs new_year, de_runID = ''r''\<rparr>"

lemma anonymous_is_harmless_witness:
  "\<exists>ans. serve_site demo_static demo_net (demo_config\<lparr>DemoAPIKey := ''secret''\<rparr>) (\<lambda>_. calm_env 5 ''t'') a_demo_env
      (Routes ''POST'' ''/v1/demo/setup'' []) (demo_request [] None) demo_proc = (ans, demo_proc)"
proof -
  have "AdminAPIKey demo_config \<noteq> []" by (simp add: demo_config_def Load_def Let_def getEnv_def)
  then have "anonymous (nt_deps demo_net) (demo_config\<lparr>DemoAPIKey := ''secret''\<rparr>) 5 (demo_request [] None)"
    by (simp add: anonymous_def Middleware_def AdmissionMiddleware_def adminAuth_def demoAuth_def demo_request_def)
  from anonymous_is_harmless[where N = demo_net and cfg = "demo_config\<lparr>DemoAPIKey := ''secret''\<rparr>"
      and rq = "demo_request [] None" and S = demo_static and de = a_demo_env and es = "\<lambda>_. calm_env 5 ''t''" and mth = "''POST''"
      and path = "''/v1/demo/setup''" and param = "[]" and a = demo_proc, OF _ prod.collapse[symmetric]] this
  have "snd (serve_site demo_static demo_net (demo_config\<lparr>DemoAPIKey := ''secret''\<rparr>) (\<lambda>_. calm_env 5 ''t'') a_demo_env
      (Routes ''POST'' ''/v1/demo/setup'' []) (demo_request [] None) demo_proc) = demo_proc"
    by (simp add: demo_routes(1) del: serve_site.simps demo_net_simps)
  then show ?thesis by (metis prod.collapse)
qed

end
