(* ===== verification/Journey.thy ===== *)
theory Journey
  imports System
begin

text \<open>
  The way of a user through the whole system: from the login through the waiting room, while the worker
  moves the window, to the admission token and the seats it gets; over the routes, with the JWT library, the
  database, Redis and the worker together.
\<close>

section \<open>Tokens the middlewares accept\<close>

lemma login_token_accepted:
  assumes "jwt_signing (dp_jwt D)" and "serve D es Rt_Login rq w = ((200, R_UserToken u tok), w1)"
    and "now < numeric_date (go_now (es 0) + day) * 10 ^ 9"
  shows "Middleware (dp_jwt D) now (JWTSecret (dp_cfg D)) (''Bearer '' @ tok)
    = Inr \<lparr>ctx_userID = u, ctx_saleID = [], ctx_jti = []\<rparr>"
proof -
  have J: "jwt_library (dp_jwt D)" by (rule jwt_signing.axioms(1)[OF assms(1)])
  have "login D (es 0) rq w = ((200, R_UserToken u tok), w1)" using assms(2) by simp
  from login_token[OF assms(1) this, unfolded IssueUserToken_def]
  have "ParseUserToken (dp_jwt D) now (JWTSecret (dp_cfg D)) tok = Inr \<lparr>uid = u\<rparr>"
    using jwt_library.ParseUserToken_issued[OF J] jwt_library.expired_issued[OF J assms(3)]
    by (fastforce simp: str_or_zero_def)
  then show ?thesis by (simp add: Middleware_def)
qed

lemma login_keeps_world: "serve D es Rt_Login rq w = ((200, R_UserToken u tok), w1) \<Longrightarrow> w1 = w"
  by (auto simp: login_def Let_def split: prod.splits sum.splits if_splits)

lemma issue_admission_ok:
  assumes "jwt_signing (dp_jwt D)"
  obtains tok where "issue_admission D e u s j = Inr tok"
proof -
  have "is_ok (issue_admission D e u s j)"
    using jwt_signing.sign_ok[OF assms] by (simp add: issue_admission_def IssueAdmissionToken_def)
  then show ?thesis using that by (auto simp: is_ok_def split: sum.splits)
qed

section \<open>The journey\<close>

text \<open>
  What a token is good for until a moment: the hold route, called with it in a state in which the user has no
  live hold and the seats are free, gives exactly these seats.
\<close>

definition opens_seats :: "'r deps \<Rightarrow> string \<Rightarrow> string \<Rightarrow> int \<Rightarrow> string \<Rightarrow> bool" where
  "opens_seats D s u until tok \<longleftrightarrow> (\<forall>e rq req w.
     rq_Authorization rq = ''Admission '' @ tok \<longrightarrow> go_now (e 0) < until \<longrightarrow> no_faults (e 0) \<longrightarrow>
     decode_hold (rq_body rq) = (req, True) \<longrightarrow> hr_IdempotencyKey req \<noteq> [] \<longrightarrow>
     may_hold (e 0) s u (hr_IdempotencyKey req) (dbs w) \<longrightarrow>
     hr_SeatIDs req \<noteq> [] \<longrightarrow> length (hr_SeatIDs req) \<le> 4 \<longrightarrow> distinct (hr_SeatIDs req) \<longrightarrow>
     (\<forall>i\<in>set (hr_SeatIDs req). \<exists>x\<in>set (seats (dbs w)). st_id x = i \<and> st_sale_id x = s \<and> st_status x = Available) \<longrightarrow>
     fst (serve D e (Rt_Hold s) rq w) = (200, R_Hold \<lparr>HoldID = new_uuid (e 0) 0, SeatIDs = hr_SeatIDs req,
       ExpiresAt = go_now (e 0) + HoldTTL (dp_cfg D)\<rparr>))"

lemma admission_opens_seats:
  assumes "jwt_library (dp_jwt D)" and "issue_admission D e u s j = Inr tok"
  shows "opens_seats D s u (numeric_date (go_now e + AdmissionTTL (dp_cfg D)) * 10 ^ 9) tok"
proof -
  have "serve D eh (Rt_Hold s) rh w = createHold D (eh 0) rh s u w"
    if "rq_Authorization rh = ''Admission '' @ tok"
      "go_now (eh 0) < numeric_date (go_now e + AdmissionTTL (dp_cfg D)) * 10 ^ 9" for eh rh w
    by (rule serve_hold_admitted)
      (use jwt_library.admission_round_trip[OF assms(1) assms(2)[unfolded issue_admission_def]] that in simp)
  then show ?thesis by (simp add: opens_seats_def createHold_def hold_exact Let_def del: serve.simps)
qed

text \<open>
  C4. \<^bold>\<open>Waiting leads to seats.\<close> A user who has logged in and stands at position \<open>p\<close> of a sale that
  stays open gets, after at most \<open>p\<close> ticks of the worker, from the status route an answer that admits him
  with a token; and while the token lives, the hold route, called with that token in any later state in
  which the user has no live hold and the seats are free, gives exactly these seats.
\<close>

theorem waiting_leads_to_seats:
  assumes "redis_reliable (dp_redis D) alpha" and "jwt_signing (dp_jwt D)" and "delivers pick"
    and "windows_persist (alpha (redis w))" and "0 \<le> next_admit (alpha (redis w)) s"
    and "distinct (map s_id (sales (dbs w)))" and "r \<in> set (sales (dbs w))" and "s_id r = s"
    and "number_of s u (dbs w) = Some p" and "p \<le> int (length ticks)"
    and "\<forall>t\<in>set ticks. \<not> sql_fault (fst t) 0 \<and> admits (fst t) r"
    and "serve D el Rt_Login rl w = ((200, R_UserToken u tok), w1)"
    and "no_faults (es 0)" and "go_now (es 0) < numeric_date (go_now (el 0) + day) * 10 ^ 9"
    and "rq_Authorization rs = ''Bearer '' @ tok"
  shows "\<exists>st w2. serve D es (Rt_Status s) rs (worker_run (dp_redis D) pick pick' ticks w1) = ((200, R_Status st), w2)
    \<and> Admitted st \<and> Position st = p
    \<and> opens_seats D s u (numeric_date (go_now (es 0) + AdmissionTTL (dp_cfg D)) * 10 ^ 9) (AdmissionToken st)"
proof -
  have w1: "w1 = w" by (rule login_keeps_world[OF assms(12)])
  obtain atok where a: "issue_admission D (es 0) u s (new_uuid (es 0) 0) = Inr atok"
    using issue_admission_ok[OF assms(2)] .
  obtain st where st: "fst (Status (dp_redis D) (issue_admission D (es 0)) (es 0) s u (worker_run (dp_redis D) pick pick' ticks w)) = Inr st"
      "Admitted st" "Position st = p" "AdmissionToken st = atok"
    using worker_admits[where issue = "issue_admission D (es 0)", OF assms(1,3,4,11,6,7) _ _ assms(10,13)] a assms(5,8,9) by metis
  then obtain w2 where "queueStatus D (es 0) s u (worker_run (dp_redis D) pick pick' ticks w1) = ((200, R_Status st), w2)"
    by (cases "Status (dp_redis D) (issue_admission D (es 0)) (es 0) s u (worker_run (dp_redis D) pick pick' ticks w)")
      (simp add: queueStatus_def w1)
  then have "serve D es (Rt_Status s) rs (worker_run (dp_redis D) pick pick' ticks w1) = ((200, R_Status st), w2)"
    using login_token_accepted[OF assms(2,12,14)] by (simp add: with_user_def assms(15) UserIDFromContext_def)
  with st(2-4) admission_opens_seats[OF jwt_signing.axioms(1)[OF assms(2)] a] show ?thesis by blast
qed

text \<open>A token that opens the small sale gets its first seat.\<close>

lemma demo_opens_seats:
  assumes "opens_seats demo_deps ''A'' ''u1'' until tok" and "70 < until"
  shows "fst (serve demo_deps (\<lambda>_. calm_env 70 ''h'') (Rt_Hold ''A'') (demo_request (''Admission '' @ tok) demo_seats_body) demo_world)
    = (200, R_Hold \<lparr>HoldID = ''h'', SeatIDs = [''s1''], ExpiresAt = 720000000070\<rparr>)"
proof -
  have "decode_hold demo_seats_body = (\<lparr>hr_SeatIDs = [''s1''], hr_IdempotencyKey = ''k''\<rparr>, True)"
    by (simp add: demo_seats_body_def del: list.map)
  moreover have "may_hold (calm_env 70 ''h'') ''A'' ''u1'' ''k'' (dbs demo_world)"
    "\<exists>x\<in>set (seats (dbs demo_world)). st_id x = ''s1'' \<and> st_sale_id x = ''A'' \<and> st_status x = Available"
    using demo_may_hold[of 70] by (simp_all add: demo_world_def) (simp add: demo_db_def demo_seat_def)
  ultimately show ?thesis
    using assms(1)[unfolded opens_seats_def, rule_format, where rq = "demo_request (''Admission '' @ tok) demo_seats_body"
        and e = "\<lambda>_. calm_env 70 ''h'' " and w = demo_world] assms(2)
    by (simp del: serve.simps)
qed

lemma waiting_leads_to_seats_witness:
  "\<exists>tok st w2. fst (serve demo_deps (\<lambda>_. calm_env 5 ''t'') Rt_Login (demo_request [] (demo_credentials ''u1@load.test'' [])) demo_joined)
      = (200, R_UserToken ''u1'' tok)
    \<and> serve demo_deps (\<lambda>_. calm_env 60 ''j'') (Rt_Status ''A'') (demo_request (''Bearer '' @ tok) None)
        (worker_run mem_redis (\<lambda>x. x) (\<lambda>x. x) [demo_tick] demo_joined) = ((200, R_Status st), w2) \<and> Admitted st
    \<and> fst (serve demo_deps (\<lambda>_. calm_env 70 ''h'') (Rt_Hold ''A'') (demo_request (''Admission '' @ AdmissionToken st) demo_seats_body) demo_world)
      = (200, R_Hold \<lparr>HoldID = ''h'', SeatIDs = [''s1''], ExpiresAt = 720000000070\<rparr>)"
proof -
  obtain tok where l: "serve demo_deps (\<lambda>_. calm_env 5 ''t'') Rt_Login (demo_request [] (demo_credentials ''u1@load.test'' [])) demo_joined
      = ((200, R_UserToken ''u1'' tok), demo_joined)"
    by (simp add: login_def demo_credentials_def query_row_def demo_joined_def demo_defs)
  have w: "windows_persist (redis demo_joined)" "0 \<le> next_admit (redis demo_joined) ''A''"
    "number_of ''A'' ''u1'' (dbs demo_joined) = Some 1"
    by (simp_all add: windows_persist_def persistent_def next_admit_def counter_def demo_joined_def number_of_def demo_row_def)
  have s: "sales (dbs demo_joined) = [demo_sale ''A'', demo_sale ''B'']"
    by (simp add: demo_joined_def demo_world_def demo_sales)
  have t: "60 < numeric_date (5 + day) * 10 ^ 9" "70 < numeric_date (60 + 60000000000) * 10 ^ 9"
    by (simp_all add: numeric_date_def)
  from waiting_leads_to_seats[where D = demo_deps and alpha = "\<lambda>m. m" and pick = "\<lambda>x. x" and pick' = "\<lambda>x. x"
      and w = demo_joined and s = "''A''" and u = "''u1''" and p = 1 and ticks = "[demo_tick]" and r = "demo_sale ''A''"
      and el = "\<lambda>_. calm_env 5 ''t''" and es = "\<lambda>_. calm_env 60 ''j''" and tok = tok and rs = "demo_request (''Bearer '' @ tok) None",
      OF _ _ _ w(1,2) _ _ _ w(3) _ _ l]
  obtain st w2 where "serve demo_deps (\<lambda>_. calm_env 60 ''j'') (Rt_Status ''A'') (demo_request (''Bearer '' @ tok) None)
        (worker_run mem_redis (\<lambda>x. x) (\<lambda>x. x) [demo_tick] demo_joined) = ((200, R_Status st), w2)" "Admitted st"
    and "opens_seats demo_deps ''A'' ''u1'' (numeric_date (60 + 60000000000) * 10 ^ 9) (AdmissionToken st)"
    using mem.redis_reliable_axioms tok.jwt_signing_axioms t(1) s by (simp del: serve.simps) blast
  moreover from this(3) demo_opens_seats t(2)
  have "fst (serve demo_deps (\<lambda>_. calm_env 70 ''h'') (Rt_Hold ''A'') (demo_request (''Admission '' @ AdmissionToken st) demo_seats_body) demo_world)
      = (200, R_Hold \<lparr>HoldID = ''h'', SeatIDs = [''s1''], ExpiresAt = 720000000070\<rparr>)" by blast
  ultimately show ?thesis using l by (intro exI[of _ tok] exI[of _ st] exI[of _ w2]) (simp del: serve.simps)
qed

end
