(* ===== verification/Checkout_Race.thy ===== *)
theory Checkout_Race
  imports System
begin

text \<open>
  The checkout handler of \<open>internal/httpapi/handlers.go\<close> taken apart at its calls: the admission is marked as
  used, the rate limiter is asked, and the order service is called. Any number of requests run at the same
  time, and the rest of the system goes on.
\<close>

section \<open>The steps\<close>

text \<open>A request behind the middleware: the sale of its path, and the user and identifier of its token.\<close>

record checkout_call =
  kc_env :: env
  kc_rq :: request
  kc_sale :: string
  kc_user :: string
  kc_jti :: string

datatype checkout_pc =
    K_Consume checkout_call | K_Limit checkout_call | K_Order checkout_call | K_Return checkout_call response

fun checkout_move :: "'r deps \<Rightarrow> checkout_pc \<Rightarrow> 'r world \<Rightarrow> checkout_pc \<times> 'r world" where
  "checkout_move D (K_Consume c) w =
     (case ConsumeAdmission (dp_redis D) (redis_now (kc_env c)) (kc_sale c) (kc_jti c) (AdmissionTTL (dp_cfg D) * 2) (redis w) of
        (res, rd) \<Rightarrow>
          (if res \<noteq> Inr True then K_Return c (403, R_Error ''admission_used'' used_message) else K_Limit c, w\<lparr>redis := rd\<rparr>))"
| "checkout_move D (K_Limit c) w =
     (case AllowCheckout (dp_redis D) (redis_now (kc_env c)) (kc_user c) (clientIP (kc_rq c)) (redis w) of
        (res, rd) \<Rightarrow>
          (if res \<noteq> Inr True then K_Return c (429, R_Error ''rate_limited'' ''checkout rate limit exceeded'') else K_Order c,
           w\<lparr>redis := rd\<rparr>))"
| "checkout_move D (K_Order c) w =
     (let req = fst (decode_checkout (rq_body (kc_rq c)));
          idem = (if kr_IdempotencyKey req = [] then ''default'' else kr_IdempotencyKey req)
      in case Checkout (kc_env c) (kc_sale c) (kc_user c) idem (kr_HoldID req) w of
           (Inl err, w') \<Rightarrow>
             (K_Return c (if err = ErrTicketCapReached then (403, R_Error ''cap_exceeded'' ''ticket purchase limit reached'')
                          else (400, R_ErrorOf ''bad_request'' err)), w')
         | (Inr res, w') \<Rightarrow> (K_Return c (200, R_Checkout res), w'))"
| "checkout_move D (K_Return c r) w = (K_Return c r, w)"

text \<open>The rest of the system does what it likes with everything but the marks of used admissions.\<close>

inductive checkout_step ::
  "('r \<Rightarrow> keyspace) \<Rightarrow> 'r deps \<Rightarrow> 'r world \<times> checkout_pc list \<Rightarrow> 'r world \<times> checkout_pc list \<Rightarrow> bool" for alpha D where
  checkout_moves: "k < length pcs \<Longrightarrow> checkout_move D (pcs ! k) w = (pc, w') \<Longrightarrow>
     checkout_step alpha D (w, pcs) (w', pcs[k := pc])"
| others_move: "(\<And>s j. alpha (redis w') (mark_key s j) = alpha (redis w) (mark_key s j)) \<Longrightarrow>
     checkout_step alpha D (w, pcs) (w', pcs)"

text \<open>Without anything in between the three steps are the handler.\<close>

lemma checkout_alone:
  assumes "checkout D (kc_env c) (kc_rq c) (kc_sale c) (kc_user c) (kc_jti c) w = (r, w')"
  shows "((\<lambda>(pc, w). checkout_move D pc w) ^^ 3) (K_Consume c, w) = (K_Return c r, w')"
  using assms
  by (auto simp: checkout_def eval_nat_numeral Let_def split: prod.splits sum.splits if_splits)

section \<open>The invariant\<close>

fun call_of :: "checkout_pc \<Rightarrow> checkout_call" where
  "call_of (K_Consume c) = c"
| "call_of (K_Limit c) = c"
| "call_of (K_Order c) = c"
| "call_of (K_Return c r) = c"

text \<open>A request whose admission was accepted.\<close>

fun passed :: "checkout_pc \<Rightarrow> bool" where
  "passed (K_Consume c) = False"
| "passed (K_Limit c) = True"
| "passed (K_Order c) = True"
| "passed (K_Return c r) \<longleftrightarrow> (case snd r of R_Error code msg \<Rightarrow> code \<noteq> ''admission_used'' | _ \<Rightarrow> True)"

definition passed_with :: "string \<Rightarrow> string \<Rightarrow> checkout_pc \<Rightarrow> bool" where
  "passed_with s j pc \<longleftrightarrow> passed pc \<and> kc_sale (call_of pc) = s \<and> kc_jti (call_of pc) = j"

definition in_window :: "'r deps \<Rightarrow> int \<Rightarrow> checkout_pc \<Rightarrow> bool" where
  "in_window D t pc \<longleftrightarrow> t \<le> redis_now (kc_env (call_of pc)) \<and> redis_now (kc_env (call_of pc)) < t + AdmissionTTL (dp_cfg D) * 2"

definition token_inv :: "('r \<Rightarrow> keyspace) \<Rightarrow> 'r deps \<Rightarrow> int \<Rightarrow> string \<Rightarrow> string \<Rightarrow> 'r world \<times> checkout_pc list \<Rightarrow> bool" where
  "token_inv alpha D t s j st \<longleftrightarrow> (\<forall>pc\<in>set (snd st). in_window D t pc)
     \<and> (filter (passed_with s j) (snd st) = []
        \<or> length (filter (passed_with s j) (snd st)) = 1
          \<and> (\<exists>v x. alpha (redis (fst st)) (mark_key s j) = Some (v, Some x) \<and> t + AdmissionTTL (dp_cfg D) * 2 \<le> x))"

lemma call_of_move: "checkout_move D pc w = (pc', w') \<Longrightarrow> call_of pc' = call_of pc"
  by (cases "(D, pc, w)" rule: checkout_move.cases) (auto simp: Let_def split: prod.splits sum.splits if_splits)

context redis_server begin

text \<open>Only the first step can make a request pass, and it does so only when the mark is not there.\<close>

lemma consume_step:
  assumes "R = dp_redis D" and "checkout_move D (K_Consume c) w = (pc, w')" and "0 < AdmissionTTL (dp_cfg D)"
  shows "passed pc \<longrightarrow> alpha (redis w') (mark_key (kc_sale c) (kc_jti c))
        = Some (1, Some (redis_now (kc_env c) + AdmissionTTL (dp_cfg D) * 2))
      \<and> live (redis_now (kc_env c)) (alpha (redis w)) (mark_key (kc_sale c) (kc_jti c)) = None"
    and "live (redis_now (kc_env c)) (alpha (redis w)) k \<noteq> None \<Longrightarrow> alpha (redis w') k = alpha (redis w) k"
proof -
  let ?k = "mark_key (kc_sale c) (kc_jti c)" and ?t = "redis_now (kc_env c)"
  obtain res rd where x: "r_setnx R ?t ?k 1 (AdmissionTTL (dp_cfg D) * 2) (redis w) = (res, rd)" by fastforce
  then have m: "pc = (if res \<noteq> Inr True then K_Return c (403, R_Error ''admission_used'' used_message) else K_Limit c)"
      "w' = w\<lparr>redis := rd\<rparr>"
    using assms(1,2) by (auto simp: ConsumeAdmission_def mark_key_def split: if_splits)
  have spec: "alpha rd = alpha (redis w) \<or> alpha rd = snd (spec_setnx ?t ?k 1 (AdmissionTTL (dp_cfg D) * 2) (alpha (redis w)))"
    using setnx_law[of ?t ?k 1 "AdmissionTTL (dp_cfg D) * 2" "redis w" _ rd] setnx_err[of ?t ?k 1 "AdmissionTTL (dp_cfg D) * 2" "redis w" _ rd] x
    by (cases res) (auto dest: arg_cong[of _ _ snd])
  show "passed pc \<longrightarrow> alpha (redis w') ?k = Some (1, Some (?t + AdmissionTTL (dp_cfg D) * 2)) \<and> live ?t (alpha (redis w)) ?k = None"
    using m setnx_law[of ?t ?k 1 "AdmissionTTL (dp_cfg D) * 2" "redis w" True rd] x assms(3)
    by (auto simp: spec_setnx_def split: option.splits) (metis fun_upd_same)
  show "alpha (redis w') k = alpha (redis w) k" if "live ?t (alpha (redis w)) k \<noteq> None" for k
    using spec that m(2) by (auto simp: spec_setnx_def split: option.splits)
qed

lemma later_steps:
  assumes "R = dp_redis D" and "checkout_move D pc w = (pc', w')" and "\<forall>c. pc \<noteq> K_Consume c"
  shows "alpha (redis w') (mark_key s j) = alpha (redis w) (mark_key s j) \<and> (passed pc' \<longrightarrow> passed pc)"
proof (cases pc)
  case (K_Limit c)
  obtain res rd where x: "AllowCheckout R (redis_now (kc_env c)) (kc_user c) (clientIP (kc_rq c)) (redis w) = (res, rd)" by fastforce
  show ?thesis using AllowCheckout_mark[OF x, of s j] assms(1,2) x K_Limit by auto
next
  case (K_Order c)
  let ?req = "fst (decode_checkout (rq_body (kc_rq c)))"
  let ?k = "if kr_IdempotencyKey ?req = [] then ''default'' else kr_IdempotencyKey ?req"
  obtain q w2 where y: "Checkout (kc_env c) (kc_sale c) (kc_user c) ?k (kr_HoldID ?req) w = (q, w2)" by fastforce
  then have "redis w2 = redis w" by (metis Checkout_redis snd_conv)
  moreover have "w' = w2" using assms(2) y K_Order by (auto simp: Let_def split: sum.splits)
  ultimately show ?thesis using K_Order by simp
qed (use assms(2,3) in auto)

end

lemma in_window_move: "checkout_move D pc w = (pc', w') \<Longrightarrow> in_window D' t pc' = in_window D' t pc"
  by (simp add: in_window_def call_of_move)

lemma token_step_inv:
  assumes R: "redis_server (dp_redis D) alpha" and ttl: "0 < AdmissionTTL (dp_cfg D)"
    and "checkout_step alpha D (w, pcs) (w', pcs')" and inv: "token_inv alpha D t s j (w, pcs)"
  shows "token_inv alpha D t s j (w', pcs')"
  using assms(3)
proof (cases rule: checkout_step.cases)
  case (checkout_moves k pc)
  let ?p = "passed_with s j" and ?m = "mark_key s j"
  have win: "\<forall>x\<in>set pcs'. in_window D t x"
    using inv checkout_moves in_window_move[OF checkout_moves(3), of D t]
    by (auto simp: token_inv_def dest: set_update_subset_insert[THEN subsetD])
  note f = filter_update[OF checkout_moves(2), of ?p pc, folded checkout_moves(1)]
  have same: "passed_with s j pc \<longrightarrow> passed_with s j (pcs ! k)" if "passed pc \<longrightarrow> passed (pcs ! k)"
    using that by (simp add: passed_with_def call_of_move[OF checkout_moves(3)])
  show ?thesis
  proof (cases "\<exists>c. pcs ! k = K_Consume c")
    case False
    note l = redis_server.later_steps[OF R refl checkout_moves(3)]
    have "alpha (redis w') ?m = alpha (redis w) ?m" "passed_with s j pc \<longrightarrow> passed_with s j (pcs ! k)"
      using l False same by blast+
    with inv f win show ?thesis by (auto simp: token_inv_def split: if_splits)
  next
    case True
    then obtain c where c: "pcs ! k = K_Consume c" ..
    note s1 = redis_server.consume_step[OF R refl checkout_moves(3)[unfolded c] ttl]
    have call: "call_of pc = c" using call_of_move[OF checkout_moves(3)] c by simp
    have "in_window D t (K_Consume c)" using inv checkout_moves(2) c by (metis nth_mem snd_conv token_inv_def)
    then have t: "t \<le> redis_now (kc_env c)" "redis_now (kc_env c) < t + AdmissionTTL (dp_cfg D) * 2"
      by (simp_all add: in_window_def)
    have p0: "\<not> passed_with s j (pcs ! k)" by (simp add: c passed_with_def)
    show ?thesis
    proof (cases "filter ?p pcs = []")
      case True
      then have "length (filter ?p pcs') = (if ?p pc then 1 else 0)" using f p0 by simp
      moreover have "\<exists>v x. alpha (redis w') ?m = Some (v, Some x) \<and> t + AdmissionTTL (dp_cfg D) * 2 \<le> x" if "?p pc"
        using s1(1) that call t by (simp add: passed_with_def)
      ultimately show ?thesis using win by (simp add: token_inv_def split: if_splits)
    next
      case False
      then obtain v x where m: "alpha (redis w) ?m = Some (v, Some x)" "t + AdmissionTTL (dp_cfg D) * 2 \<le> x"
        and one: "length (filter ?p pcs) = 1" using inv by (auto simp: token_inv_def)
      then have "live (redis_now (kc_env c)) (alpha (redis w)) ?m \<noteq> None" using t by (simp add: live_def)
      then have "alpha (redis w') ?m = Some (v, Some x)" "\<not> ?p pc"
        using s1(1) s1(2)[of ?m] m(1) call by (auto simp: passed_with_def)
      with one f p0 m(2) win show ?thesis by (simp add: token_inv_def)
    qed
  qed
next
  case others_move
  then show ?thesis using inv by (simp add: token_inv_def)
qed

lemma token_steps_inv:
  assumes "redis_server (dp_redis D) alpha" and "0 < AdmissionTTL (dp_cfg D)"
    and "(checkout_step alpha D)\<^sup>*\<^sup>* (w, pcs) (w', pcs')" and "token_inv alpha D t s j (w, pcs)"
  shows "token_inv alpha D t s j (w', pcs')"
  using assms(3,4)
  by (induction rule: rtranclp_induct2) (use token_step_inv[OF assms(1,2)] in blast)+

section \<open>The property\<close>


definition a_checkout :: "int \<Rightarrow> string \<Rightarrow> checkout_call" where
  "a_checkout t i = \<lparr>kc_env = calm_env t i, kc_rq = demo_request [] None, kc_sale = ''A'', kc_user = ''u1'', kc_jti = ''j''\<rparr>"


end
