(* ===== verification/Stock_Race.thy ===== *)
theory Stock_Race
  imports Stock
begin

text \<open>
  \<open>Hold\<close> and \<open>ReleaseExpired\<close> of \<open>internal/inventory/service.go\<close> taken apart at the points where other
  connections get in between: the two queries of \<open>Hold\<close> run before its transaction, and
  \<open>ReleaseExpired\<close> reads its list once and then runs one transaction for each hold of the list. A
  transaction is one step: its statements write rows that they have locked, and a guarded \<open>UPDATE\<close> looks
  at a row again after it got the lock.
\<close>

section \<open>The steps\<close>

record hold_call =
  hc_cfg :: config
  hc_env :: env
  hc_sale :: string
  hc_user :: string
  hc_key :: string
  hc_seats :: "string list"

datatype stock_pc =
    H_Find hold_call | H_Count hold_call | H_Tx hold_call | H_Return "HoldResult result"
  | R_Select "hold_row list \<Rightarrow> hold_row list" env | R_Loop env nat "hold_row list" int
  | R_Return "int \<times> error option"

definition hold_find :: "hold_call \<Rightarrow> db \<Rightarrow> stock_pc" where
  "hold_find c d =
     (if length (hc_seats c) = 0 \<or> length (hc_seats c) > 4 then H_Return (Inl (ErrMsg ''invalid seat count''))
      else case query_row (sql_fault (hc_env c) 0)
             (\<lambda>h. h_sale_id h = hc_sale c \<and> h_user_id h = hc_user c \<and> h_idempotency_key h = hc_key c) (holds d) of
        Inr h \<Rightarrow>
          if h_expires_at h < go_now (hc_env c) then H_Return (Inl ErrHoldExpired)
          else H_Return (Inr \<lparr>HoldID = h_id h, SeatIDs = scan_or [] (unmarshal_ids (h_seat_ids h)),
                              ExpiresAt = h_expires_at h\<rparr>)
      | Inl err \<Rightarrow> if err \<noteq> NoRows then H_Return (Inl err) else H_Count c)"

definition hold_count :: "hold_call \<Rightarrow> db \<Rightarrow> stock_pc" where
  "hold_count c d =
     (let active = scan_or 0 (query_count (sql_fault (hc_env c) 1) (\<lambda>h. h_sale_id h = hc_sale c
              \<and> h_user_id h = hc_user c \<and> sql_now (hc_env c) < h_expires_at h) (holds d))
      in if active > 0 then H_Return (Inl (ErrMsg ''active hold already exists'')) else H_Tx c)"

fun stock_move :: "stock_pc \<Rightarrow> db \<Rightarrow> stock_pc \<times> db" where
  "stock_move (H_Find c) d = (hold_find c d, d)"
| "stock_move (H_Count c) d = (hold_count c d, d)"
| "stock_move (H_Tx c) d =
     (case hold_tx (hc_cfg c) (hc_env c) (hc_sale c) (hc_user c) (hc_key c) (hc_seats c) d of
        (r, d') \<Rightarrow> (H_Return r, d'))"
| "stock_move (H_Return r) d = (H_Return r, d)"
| "stock_move (R_Select pick e) d =
     (case query_rows (sql_fault e 0) (\<lambda>h. h_expires_at h < sql_now e) (holds d) of
        Inl err \<Rightarrow> (R_Return (0, Some err), d)
      | Inr rows \<Rightarrow> (R_Loop e 1 (take 100 (pick rows)) 0, d))"
| "stock_move (R_Loop e k [] released) d = (R_Return (released, None), d)"
| "stock_move (R_Loop e k (h # hs) released) d =
     (if sql_fault e k then (R_Return (released, Some SqlFault), d)
      else if sql_fault e (k + 1) then (R_Return (released, Some SqlFault), d)
      else case release_hold e (k + 2) h d of
        (ok, d') \<Rightarrow> (R_Loop e (k + 4 + length (scan_or [] (unmarshal_ids (h_seat_ids h)))) hs
                      (if ok then released + 1 else released), d'))"
| "stock_move (R_Return r) d = (R_Return r, d)"

inductive stock_step :: "db \<times> stock_pc list \<Rightarrow> db \<times> stock_pc list \<Rightarrow> bool" where
  "k < length pcs \<Longrightarrow> stock_move (pcs ! k) d = (pc, d') \<Longrightarrow> stock_step (d, pcs) (d', pcs[k := pc])"

inductive_cases stock_stepE: "stock_step (d, pcs) (d', pcs')"

section \<open>A call that runs alone\<close>

fun moves :: "nat \<Rightarrow> stock_pc \<times> db \<Rightarrow> stock_pc \<times> db" where
  "moves 0 st = st"
| "moves (Suc n) st = moves n (stock_move (fst st) (snd st))"

lemma moves_returned [simp]: "moves n (H_Return r, d) = (H_Return r, d)" "moves n (R_Return x, d) = (R_Return x, d)"
  by (induction n) simp_all

lemma hold_alone:
  "moves 3 (H_Find c, d) =
     (case Hold (hc_cfg c) (hc_env c) (hc_sale c) (hc_user c) (hc_key c) (hc_seats c) d of (r, d') \<Rightarrow> (H_Return r, d'))"
  by (auto simp: numeral_3_eq_3 Hold_def hold_find_def hold_count_def Let_def split: sum.splits)

lemma release_loop_alone:
  "moves (Suc (length hs)) (R_Loop e k hs released, d) = (case release_loop e k hs released d of (r, d') \<Rightarrow> (R_Return r, d'))"
  by (induction hs arbitrary: k released d) (auto split: prod.splits)

lemma release_alone:
  "\<exists>n. moves n (R_Select pick e, d) = (case ReleaseExpired pick e d of (r, d') \<Rightarrow> (R_Return r, d'))"
proof (cases "query_rows (sql_fault e 0) (\<lambda>h. h_expires_at h < sql_now e) (holds d)")
  case (Inl err)
  then have "moves 1 (R_Select pick e, d) = (case ReleaseExpired pick e d of (r, d') \<Rightarrow> (R_Return r, d'))"
    by (simp add: ReleaseExpired_def)
  then show ?thesis by blast
next
  case (Inr rows)
  then have "moves (Suc (Suc (length (take 100 (pick rows))))) (R_Select pick e, d)
      = (case ReleaseExpired pick e d of (r, d') \<Rightarrow> (R_Return r, d'))"
    using release_loop_alone[of "take 100 (pick rows)" e 1 0 d] by (simp add: ReleaseExpired_def)
  then show ?thesis by blast
qed

section \<open>One worker\<close>

fun releasing :: "stock_pc \<Rightarrow> bool" where
  "releasing (R_Select pick e) = True"
| "releasing (R_Loop e k hs released) = True"
| "releasing _ = False"

text \<open>What a worker still has on its list is a hold of the table.\<close>

fun list_ok :: "db \<Rightarrow> stock_pc \<Rightarrow> bool" where
  "list_ok d (R_Select pick e) \<longleftrightarrow> delivers pick"
| "list_ok d (R_Loop e k hs released) \<longleftrightarrow> set hs \<subseteq> set (holds d) \<and> distinct (map h_id hs)"
| "list_ok d _ \<longleftrightarrow> True"

definition one_worker :: "stock_pc list \<Rightarrow> bool" where
  "one_worker pcs \<longleftrightarrow> length (filter releasing pcs) \<le> 1"

definition race_inv :: "db \<times> stock_pc list \<Rightarrow> bool" where
  "race_inv st \<longleftrightarrow> stock_inv (fst st) \<and> one_worker (snd st) \<and> (\<forall>pc\<in>set (snd st). list_ok (fst st) pc)"

lemma not_releasing_ok: "\<not> releasing pc \<Longrightarrow> list_ok d pc"
  by (cases pc) simp_all

lemma list_ok_mono: "set (holds d) \<subseteq> set (holds d') \<Longrightarrow> list_ok d pc \<Longrightarrow> list_ok d' pc"
  by (cases pc) auto

text \<open>A step of \<open>Hold\<close> never removes a hold.\<close>

lemma hold_move:
  assumes "stock_move pc d = (pc', d')" and "\<not> releasing pc" and "stock_inv d"
  shows "stock_inv d' \<and> set (holds d) \<subseteq> set (holds d') \<and> \<not> releasing pc'"
  using assms
proof (cases pc)
  case (H_Tx c)
  obtain r where t: "hold_tx (hc_cfg c) (hc_env c) (hc_sale c) (hc_user c) (hc_key c) (hc_seats c) d = (r, d')"
    and pc': "pc' = H_Return r"
    using assms(1) H_Tx by (auto split: prod.splits)
  show ?thesis
  proof (cases r)
    case (Inl er)
    then show ?thesis using t pc' hold_tx_error assms(3) by fastforce
  next
    case (Inr res)
    then show ?thesis using t pc' hold_tx_ok(1) hold_tx_stock[OF _ assms(3)] by fastforce
  qed
qed (auto simp: hold_find_def hold_count_def Let_def split: if_splits sum.splits)

text \<open>A step of the worker releases the first hold of its list or leaves the table.\<close>

lemma release_move:
  assumes "stock_move pc d = (pc', d')" and "releasing pc" and "stock_inv d" and "list_ok d pc"
  shows "stock_inv d' \<and> list_ok d' pc'"
proof (cases pc)
  case (R_Select pick e)
  have ids: "distinct (map h_id (holds d))" using assms(3) by (simp add: stock_inv_def)
  show ?thesis
    using assms R_Select delivered_batch[of pick, OF _ ids, of 100 "\<lambda>h. h_expires_at h < sql_now e"]
    by (auto simp: query_rows_def split: if_splits)
next
  case (R_Loop e k hs released)
  show ?thesis
  proof (cases hs)
    case (Cons h rest)
    obtain b d1 where x: "release_hold e (k + 2) h d = (b, d1)" by fastforce
    have d1: "d1 = (if b then freed h d else d)" by (rule release_hold_cases[OF x])
    have "stock_inv d1 \<and> set rest \<subseteq> set (holds d1) \<and> distinct (map h_id rest)"
      using assms(3,4) R_Loop Cons freed_stock[of d h] others_kept[of h rest d] by (simp add: d1)
    then show ?thesis using assms(1,3) R_Loop Cons x by (auto split: if_splits)
  qed (use assms R_Loop in auto)
qed (use assms in auto)

lemma alone_releasing:
  assumes "one_worker pcs" and "k < length pcs" and "releasing (pcs ! k)" and "pc \<in> set (pcs[k := x])"
  shows "pc = x \<or> \<not> releasing pc"
proof (rule ccontr)
  assume "\<not> (pc = x \<or> \<not> releasing pc)"
  then have n: "pc \<noteq> x" "releasing pc" by auto
  obtain j where j: "j < length pcs" "(pcs[k := x]) ! j = pc" using assms(4) by (auto simp: in_set_conv_nth)
  have jk: "j \<noteq> k" "pcs ! j = pc" using j n(1) assms(2) by (metis nth_list_update_eq, metis j n(1) nth_list_update nth_list_update_eq)
  have "{j, k} \<subseteq> {i. i < length pcs \<and> releasing (pcs ! i)}" using j jk assms(2,3) n(2) by auto
  then have "card {j, k} \<le> card {i. i < length pcs \<and> releasing (pcs ! i)}" by (rule card_mono[rotated]) simp
  with jk(1) assms(1) show False by (simp add: one_worker_def length_filter_conv_card)
qed

lemma stock_step_inv:
  assumes "stock_step st st'" and "race_inv st"
  shows "race_inv st'"
  using assms(1)
proof cases
  case (1 k pcs d pc d')
  have inv: "stock_inv d" "one_worker pcs" "\<forall>pc\<in>set pcs. list_ok d pc" using assms(2) 1 by (simp_all add: race_inv_def)
  have u: "length (filter releasing (pcs[k := pc])) + (if releasing (pcs ! k) then 1 else 0)
      = length (filter releasing pcs) + (if releasing pc then 1 else 0)"
    by (rule filter_update[OF 1(3)])
  show ?thesis
  proof (cases "releasing (pcs ! k)")
    case True
    note m = release_move[OF 1(4) True inv(1)]
    have "list_ok d' q" if "q \<in> set (pcs[k := pc])" for q
      using alone_releasing[OF inv(2) 1(3) True that] m inv(3) 1(3) not_releasing_ok by auto
    then show ?thesis using 1(2) m inv(2,3) u True 1(3) by (auto simp: race_inv_def one_worker_def split: if_splits)
  next
    case False
    note m = hold_move[OF 1(4) False inv(1)]
    have "list_ok d' q" if "q \<in> set (pcs[k := pc])" for q
    proof -
      from that set_update_subset_insert[of pcs k pc] have "q = pc \<or> q \<in> set pcs" by blast
      then show ?thesis using m inv(3) not_releasing_ok list_ok_mono by blast
    qed
    then show ?thesis using 1(2) m inv(2) u False by (simp add: race_inv_def one_worker_def)
  qed
qed

lemma stock_steps_inv: "stock_step\<^sup>*\<^sup>* st st' \<Longrightarrow> race_inv st \<Longrightarrow> race_inv st'"
  by (induction rule: rtranclp_induct) (auto intro: stock_step_inv)

section \<open>Schedules\<close>

text \<open>The run in which the processes move in a given order.\<close>

fun schedule :: "nat list \<Rightarrow> db \<times> stock_pc list \<Rightarrow> db \<times> stock_pc list" where
  "schedule [] st = st"
| "schedule (k # ks) st =
     (case stock_move (snd st ! k) (fst st) of (pc, d') \<Rightarrow> schedule ks (d', (snd st)[k := pc]))"

lemma schedule_runs: "\<forall>k\<in>set ks. k < length (snd st) \<Longrightarrow> stock_step\<^sup>*\<^sup>* st (schedule ks st)"
proof (induction ks arbitrary: st)
  case (Cons k ks)
  obtain d pcs where st: "st = (d, pcs)" by fastforce
  obtain pc d' where m: "stock_move (pcs ! k) d = (pc, d')" by fastforce
  have "stock_step st (d', pcs[k := pc])" using Cons.prems m st by (auto intro: stock_step.intros)
  moreover have "stock_step\<^sup>*\<^sup>* (d', pcs[k := pc]) (schedule ks (d', pcs[k := pc]))"
    using Cons.prems st by (intro Cons.IH) simp
  ultimately show ?case using m st by (simp add: converse_rtranclp_into_rtranclp)
qed simp

definition starting :: "stock_pc list \<Rightarrow> bool" where
  "starting pcs \<longleftrightarrow> (\<forall>pc\<in>set pcs. (\<exists>c. pc = H_Find c) \<or> (\<exists>pick e. pc = R_Select pick e \<and> delivers pick))"

lemma starting_ok: "starting pcs \<Longrightarrow> pc \<in> set pcs \<Longrightarrow> list_ok d pc"
  by (auto simp: starting_def)

definition a_call :: "int \<Rightarrow> string \<Rightarrow> string \<Rightarrow> string \<Rightarrow> string \<Rightarrow> hold_call" where
  "a_call t i u k s = \<lparr>hc_cfg = demo_config, hc_env = calm_env t i, hc_sale = ''A'', hc_user = u,
     hc_key = k, hc_seats = [s]\<rparr>"

lemma new_hold_user [simp]: "h_user_id (new_hold cfg e s u idem ids) = u"
    "h_expires_at (new_hold cfg e s u idem ids) = go_now e + HoldTTL cfg"
  by (simp_all add: new_hold_def)

section \<open>Properties\<close>

text \<open>
  C3. \<^bold>\<open>No double booking under concurrency.\<close> Any number of hold requests runs at the same time, and one
  worker releases expired holds; their queries and transactions interleave in any order and may fail.
  In every state they reach, a seat that a hold names is in the state held, is named by no other hold
  and is on no ticket.
\<close>

theorem race_no_double_booking:
  assumes "stock_step\<^sup>*\<^sup>* (d, pcs) (d', pcs')" and "stock_inv d" and "starting pcs" and "one_worker pcs"
    and "h \<in> set (holds d')" and "i \<in> set (hold_ids h)"
  shows "(\<exists>r. seat_at d' i = Some r \<and> st_sale_id r = h_sale_id h \<and> st_status r = Held)
    \<and> (\<forall>h'\<in>set (holds d'). i \<in> set (hold_ids h') \<longrightarrow> h' = h) \<and> i \<notin> t_seat_id ` set (tickets d')"
proof -
  have "race_inv (d, pcs)" using assms(2-4) starting_ok by (simp add: race_inv_def)
  with stock_steps_inv[OF assms(1)] have inv: "stock_inv d'" by (simp add: race_inv_def)
  show ?thesis using hold_seat[OF inv assms(5,6)] stock_inv_exclusive[OF inv assms(5,6)] by blast
qed

definition demo_race :: "stock_pc list" where
  "demo_race = [H_Find (a_call 5 ''h'' ''u1'' ''k'' ''s1''), H_Find (a_call 6 ''i'' ''u2'' ''k'' ''s1''),
     R_Select (\<lambda>x. x) (calm_env 7 ''w'')]"

lemmas race_eval = a_call_def hold_find_def hold_count_def hold_tx_def query_row_def query_rows_def query_count_def
  tx_exec_def tx_commit_def begin_tx_def update_seats_def update_where_def rows_affected_def insert_hold_def delete_hold_def
  new_hold_def Let_def unmarshal_ids_def release_hold_def set_status_def hold_done_def takeable_def

text \<open>Two users ask for one seat at the same time: both pass the queries, one of them gets it.\<close>

lemma demo_race_run:
  "holds (fst (schedule [0, 1, 0, 1, 2, 1, 0, 2] (demo_db, demo_race)))
     = [new_hold demo_config (calm_env 6 ''i'') ''A'' ''u2'' ''k'' [''s1'']]"
  by (simp add: race_eval demo_defs demo_race_def eval_nat_numeral)

theorem race_no_double_booking_witness:
  "\<exists>r. seat_at (fst (schedule [0, 1, 0, 1, 2, 1, 0, 2] (demo_db, demo_race))) ''s1'' = Some r \<and> st_status r = Held"
proof -
  have s: "stock_step\<^sup>*\<^sup>* (demo_db, demo_race) (fst (schedule [0, 1, 0, 1, 2, 1, 0, 2] (demo_db, demo_race)),
      snd (schedule [0, 1, 0, 1, 2, 1, 0, 2] (demo_db, demo_race)))"
    using schedule_runs[of "[0, 1, 0, 1, 2, 1, 0, 2]" "(demo_db, demo_race)"] by (simp add: demo_race_def)
  have "starting demo_race" by (simp add: starting_def demo_race_def delivers_def)
  moreover have "one_worker demo_race" by (simp add: one_worker_def demo_race_def)
  ultimately show ?thesis
    using race_no_double_booking[OF s demo_stock, of "new_hold demo_config (calm_env 6 ''i'') ''A'' ''u2'' ''k'' [''s1'']" "''s1''"]
    by (auto simp: demo_race_run simp del: schedule.simps One_nat_def)
qed

text \<open>
  C15. \<^bold>\<open>Two workers can book a seat twice.\<close> With a second worker the same does not hold: both read that a
  hold has expired, one releases it, a user takes the seat, and the other worker, whose list is old,
  makes the seat available although the new hold names it; the next user gets it too, and both are told
  that they hold it.
\<close>

theorem two_workers_double_book:
  "\<exists>d pcs h h'. stock_step\<^sup>*\<^sup>* (demo_held, [R_Select (\<lambda>x. x) (calm_env (10 ^ 12) ''v''), R_Select (\<lambda>x. x) (calm_env (10 ^ 12) ''w''),
        H_Find (a_call (10 ^ 12) ''i'' ''u2'' ''l'' ''s1''), H_Find (a_call (10 ^ 12) ''j'' ''u1'' ''l'' ''s1'')]) (d, pcs)
    \<and> h \<in> set (holds d) \<and> h' \<in> set (holds d) \<and> h_user_id h \<noteq> h_user_id h' \<and> ''s1'' \<in> set (hold_ids h) \<and> ''s1'' \<in> set (hold_ids h')
    \<and> 10 ^ 12 < h_expires_at h \<and> 10 ^ 12 < h_expires_at h'
    \<and> is_ok (case pcs ! 2 of H_Return r \<Rightarrow> r | _ \<Rightarrow> Inl NoRows) \<and> is_ok (case pcs ! 3 of H_Return r \<Rightarrow> r | _ \<Rightarrow> Inl NoRows)"
proof -
  let ?pcs = "[R_Select (\<lambda>x. x) (calm_env (10 ^ 12) ''v''), R_Select (\<lambda>x. x) (calm_env (10 ^ 12) ''w''),
    H_Find (a_call (10 ^ 12) ''i'' ''u2'' ''l'' ''s1''), H_Find (a_call (10 ^ 12) ''j'' ''u1'' ''l'' ''s1'')]"
  let ?st = "schedule [0, 1, 1, 1, 2, 2, 2, 0, 3, 3, 3] (demo_held, ?pcs)"
  let ?hold = "\<lambda>i u. new_hold demo_config (calm_env (10 ^ 12) i) ''A'' u ''l'' [''s1'']"
  have "stock_step\<^sup>*\<^sup>* (demo_held, ?pcs) (fst ?st, snd ?st)"
    using schedule_runs[of "[0, 1, 1, 1, 2, 2, 2, 0, 3, 3, 3]" "(demo_held, ?pcs)"] by (simp del: schedule.simps)
  moreover have "holds (fst ?st) = [?hold ''i'' ''u2'', ?hold ''j'' ''u1'']"
    by (simp add: race_eval demo_defs demo_held_def eval_nat_numeral)
  moreover have "is_ok (case snd ?st ! 2 of H_Return r \<Rightarrow> r | _ \<Rightarrow> Inl NoRows)"
    by (simp add: race_eval demo_defs demo_held_def eval_nat_numeral)
  moreover have "is_ok (case snd ?st ! 3 of H_Return r \<Rightarrow> r | _ \<Rightarrow> Inl NoRows)"
    by (simp add: race_eval demo_defs demo_held_def eval_nat_numeral)
  ultimately show ?thesis
    by (intro exI[of _ "fst ?st"] exI[of _ "snd ?st"] exI[of _ "?hold ''i'' ''u2''"] exI[of _ "?hold ''j'' ''u1''"])
      (simp del: schedule.simps)
qed

text \<open>
  C27. \<^bold>\<open>Two holds of one user.\<close> The limit of one active hold per user and sale is checked before the
  transaction: two requests of a user with different keys that run at the same time both succeed.
\<close>

theorem two_holds_of_one_user:
  "\<exists>d pcs h h'. stock_step\<^sup>*\<^sup>* (demo_db, [H_Find (a_call 5 ''i'' ''u1'' ''k'' ''s1''), H_Find (a_call 6 ''j'' ''u1'' ''l'' ''s2'')]) (d, pcs)
    \<and> holds d = [h, h'] \<and> h_user_id h = ''u1'' \<and> h_user_id h' = ''u1'' \<and> h_sale_id h = h_sale_id h'
    \<and> 6 < h_expires_at h \<and> 6 < h_expires_at h' \<and> hold_ids h = [''s1''] \<and> hold_ids h' = [''s2'']"
proof -
  let ?pcs = "[H_Find (a_call 5 ''i'' ''u1'' ''k'' ''s1''), H_Find (a_call 6 ''j'' ''u1'' ''l'' ''s2'')]"
  let ?st = "schedule [0, 1, 0, 1, 0, 1] (demo_db, ?pcs)"
  have "stock_step\<^sup>*\<^sup>* (demo_db, ?pcs) (fst ?st, snd ?st)"
    using schedule_runs[of "[0, 1, 0, 1, 0, 1]" "(demo_db, ?pcs)"] by (simp del: schedule.simps)
  moreover have "holds (fst ?st) = [new_hold demo_config (calm_env 5 ''i'') ''A'' ''u1'' ''k'' [''s1''],
      new_hold demo_config (calm_env 6 ''j'') ''A'' ''u1'' ''l'' [''s2'']]"
    by (simp add: race_eval demo_defs eval_nat_numeral)
  ultimately show ?thesis by (fastforce simp del: schedule.simps)
qed

end
