(* ===== verification/Run_Steps.thy ===== *)
theory Run_Steps
  imports Loadqueue
begin

text \<open>
  One round of the runner (\<open>cmd/loadtest-runner/main.go\<close>) in the steps between which the API reads and writes
  the two directories, and the runner's process can die: the list, the check for a running run, the
  marker, \<open>k6\<close>, the reading of its summary, the result, and the removal of the job. Each step has its own
  clock. What the API does meanwhile is to make the directories and to write jobs.
\<close>

section \<open>The steps\<close>

datatype runner_pc =
    W_Idle | W_Busy "job list" | W_Mark job | W_Start job | W_Conclude job "string \<times> string option"
  | W_Store job run_result bool | W_Remove job

text \<open>What \<open>runJob\<close> makes of the summary: the result, and whether the job is removed afterwards.\<close>

definition read_summary :: "runner \<Rightarrow> fs_env \<Rightarrow> job \<Rightarrow> string \<times> string option \<Rightarrow> files \<Rightarrow> run_result \<times> bool" where
  "read_summary rn e j oe fs =
     (case oe of (out, err) \<Rightarrow>
      case ReadFile e Results (json_name (jb_RunID j)) fs of
        Inl _ \<Rightarrow> (missing_summary e j out err, True)
      | Inr raw \<Rightarrow>
          (case ParseK6Report (jb_RunID j) raw of
             Inl parseErr \<Rightarrow>
               (case decode_generic raw of
                  Some generic \<Rightarrow> (raw_summary e j generic err, False)
                | None \<Rightarrow> (bad_summary e rn j parseErr, False))
           | Inr res \<Rightarrow> (evaluated j err res, True)))"

fun run_move :: "k6_process \<Rightarrow> runner \<Rightarrow> fs_env \<Rightarrow> runner_pc \<Rightarrow> files \<Rightarrow> runner_pc \<times> files" where
  "run_move k6 rn e W_Idle fs =
     (case ListPendingJobs e fs of (Inl _, fs1) \<Rightarrow> (W_Idle, fs1) | (Inr jobs, fs1) \<Rightarrow> (W_Busy jobs, fs1))"
| "run_move k6 rn e (W_Busy jobs) fs =
     (case HasRunning e fs of
        (Inl _, fs1) \<Rightarrow> (W_Idle, fs1)
      | (Inr busy, fs1) \<Rightarrow> (if busy then W_Idle else case jobs of [] \<Rightarrow> W_Idle | j # _ \<Rightarrow> W_Mark j, fs1))"
| "run_move k6 rn e (W_Mark j) fs =
     (case WriteRunning e (jb_RunID j) fs of (Inl _, fs1) \<Rightarrow> (W_Idle, fs1) | (Inr _, fs1) \<Rightarrow> (W_Start j, fs1))"
| "run_move k6 rn e (W_Start j) fs =
     (if \<not> rn_script_exists rn (script_path rn j) then (W_Store j (missing_script e rn j) True, fs)
      else case k6 (k6_env rn j) (script_path rn j) fs of (oe, fs1) \<Rightarrow> (W_Conclude j oe, fs1))"
| "run_move k6 rn e (W_Conclude j oe) fs =
     (case read_summary rn e j oe fs of (r, remove) \<Rightarrow> (W_Store j r remove, fs))"
| "run_move k6 rn e (W_Store j r remove) fs =
     (case WriteResult e r fs of
        (Inl _, fs1) \<Rightarrow> (W_Idle, fs1) | (Inr _, fs1) \<Rightarrow> (if remove then W_Remove j else W_Idle, fs1))"
| "run_move k6 rn e (W_Remove j) fs = (W_Idle, Remove e Jobs (json_name (jb_RunID j)) fs)"

text \<open>The rest of a round, without anything in between, is the rest of the tick.\<close>

fun to_idle :: "k6_process \<Rightarrow> runner \<Rightarrow> fs_env \<Rightarrow> nat \<Rightarrow> runner_pc \<times> files \<Rightarrow> runner_pc \<times> files" where
  "to_idle k6 rn e 0 st = st"
| "to_idle k6 rn e (Suc n) st = (if fst st = W_Idle then st else to_idle k6 rn e n (run_move k6 rn e (fst st) (snd st)))"

lemma to_idle_W_Idle [simp]: "to_idle k6 rn e n (W_Idle, fs) = (W_Idle, fs)"
  by (cases n) simp_all

lemma store_alone:
  "to_idle k6 rn e (Suc (Suc n)) (W_Store j r remove, fs)
     = (W_Idle, snd (if remove then finish e (jb_RunID j) (WriteResult e r fs) else WriteResult e r fs))"
  by (cases n) (auto simp: finish_def split: prod.splits sum.splits)

lemma conclude_alone: "to_idle k6 rn e 3 (W_Conclude j oe, fs) = (W_Idle, snd (conclude rn e j oe fs))"
proof -
  obtain r rm where s: "read_summary rn e j oe fs = (r, rm)" by fastforce
  then have "snd (conclude rn e j oe fs)
      = snd (if rm then finish e (jb_RunID j) (WriteResult e r fs) else WriteResult e r fs)"
    by (auto simp: read_summary_def conclude_def split: prod.splits sum.splits option.splits)
  then show ?thesis using s store_alone[of k6 rn e 0] by (simp add: eval_nat_numeral)
qed

lemma tick_alone:
  "runner_tick k6 rn (e1, e2) fs =
     (case to_idle k6 rn e1 3 (run_move k6 rn e1 W_Idle fs) of (pc, fs1) \<Rightarrow>
        snd (to_idle k6 rn (case pc of W_Conclude _ _ \<Rightarrow> e2 | _ \<Rightarrow> e1) 3 (pc, fs1)))"
proof -
  have n: "(3::nat) = Suc (Suc (Suc 0))" by simp
  show ?thesis
  proof (cases "ListPendingJobs e1 fs")
    case (Pair r fs1)
    show ?thesis
    proof (cases r)
      case (Inl x)
      with Pair show ?thesis by (simp add: runner_tick_def)
    next
      case r: (Inr jobs)
      obtain b fs2 where h: "HasRunning e1 fs1 = (b, fs2)" by fastforce
      show ?thesis
      proof (cases "\<exists>j js. b = Inr False \<and> jobs = j # js")
        case False
        with Pair r h show ?thesis
          by (auto simp: runner_tick_def n split: sum.splits list.splits bool.splits)
      next
        case True
        then obtain j js where j: "b = Inr False" "jobs = j # js" by blast
        obtain x fs3 where w: "WriteRunning e1 (jb_RunID j) fs2 = (x, fs3)" by fastforce
        have t: "runner_tick k6 rn (e1, e2) fs = snd (runJob k6 rn (e1, e2) j fs2)"
          using Pair r h j by (simp add: runner_tick_def)
        have m: "run_move k6 rn e1 W_Idle fs = (W_Busy (j # js), fs1)" using Pair r j by simp
        show ?thesis
        proof (cases x)
          case (Inl y)
          with t m h j w show ?thesis by (simp add: n runJob_def)
        next
          case x: (Inr y)
          show ?thesis
          proof (cases "rn_script_exists rn (script_path rn j)")
            case True
            obtain oe fs4 where k: "k6 (k6_env rn j) (script_path rn j) fs3 = (oe, fs4)" by fastforce
            have "to_idle k6 rn e1 3 (W_Busy (j # js), fs1) = (W_Conclude j oe, fs4)"
              using h j w x True k by (simp add: n)
            with t m w x True k conclude_alone[of k6 rn e2 j oe fs4] show ?thesis by (simp add: runJob_def)
          next
            case False
            have "to_idle k6 rn e1 3 (W_Busy (j # js), fs1) = (W_Store j (missing_script e1 rn j) True, fs3)"
              using h j w x False by (simp add: n)
            with t m w x False store_alone[of k6 rn e1 1 j "missing_script e1 rn j" True fs3]
            show ?thesis by (simp add: runJob_def n)
          qed
        qed
      qed
    qed
  qed
qed

text \<open>
  The runner and the API together; the third component lists the runs for which \<open>k6\<close> was started, newest
  last.
\<close>

type_synonym run_state = "files \<times> runner_pc \<times> string list"

definition started_by :: "runner \<Rightarrow> runner_pc \<Rightarrow> string list" where
  "started_by rn pc = (case pc of W_Start j \<Rightarrow> if rn_script_exists rn (script_path rn j) then [jb_RunID j] else [] | _ \<Rightarrow> [])"

inductive run_step :: "k6_process \<Rightarrow> runner \<Rightarrow> run_state \<Rightarrow> run_state \<Rightarrow> bool" for k6 rn where
  w_move: "no_fs_faults e \<Longrightarrow> time_ok (fs_now e) \<Longrightarrow> run_move k6 rn e pc fs = (pc', fs') \<Longrightarrow>
    run_step k6 rn (fs, pc, log) (fs', pc', log @ started_by rn pc)"
| a_dirs: "EnsureDirs e fs = (r, fs') \<Longrightarrow> run_step k6 rn (fs, pc, log) (fs', pc, log)"
| a_enqueue: "good_job (new_job (fs_now e) i (Apply l req)) \<Longrightarrow>
    enqueue e i l req fs = (r, fs') \<Longrightarrow> run_step k6 rn (fs, pc, log) (fs', pc, log)"

inductive_cases run_stepE: "run_step k6 rn (fs, pc, log) st'"

section \<open>No run is started twice\<close>

definition ended :: "files \<Rightarrow> string \<Rightarrow> bool" where
  "ended fs i \<longleftrightarrow> (\<exists>r. result_at fs i = Some r \<and> final r)"

lemma ended_claimed: "ended fs i \<Longrightarrow> claimed fs i"
  by (auto simp: ended_def claimed_def)

text \<open>The run whose \<open>k6\<close> was started and whose result is not stored yet.\<close>

definition open_run :: "runner_pc \<Rightarrow> string \<Rightarrow> bool" where
  "open_run pc i \<longleftrightarrow> (case pc of W_Conclude j oe \<Rightarrow> jb_RunID j = i | W_Store j r remove \<Rightarrow> jb_RunID j = i | _ \<Rightarrow> False)"

definition summary_ok :: "files \<Rightarrow> string \<Rightarrow> bool" where
  "summary_ok fs i \<longleftrightarrow> (\<forall>b. file_at fs Results i = Some b \<longrightarrow> report_time_ok b)"

fun pc_ok :: "files \<Rightarrow> string list \<Rightarrow> runner_pc \<Rightarrow> bool" where
  "pc_ok fs log (W_Busy jobs) \<longleftrightarrow> (\<forall>j\<in>set jobs. jb_RunID j \<notin> set log)"
| "pc_ok fs log (W_Mark j) \<longleftrightarrow> jb_RunID j \<notin> set log"
| "pc_ok fs log (W_Start j) \<longleftrightarrow> jb_RunID j \<notin> set log \<and> summary_ok fs (jb_RunID j)"
| "pc_ok fs log (W_Conclude j oe) \<longleftrightarrow> summary_ok fs (jb_RunID j)"
| "pc_ok fs log (W_Store j r remove) \<longleftrightarrow> good_result r \<and> final r \<and> rs_RunID r = jb_RunID j"
| "pc_ok fs log _ \<longleftrightarrow> True"

definition run_inv :: "run_state \<Rightarrow> bool" where
  "run_inv st = (case st of (fs, pc, log) \<Rightarrow> lt_inv fs \<and> distinct log
     \<and> (\<forall>i\<in>set log. ended fs i \<or> open_run pc i) \<and> pc_ok fs log pc)"

lemma run_invD:
  assumes "run_inv (fs, pc, log)"
  shows "lt_inv fs" "distinct log" "\<And>i. i \<in> set log \<Longrightarrow> ended fs i \<or> open_run pc i" "pc_ok fs log pc"
    "names_distinct fs" "no_dirs fs"
  using assms by (auto simp: run_inv_def lt_inv_def)

text \<open>Steps that leave the results as they are.\<close>

lemma run_inv_quiet:
  assumes "run_inv (fs, pc, log)" and "lt_inv fs'" and "\<And>i. file_at fs' Results i = file_at fs Results i"
  shows "run_inv (fs', pc, log)"
proof -
  have "result_at fs' i = result_at fs i" for i by (rule result_at_cong) (rule assms(3))
  then have e: "ended fs' i = ended fs i" for i by (simp add: ended_def)
  have "pc_ok fs' log pc = pc_ok fs log pc" by (cases pc) (simp_all add: summary_ok_def assms(3))
  with assms(1,2) e show ?thesis by (simp add: run_inv_def)
qed

lemma EnsureDirs_views:
  assumes "EnsureDirs e fs = (r, fs')"
  shows "file_at fs' D i = file_at fs D i" and "lt_inv fs \<Longrightarrow> lt_inv fs'"
proof -
  have en: "entries fs' D = entries fs D" for D using EnsureDirs_entries[of e fs D] assms by simp
  then have l: "lookup fs' D k = lookup fs D k" for D k by (simp add: lookup_def)
  then have f: "file_at fs' D i = file_at fs D i" for D i by (simp add: file_at_def)
  then show "file_at fs' D i = file_at fs D i" .
  have "job_at fs' i = job_at fs i" for i by (rule job_at_cong) (rule f)
  then show "lt_inv fs \<Longrightarrow> lt_inv fs'" by (simp add: lt_inv_def names_distinct_def no_dirs_def named_def en l)
qed

lemma read_summary_ok:
  assumes "read_summary rn e j oe fs = (r, remove)" and "no_fs_faults e" and "time_ok (fs_now e)" and "summary_ok fs (jb_RunID j)"
  shows "good_result r \<and> final r \<and> rs_RunID r = jb_RunID j"
proof -
  obtain out err where oe: "oe = (out, err)" by fastforce
  note d = assms(1)[unfolded read_summary_def oe prod.case]
  show ?thesis
  proof (cases "ReadFile e Results (json_name (jb_RunID j)) fs")
    case (Inl x)
    then have "r = missing_summary e j out err" using d by simp
    then show ?thesis using assms(3) by (simp add: missing_summary_def good_result_def final_def)
  next
    case (Inr raw)
    then have t: "report_time_ok raw"
      using assms(4) ReadFile_ok[OF no_fs_faults_reads[OF assms(2)]] by (simp add: summary_ok_def)
    show ?thesis
    proof (cases "ParseK6Report (jb_RunID j) raw")
      case p: (Inl x)
      show ?thesis
      proof (cases "decode_generic raw")
        case None
        then have "r = bad_summary e rn j x" using d Inr p by simp
        then show ?thesis using assms(3) by (simp add: bad_summary_def good_result_def final_def)
      next
        case (Some g)
        then have "good_map g" by (auto simp: decode_generic_def split: option.splits json.splits)
        moreover have "r = raw_summary e j g err" using d Inr p Some by simp
        ultimately show ?thesis using assms(3) by (simp add: raw_summary_def good_result_def final_def)
      qed
    next
      case p: (Inr res)
      then have "r = evaluated j err res" using d Inr by simp
      then show ?thesis using ParseK6Report_good[OF p t] by simp
    qed
  qed
qed

lemma run_move_inv:
  assumes "run_move k6 rn e pc fs = (pc', fs')" and "run_inv (fs, pc, log)" and "no_fs_faults e" and "time_ok (fs_now e)"
    and "k6_tame k6"
  shows "run_inv (fs', pc', log @ started_by rn pc)"
proof (cases pc)
  case W_Idle
  note inv = run_invD[OF assms(2)]
  obtain jobs where l: "ListPendingJobs e fs = (Inr jobs, made fs)"
    "set jobs = {j. \<exists>i\<in>pending_ids fs. job_at fs i = Some j}"
    by (rule ListPendingJobs_ok[OF no_fs_faults_reads[OF assms(3)] inv(5)])
  have "jb_RunID j \<notin> set log" if "j \<in> set jobs" for j
  proof -
    have "j \<in> {j. \<exists>i\<in>pending_ids fs. job_at fs i = Some j}" using that unfolding l(2) .
    then obtain i where i: "i \<in> pending_ids fs" "job_at fs i = Some j" by (elim CollectE bexE)
    have "jb_RunID j = i" using i(2) inv(1) by (simp add: lt_inv_def named_def)
    moreover have "\<not> ended fs i" using i(1) ended_claimed[of fs i] by (auto simp: pending_ids_def)
    ultimately show ?thesis using inv(3)[of i] W_Idle by (auto simp: open_run_def)
  qed
  moreover have "run_inv (made fs, W_Idle, log)"
    using run_inv_quiet[OF assms(2), of "made fs"] inv(1) W_Idle by simp
  ultimately show ?thesis
    using assms(1) l(1) W_Idle by (auto simp: run_inv_def started_by_def open_run_def)
next
  case (W_Busy jobs)
  note inv = run_invD[OF assms(2)]
  have h: "HasRunning e fs = (Inr (0 < card (running_ids (fs_now e) fs)), made fs)"
    using HasRunning_ok[OF no_fs_faults_reads[OF assms(3)] inv(5)] .
  have "run_inv (made fs, W_Busy jobs, log)" using run_inv_quiet[OF assms(2), of "made fs"] inv(1) W_Busy by simp
  then show ?thesis
    using assms(1) h W_Busy by (auto simp: run_inv_def started_by_def open_run_def split: if_splits list.splits)
next
  case (W_Mark j)
  note inv = run_invD[OF assms(2)]
  obtain x fs1 where w: "WriteRunning e (jb_RunID j) fs = (x, fs1)" by fastforce
  note m = WriteResult_ok[OF assms(3) inv(6) good_marker[OF assms(4)] w[unfolded WriteRunning_marker]]
  have id: "rs_RunID (running_marker t i) = i" for t i by (simp add: running_marker_def)
  have "write_json e Results (jb_RunID j) (Some (marker_json (fs_now e) (jb_RunID j))) fs = (Inr (), fs1)"
    using w m(1) encode_marker[OF assms(4)] by (simp add: WriteRunning_marker WriteResult_def id)
  from write_json_views(2)[OF this] have f: "file_at fs1 Results (jb_RunID j) = Some (Some (marker_json (fs_now e) (jb_RunID j)))"
    by simp
  have n: "jb_RunID j \<notin> set log" using inv(4) W_Mark by simp
  have "ended fs1 i" if "i \<in> set log" for i
  proof -
    have "ended fs i" using inv(3)[OF that] W_Mark by (simp add: open_run_def)
    moreover have "i \<noteq> jb_RunID j" using n that by blast
    ultimately show ?thesis using m(3)[of i] by (simp add: ended_def id)
  qed
  moreover have "lt_inv fs1" using inv(1) m(4-6) by (simp add: lt_inv_def named_def)
  moreover have "summary_ok fs1 (jb_RunID j)" using f marker_time_ok by (simp add: summary_ok_def)
  ultimately show ?thesis
    using assms(1) w m(1) W_Mark n inv(2) by (auto simp: run_inv_def started_by_def)
next
  case (W_Start j)
  note inv = run_invD[OF assms(2)]
  let ?i = "jb_RunID j"
  have n: "?i \<notin> set log" "summary_ok fs ?i" using inv(4) W_Start by simp_all
  have old: "ended fs i" if "i \<in> set log" for i using inv(3)[OF that] W_Start by (simp add: open_run_def)
  show ?thesis
  proof (cases "rn_script_exists rn (script_path rn j)")
    case False
    have "good_result (missing_script e rn j) \<and> final (missing_script e rn j) \<and> rs_RunID (missing_script e rn j) = ?i"
      using assms(4) by (simp add: missing_script_def good_result_def final_def)
    then show ?thesis using assms(1) W_Start False inv(1,2) old by (auto simp: run_inv_def started_by_def)
  next
    case True
    obtain oe fs1 where k: "k6 (k6_env rn j) (script_path rn j) fs = (oe, fs1)" by fastforce
    have t: "names_distinct fs1" "no_dirs fs1" "\<And>D k. (D, k) \<noteq> (Results, ?i) \<Longrightarrow> file_at fs1 D k = file_at fs D k"
      "file_at fs1 Results ?i = file_at fs Results ?i \<or> (\<forall>b. file_at fs1 Results ?i = Some b \<longrightarrow> report_time_ok b)"
      using assms(5)[unfolded k6_tame_def Let_def, rule_format, of fs "k6_env rn j" "script_path rn j"] k inv(5,6) by auto
    have "job_at fs1 i = job_at fs i" for i using job_at_cong[OF t(3)[of Jobs i]] by simp
    then have "lt_inv fs1" using inv(1) t(1,2) by (simp add: lt_inv_def named_def)
    moreover have "ended fs1 i" if "i \<in> set log" for i
    proof -
      have "i \<noteq> ?i" using n(1) that by blast
      then show ?thesis using old[OF that] result_at_cong[OF t(3)[of Results i]] by (simp add: ended_def)
    qed
    moreover have "summary_ok fs1 ?i" using t(4) n(2) by (auto simp: summary_ok_def)
    ultimately show ?thesis
      using assms(1) W_Start True k inv(2) n(1) by (auto simp: run_inv_def started_by_def open_run_def)
  qed
next
  case (W_Conclude j oe)
  note inv = run_invD[OF assms(2)]
  obtain r rm where s: "read_summary rn e j oe fs = (r, rm)" by fastforce
  have "summary_ok fs (jb_RunID j)" using inv(4) W_Conclude by simp
  note r = read_summary_ok[OF s assms(3,4) this]
  have "\<forall>i\<in>set log. ended fs i \<or> jb_RunID j = i" using inv(3) W_Conclude by (auto simp: open_run_def)
  then show ?thesis
    using assms(1) s W_Conclude inv(1,2) r by (auto simp: run_inv_def started_by_def open_run_def)
next
  case (W_Store j r remove)
  note inv = run_invD[OF assms(2)]
  have r: "good_result r" "final r" "rs_RunID r = jb_RunID j" using inv(4) W_Store by simp_all
  obtain x fs1 where w: "WriteResult e r fs = (x, fs1)" by fastforce
  note m = WriteResult_ok[OF assms(3) inv(6) r(1) w]
  have "final (tidy r)" using r(2) by (simp add: final_def)
  have "ended fs1 i" if "i \<in> set log" for i
  proof (cases "i = jb_RunID j")
    case True
    then show ?thesis using m(2) r(3) \<open>final (tidy r)\<close> by (auto simp: ended_def)
  next
    case False
    then have "ended fs i" using inv(3)[OF that] W_Store by (simp add: open_run_def)
    then show ?thesis using m(3)[of i] False r(3) by (simp add: ended_def)
  qed
  moreover have "lt_inv fs1" using inv(1) m(4-6) by (simp add: lt_inv_def named_def)
  ultimately show ?thesis
    using assms(1) w m(1) W_Store inv(2) by (auto simp: run_inv_def started_by_def)
next
  case (W_Remove j)
  note inv = run_invD[OF assms(2)]
  let ?d = "drop_entry Jobs (json_name (jb_RunID j)) fs"
  have "job_at ?d i = (if i = jb_RunID j then None else job_at fs i)" for i
    by (simp add: job_at_def drop_entry_views)
  then have "lt_inv ?d" using inv(1) drop_entry_views(2,3)[where fs = fs and D = Jobs]
    by (simp add: lt_inv_def named_def)
  moreover have "file_at ?d Results i = file_at fs Results i" for i by (simp add: drop_entry_views)
  ultimately have "run_inv (?d, W_Remove j, log)" using run_inv_quiet[OF assms(2)] W_Remove by blast
  then show ?thesis using assms(1,3) W_Remove by (auto simp: Remove_def run_inv_def started_by_def open_run_def)
qed

lemma run_step_inv:
  assumes "run_step k6 rn st st'" and "run_inv st" and "k6_tame k6"
  shows "run_inv st'"
  using assms(1)
proof cases
  case (w_move e pc fs pc' fs' log)
  then show ?thesis using run_move_inv[OF w_move(5)] assms(2,3) by simp
next
  case (a_dirs e fs r fs' pc log)
  then show ?thesis
    using run_inv_quiet[of fs pc log fs'] EnsureDirs_views[OF a_dirs(3)] assms(2) run_invD(1)[of fs pc log] by simp
next
  case (a_enqueue e i l req fs r fs' pc log)
  have inv: "run_inv (fs, pc, log)" using assms(2) a_enqueue by simp
  obtain x where w: "write_json e Jobs i (encode_job (new_job (fs_now e) i (Apply l req))) fs = (x, fs')"
    using a_enqueue(4) by (auto simp: enqueue_def Let_def WriteJob_def split: prod.splits sum.splits)
  show ?thesis
    using run_inv_quiet[OF inv enqueue_keeps(1)[OF a_enqueue(3,4) run_invD(1)[OF inv]]] write_json_views(1)[OF w] a_enqueue(2)
    by simp
qed

lemma run_steps_inv: "(run_step k6 rn)\<^sup>*\<^sup>* st st' \<Longrightarrow> run_inv st \<Longrightarrow> k6_tame k6 \<Longrightarrow> run_inv st'"
  by (induction rule: rtranclp_induct) (auto intro: run_step_inv)

text \<open>The only pending job is started when nothing runs.\<close>

lemma start_alone:
  assumes "lt_inv fs" and "pending_ids fs = {i}" and "job_at fs i = Some j" and "running_ids (fs_now e) fs = {}"
    and "no_fs_faults e" and "time_ok (fs_now e)" and "rn_script_exists rn (script_path rn j)"
  obtains fs1 where "(run_step k6 rn)\<^sup>*\<^sup>* (fs, W_Idle, log)
      (snd (k6 (k6_env rn j) (script_path rn j) fs1), W_Conclude j (fst (k6 (k6_env rn j) (script_path rn j) fs1)), log @ [i])"
    and "lt_inv fs1" and "\<forall>k. job_at fs1 k = job_at fs k" and "\<forall>k. k \<noteq> i \<longrightarrow> result_at fs1 k = result_at fs k"
proof -
  have n: "names_distinct fs" "no_dirs fs" "jb_RunID j = i" using assms(1,3) by (simp_all add: lt_inv_def named_def)
  have ro: "reads_ok e" using assms(5) by simp
  obtain jobs where l: "ListPendingJobs e fs = (Inr jobs, made fs)"
    "set jobs = {j. \<exists>i\<in>pending_ids fs. job_at fs i = Some j}" "length jobs = card (pending_ids fs)"
    by (rule ListPendingJobs_ok[OF ro n(1)])
  have jobs: "jobs = [j]"
  proof -
    have "length jobs = 1" "set jobs = {j}" using l(2,3) assms(2,3) by simp_all
    then show ?thesis by (cases jobs) auto
  qed
  have h: "HasRunning e (made fs) = (Inr False, made fs)" using HasRunning_ok[OF ro, of "made fs"] n(1) assms(4) by simp
  obtain x fs1 where w: "WriteRunning e i (made fs) = (x, fs1)" by fastforce
  have nd: "no_dirs (made fs)" using n(2) by (simp add: no_dirs_def)
  note m = WriteResult_ok[OF assms(5) nd good_marker[OF assms(6)] w[unfolded WriteRunning_marker]]
  have id: "rs_RunID (running_marker t i) = i" for t i by (simp add: running_marker_def)
  obtain oe fs2 where k: "k6 (k6_env rn j) (script_path rn j) fs1 = (oe, fs2)" by fastforce
  have s: "run_step k6 rn (f, pc, lg) (f', pc', lg @ started_by rn pc)" if "run_move k6 rn e pc f = (pc', f')" for f f' pc pc' lg
    using w_move[OF assms(5,6) that] .
  have "run_step k6 rn (fs, W_Idle, log) (made fs, W_Busy [j], log)"
    using s[of W_Idle fs "W_Busy [j]" "made fs" log] l(1) jobs by (simp add: started_by_def)
  moreover have "run_step k6 rn (made fs, W_Busy [j], log) (made fs, W_Mark j, log)"
    using s[of "W_Busy [j]" "made fs" "W_Mark j" "made fs" log] h by (simp add: started_by_def)
  moreover have "run_step k6 rn (made fs, W_Mark j, log) (fs1, W_Start j, log)"
    using s[of "W_Mark j" "made fs" "W_Start j" fs1 log] w m(1) n(3) by (simp add: started_by_def)
  moreover have "run_step k6 rn (fs1, W_Start j, log) (fs2, W_Conclude j oe, log @ [i])"
    using s[of "W_Start j" fs1 "W_Conclude j oe" fs2 log] k assms(7) n(3) by (simp add: started_by_def)
  ultimately have "(run_step k6 rn)\<^sup>*\<^sup>* (fs, W_Idle, log) (fs2, W_Conclude j oe, log @ [i])"
    by (meson rtranclp.rtrancl_into_rtrancl rtranclp.rtrancl_refl)
  moreover have "lt_inv fs1" using assms(1) m(4-6) by (simp add: lt_inv_def named_def)
  ultimately show ?thesis using that[of fs1] k m(3,4) by (simp add: id)
qed

section \<open>Properties\<close>

text \<open>
  C14. \<^bold>\<open>A run is started once.\<close> Under every interleaving of the runner's steps with the API's writes of new
  jobs, while the runner lives and its file operations succeed, \<open>k6\<close> is started at most once for a run; and
  every run that was started has a final result, except the one whose result the runner is about to store.
\<close>

theorem run_starts_once:
  assumes "(run_step k6 rn)\<^sup>*\<^sup>* (fs, W_Idle, []) (fs', pc, log)" and "lt_inv fs" and "k6_tame k6"
  shows "distinct log
    \<and> (\<forall>i\<in>set log. (\<exists>r. result_at fs' i = Some r \<and> rs_Status r \<in> {StatusPassed, StatusFailed, StatusError})
         \<or> (\<exists>j. jb_RunID j = i \<and> ((\<exists>oe. pc = W_Conclude j oe) \<or> (\<exists>r remove. pc = W_Store j r remove))))"
proof -
  have "run_inv (fs, W_Idle, [])" using assms(2) by (simp add: run_inv_def)
  note inv = run_invD[OF run_steps_inv[OF assms(1) this assms(3)]]
  have "open_run pc i \<Longrightarrow> \<exists>j. jb_RunID j = i \<and> ((\<exists>oe. pc = W_Conclude j oe) \<or> (\<exists>r remove. pc = W_Store j r remove))" for i
    by (cases pc) (auto simp: open_run_def)
  then show ?thesis using inv(2,3) unfolding ended_def final_def by blast
qed

lemma one_job_starts:
  obtains fs1 where "(run_step k6 a_runner)\<^sup>*\<^sup>* (one_job, W_Idle, [])
      (snd (k6 (k6_env a_runner (new_job new_year ''a'' (Apply DefaultLimits a_request)))
         (script_path a_runner (new_job new_year ''a'' (Apply DefaultLimits a_request))) fs1),
       W_Conclude (new_job new_year ''a'' (Apply DefaultLimits a_request))
         (fst (k6 (k6_env a_runner (new_job new_year ''a'' (Apply DefaultLimits a_request)))
         (script_path a_runner (new_job new_year ''a'' (Apply DefaultLimits a_request))) fs1)), [''a''])"
    and "lt_inv fs1" and "\<forall>k. job_at fs1 k = job_at one_job k" and "\<forall>k. k \<noteq> ''a'' \<longrightarrow> result_at fs1 k = None"
proof -
  have "rn_script_exists a_runner p" for p by (simp add: a_runner_def runner_settings_def)
  then show ?thesis
    using start_alone[of one_job "''a''" "new_job new_year ''a'' (Apply DefaultLimits a_request)" "calm_fs new_year"
        a_runner k6 "[]" thesis] that
    by (simp add: one_job_views)
qed

lemma run_starts_once_witness:
  "\<exists>fs' pc. (run_step silent_k6 a_runner)\<^sup>*\<^sup>* (one_job, W_Idle, []) (fs', pc, [''a'']) \<and> distinct [''a'']"
proof -
  obtain fs' pc where s: "(run_step silent_k6 a_runner)\<^sup>*\<^sup>* (one_job, W_Idle, []) (fs', pc, [''a''])"
    using one_job_starts[of silent_k6 thesis] by blast
  then show ?thesis using run_starts_once[OF s one_job_views(5) silent_k6_tame] by (intro exI[of _ fs'] exI[of _ pc] conjI) simp_all
qed

lemma no_status:
  assumes "\<forall>kv\<in>set (members b). field_of result_fields (fst kv) \<noteq> Some ''status''"
  shows "rs_Status (fst (decode_result b)) = []"
  by (simp add: decode_result_def Let_def decode_field_other[OF assms])

lemma unclaimed_summary:
  assumes "file_at fs Results i = Some b" and "\<forall>kv\<in>set (members b). field_of result_fields (fst kv) \<noteq> Some ''status''"
    and "result_at fs i = Some r"
  shows "rs_Status r = [] \<and> \<not> claims r \<and> \<not> fresh_running t r"
  using assms(1,3) no_status[OF assms(2)]
  by (auto simp: result_at_def claims_def fresh_running_def status_defs split: if_splits)

text \<open>
  \<^bold>\<open>A summary without a status reopens the run.\<close> The scripts of the repository write no member
  \<open>status\<close>. From the end of such a \<open>k6\<close> until the runner has stored its result, the API sees the run as
  neither queued nor running nor ended: it is pending again, it does not count as running, and its status
  is empty (or \<open>queued\<close>, when the summary does not fit the struct).
\<close>

theorem summary_reopens_run:
  assumes "job_at fs i = Some j" and "file_at fs Results i = Some b" and "reads_ok e"
    and "\<forall>kv\<in>set (members b). field_of result_fields (fst kv) \<noteq> Some ''status''"
  shows "i \<in> pending_ids fs \<and> i \<notin> running_ids t fs
    \<and> (\<exists>r. GetRun e i fs = Inr r \<and> rs_Status r = (if snd (decode_result b) then [] else StatusQueued))"
proof -
  note u = unclaimed_summary[OF assms(2,4)]
  have "i \<in> pending_ids fs" "i \<notin> running_ids t fs"
    using u assms(1) by (auto simp: pending_ids_def claimed_def running_ids_def)
  moreover have "\<exists>r. GetRun e i fs = Inr r \<and> rs_Status r = (if snd (decode_result b) then [] else StatusQueued)"
  proof (cases "snd (decode_result b)")
    case True
    then have "result_at fs i = Some (fst (decode_result b))" using assms(2) by (simp add: result_at_def)
    moreover from this have "ReadResult e i fs = Inr (fst (decode_result b))" using ReadResult_ok[OF assms(3)] by blast
    ultimately show ?thesis using True u by (simp add: GetRun_def GetStatus_def status_defs)
  next
    case False
    then have "result_at fs i = None" using assms(2) by (simp add: result_at_def)
    then have "\<not> (\<exists>y. ReadResult e i fs = Inr y)" using ReadResult_ok[OF assms(3)] by simp
    then obtain er where "ReadResult e i fs = Inl er" by (cases "ReadResult e i fs") auto
    moreover have "ReadJob e i fs = Inr j" using ReadJob_ok[OF assms(3)] assms(1) by blast
    ultimately show ?thesis using False by (simp add: GetRun_def GetStatus_def)
  qed
  ultimately show ?thesis by blast
qed

text \<open>A \<open>k6\<close> that writes what a script of the repository writes, in short.\<close>

definition reporting_k6 :: k6_process where
  "reporting_k6 = (\<lambda>env script fs. ((''done'', None), put Results (json_name (var env ''K6_RUN_ID''))
     (F_File (Some (J_Obj [(''scenario'', J_Str (var env ''K6_SCENARIO'')), (''passed'', J_Bool True)]))) fs))"

lemma put_views:
  "file_at (put D (json_name i) (F_File b) fs) D' k = (if D = D' \<and> k = i then Some b else file_at fs D' k)"
  "names_distinct fs \<Longrightarrow> names_distinct (put D n m fs)" "no_dirs fs \<Longrightarrow> no_dirs (put D n (F_File b) fs)"
  by (auto simp: file_at_def names_distinct_def entries_put distinct_update no_dirs_def)

lemma reporting_k6_tame: "k6_tame reporting_k6"
proof -
  have "report_time_ok (Some (J_Obj [(''scenario'', J_Str s), (''passed'', J_Bool True)]))" for s
    by (simp add: report_time_ok_def decode_report_def members_def report_fields_def field_of_def ParseTime_def
        parse_date_def take_num_def)
  then show ?thesis by (auto simp: k6_tame_def reporting_k6_def Let_def put_views)
qed

lemma reporting_k6_writes:
  "snd (reporting_k6 (k6_env rn j) script fs) = put Results (json_name (jb_RunID j))
     (F_File (Some (J_Obj [(''scenario'', J_Str (var (k6_env rn j) ''K6_SCENARIO'')), (''passed'', J_Bool True)]))) fs"
  by (simp add: reporting_k6_def)

lemma reporting_k6_no_status:
  "\<forall>kv\<in>set (members (Some (J_Obj [(''scenario'', x), (''passed'', y)]))). field_of result_fields (fst kv) \<noteq> Some ''status''"
  by (simp add: members_def field_of_def result_fields_def)

lemma summary_reopens_run_witness:
  "\<exists>r. GetRun (calm_fs new_year) ''a'' (put Results ''a.json'' (F_File (Some (J_Obj [(''scenario'', J_Str ''launch_spike''),
      (''passed'', J_Bool True)]))) one_job) = Inr r \<and> rs_Status r = ''''"
proof -
  let ?b = "Some (J_Obj [(''scenario'', J_Str ''launch_spike''), (''passed'', J_Bool True)])"
  let ?fs = "put Results (json_name ''a'') (F_File ?b) one_job"
  have "job_at ?fs ''a'' = job_at one_job ''a''" by (rule job_at_cong) (simp add: put_views)
  then have j: "job_at ?fs ''a'' = Some (new_job new_year ''a'' (Apply DefaultLimits a_request))" by (simp add: one_job_views)
  have f: "file_at ?fs Results ''a'' = Some ?b" by (simp add: put_views)
  have "snd (decode_result ?b)"
    by (simp add: decode_result_def members_def result_fields_def field_of_def Let_def is_struct_def)
  then show ?thesis
    using summary_reopens_run[OF j f _ reporting_k6_no_status, of "calm_fs new_year"] by (simp add: json_name_def)
qed

text \<open>
  \<^bold>\<open>A crash can run a job twice.\<close> A runner that dies after \<open>k6\<close> has written its summary and before the
  result is stored starts the same run again when it is restarted, at once, although a runner that dies
  while \<open>k6\<close> runs never does.
\<close>

theorem crash_runs_job_twice:
  "\<exists>fs1 fs2 fs3 pc1 pc2. (run_step reporting_k6 a_runner)\<^sup>*\<^sup>* (one_job, W_Idle, []) (fs1, pc1, [''a''])
    \<and> runner_start (calm_fs new_year) fs1 = Some fs2
    \<and> (run_step reporting_k6 a_runner)\<^sup>*\<^sup>* (fs2, W_Idle, [''a'']) (fs3, pc2, [''a'', ''a''])"
proof -
  let ?j = "new_job new_year ''a'' (Apply DefaultLimits a_request)" and ?e = "calm_fs new_year"
  let ?k6 = "reporting_k6 (k6_env a_runner ?j) (script_path a_runner ?j)"
  obtain fs0 where s: "(run_step reporting_k6 a_runner)\<^sup>*\<^sup>* (one_job, W_Idle, []) (snd (?k6 fs0), W_Conclude ?j (fst (?k6 fs0)), [''a''])"
    and f0: "lt_inv fs0" "\<forall>k. job_at fs0 k = job_at one_job k" "\<forall>k. k \<noteq> ''a'' \<longrightarrow> result_at fs0 k = None"
    by (rule one_job_starts[of reporting_k6])
  let ?b = "Some (J_Obj [(''scenario'', J_Str (var (k6_env a_runner ?j) ''K6_SCENARIO'')), (''passed'', J_Bool True)])"
  define fs1 where "fs1 = snd (?k6 fs0)"
  have fs1: "fs1 = put Results (json_name ''a'') (F_File ?b) fs0" by (simp add: fs1_def reporting_k6_writes)
  have j1: "job_at fs1 k = (if k = ''a'' then Some ?j else None)" for k
    using job_at_cong[of fs1 k fs0] f0(2) by (simp add: fs1 put_views one_job_views)
  have r1: "result_at fs1 k = None" if "k \<noteq> ''a''" for k
    using result_at_cong[of fs1 k fs0] f0(3) that by (simp add: fs1 put_views)
  have u: "result_at fs1 ''a'' = Some r \<Longrightarrow> rs_Status r = [] \<and> \<not> claims r \<and> \<not> fresh_running t r" for r t
    by (rule unclaimed_summary[of fs1 "''a''", OF _ reporting_k6_no_status]) (simp_all add: fs1 put_views)
  have r1': "result_at fs1 i = Some r \<Longrightarrow> i = ''a''" for i r using r1 by (cases "i = ''a''") auto
  have i1: "lt_inv fs1" using f0(1) j1 put_views(2,3)[where fs = fs0] by (simp add: lt_inv_def named_def fs1)
  have p1: "pending_ids fs1 = {''a''}" using u by (auto simp: pending_ids_def claimed_def j1)
  obtain fs2 where st: "runner_start ?e fs1 = Some fs2" by (simp add: runner_start_def EnsureDirs_ok)
  have old: "\<not> (\<exists>r. result_at fs1 i = Some r \<and> abandoned t a r)" for i t a
    using u r1' by (auto simp: abandoned_def status_defs)
  have none: "{i. job_at fs1 i \<noteq> None \<and> (\<exists>r. result_at fs1 i = Some r \<and> abandoned t a r)} = {}" for t a
    unfolding Collect_empty_eq using old by blast
  have f2: "lt_inv fs2" "pending_ids fs2 = {''a''}" "\<And>i. result_at fs2 i = result_at fs1 i" "\<And>i. job_at fs2 i = job_at fs1 i"
    using runner_start_effect[OF calm_fs_simps(3) i1 st] unfolding none if_not_P[OF old] p1 by simp_all
  have q2: "running_ids new_year fs2 = {}"
    using u r1' by (auto simp: running_ids_def f2(3))
  have j2: "job_at fs2 ''a'' = Some ?j" using f2(4) j1 by simp
  have "rn_script_exists a_runner (script_path a_runner ?j)" by (simp add: a_runner_def runner_settings_def)
  moreover have "running_ids (fs_now ?e) fs2 = {}" "no_fs_faults ?e" "time_ok (fs_now ?e)" using q2 by simp_all
  ultimately obtain fs3 where "(run_step reporting_k6 a_runner)\<^sup>*\<^sup>* (fs2, W_Idle, [''a''])
      (snd (?k6 fs3), W_Conclude ?j (fst (?k6 fs3)), [''a''] @ [''a''])"
    using start_alone[OF f2(1,2) j2, of ?e a_runner reporting_k6 "[''a'']" thesis] by blast
  then have "\<exists>fs3 pc2. (run_step reporting_k6 a_runner)\<^sup>*\<^sup>* (fs2, W_Idle, [''a'']) (fs3, pc2, [''a'', ''a''])"
    by (metis append_Cons append_Nil)
  with s st show ?thesis unfolding fs1_def by blast
qed

end
