(* ===== verification/Run_Order.thy ===== *)
theory Run_Order
  imports Run_Steps
begin

text \<open>
  The two orders of the load tests: the one in which the runner takes the jobs (\<open>ListPendingJobs\<close> sorts them
  by their creation) and the one in which \<open>ListRuns\<close> shows the results.
\<close>

section \<open>The order of the runs\<close>

text \<open>The run \<open>a\<close> has ended, or both wait.\<close>

definition waits_behind :: "job \<Rightarrow> job \<Rightarrow> files \<Rightarrow> bool" where
  "waits_behind ja jb fs \<longleftrightarrow> lt_inv fs \<and> (ended fs (jb_RunID ja) \<or>
     {jb_RunID ja, jb_RunID jb} \<subseteq> pending_ids fs \<and> job_at fs (jb_RunID ja) = Some ja \<and> job_at fs (jb_RunID jb) = Some jb)"

lemma waits_behind_made [simp]: "waits_behind ja jb (made fs) = waits_behind ja jb fs"
  by (simp add: waits_behind_def ended_def)

lemma submit_waits:
  assumes "waits_behind ja jb fs" and "lt_valid k6 l (L_Submit e i req) fs"
  shows "waits_behind ja jb (snd (Submit e i l req fs))"
proof -
  have v: "no_fs_faults e" "good_job (new_job (fs_now e) i (Apply l req))" "job_at fs i = None"
    "int (card (pending_ids fs)) + int (card (running_ids (fs_now e) fs)) < 2 ^ 63"
    using assms(2) by simp_all
  have inv: "lt_inv fs" using assms(1) by (simp add: waits_behind_def)
  show ?thesis
  proof (cases rule: Submit_cases[OF v(1) inv v(2,4)])
    case (1 err fs')
    then show ?thesis using assms(1) by auto
  next
    case (2 fs')
    have "pending_ids fs \<subseteq> pending_ids fs'"
    proof
      fix k assume k: "k \<in> pending_ids fs"
      then have "k \<noteq> i" using v(3) by (auto simp: pending_ids_def)
      then show "k \<in> pending_ids fs'" using k 2(6,7) by (simp add: pending_ids_def claimed_def)
    qed
    moreover have "job_at fs k = Some j \<Longrightarrow> job_at fs' k = Some j" for k j using 2(6) v(3) by (cases "k = i") simp_all
    moreover have "ended fs' k = ended fs k" for k using 2(7) by (simp add: ended_def)
    ultimately show ?thesis using 2(1,8) assms(1) by (auto simp: waits_behind_def)
  qed
qed

lemma tick_waits:
  assumes "waits_behind ja jb fs" and "jb_CreatedAt ja < jb_CreatedAt jb" and "lt_valid k6 l (L_Tick (e1, e2)) fs"
  shows "waits_behind ja jb (runner_tick k6 rn (e1, e2) fs)"
proof -
  let ?a = "jb_RunID ja" and ?b = "jb_RunID jb" and ?fs = "runner_tick k6 rn (e1, e2) fs"
  have v: "k6_tame k6" "no_fs_faults e1" "no_fs_faults e2" "time_ok (fs_now e1)" "time_ok (fs_now e2)"
    using assms(3) by simp_all
  have inv: "lt_inv fs" using assms(1) by (simp add: waits_behind_def)
  show ?thesis
  proof (cases "pending_ids fs = {} \<or> running_ids (fs_now e1) fs \<noteq> {}")
    case True
    then have "?fs = made fs" using runner_tick_idle[OF inv v(2)] runner_tick_busy[OF inv v(2)] by blast
    then show ?thesis using assms(1) by simp
  next
    case False
    obtain i j r where i: "i \<in> pending_ids fs" "job_at fs i = Some j"
      "\<forall>k\<in>pending_ids fs. \<forall>j'. job_at fs k = Some j' \<longrightarrow> jb_CreatedAt j \<le> jb_CreatedAt j'"
      and d: "done_as i r fs ?fs" "final r"
      using runner_tick_step[OF inv v(1-5), of rn thesis] False by blast
    note ef = done_as_effect[OF d]
    have res: "ended ?fs i" "k \<noteq> i \<Longrightarrow> ended ?fs k = ended fs k" "k \<noteq> i \<Longrightarrow> job_at ?fs k = job_at fs k" for k
      using d by (auto simp: done_as_def ended_def final_def)
    show ?thesis
    proof (cases "ended fs ?a \<or> i = ?a")
      case True
      then have "ended ?fs ?a" using res by (cases "i = ?a") auto
      then show ?thesis using ef(5)[OF inv] by (simp add: waits_behind_def)
    next
      case f: False
      then have w: "{?a, ?b} \<subseteq> pending_ids fs" "job_at fs ?a = Some ja" "job_at fs ?b = Some jb"
        using assms(1) by (simp_all add: waits_behind_def)
      then have "i \<noteq> ?b" using i(2,3) assms(2) by fastforce
      then show ?thesis using f w ef(5)[OF inv] res(3) by (auto simp: waits_behind_def ef(1))
    qed
  qed
qed

interpretation order: keeper "lt_exec k6 rn l" "\<lambda>c fs. lt_valid k6 l c fs \<and> jb_CreatedAt ja < jb_CreatedAt jb" "waits_behind ja jb"
  for k6 rn l ja jb
proof
  fix fs c assume a: "waits_behind ja jb fs" "lt_valid k6 l c fs \<and> jb_CreatedAt ja < jb_CreatedAt jb"
  show "waits_behind ja jb (lt_exec k6 rn l c fs)"
  proof (cases c)
    case (L_Submit e i req)
    then show ?thesis using submit_waits[OF a(1), of k6 l e i req] a(2) by simp
  next
    case (L_Tick es)
    then show ?thesis using tick_waits[OF a(1), of k6 l "fst es" "snd es" rn] a(2) by simp
  qed
qed

lemma valid_run_conj: "valid_run ex v cs s \<Longrightarrow> P \<Longrightarrow> valid_run ex (\<lambda>c s. v c s \<and> P) cs s"
  by (induction cs arbitrary: s) simp_all

text \<open>
  C32. \<^bold>\<open>First come, first run.\<close> Of two waiting jobs the one that was created earlier is run first: through every
  sequence of further submissions and ticks, the later one still waits, or the earlier one has its final
  result.
\<close>

theorem runs_in_order:
  assumes "lt_inv fs" and "i \<in> pending_ids fs" and "k \<in> pending_ids fs"
    and "job_at fs i = Some ji" and "job_at fs k = Some jk" and "jb_CreatedAt ji < jb_CreatedAt jk"
    and "valid_run (lt_exec k6 rn l) (lt_valid k6 l) cs fs"
  shows "k \<in> pending_ids (run_calls (lt_exec k6 rn l) cs fs)
    \<or> (\<exists>r. result_at (run_calls (lt_exec k6 rn l) cs fs) i = Some r \<and> rs_Status r \<in> {StatusPassed, StatusFailed, StatusError})"
proof -
  have id: "jb_RunID ji = i" "jb_RunID jk = k" using assms(1,4,5) by (simp_all add: lt_inv_def named_def)
  have "waits_behind ji jk fs" using assms(1-5) id by (simp add: waits_behind_def)
  from order.run_keeps[OF this valid_run_conj[OF assms(7,6)]] show ?thesis
    by (auto simp: waits_behind_def ended_def final_def id)
qed

text \<open>A second job, three hours after the first.\<close>

lemma two_jobs:
  obtains fs jb where "lt_inv fs" "pending_ids fs = {''a'', ''b''}" "running_ids t fs = {}"
    "job_at fs ''a'' = Some (new_job new_year ''a'' (Apply DefaultLimits a_request))"
    "job_at fs ''b'' = Some jb" "jb_CreatedAt jb = new_year + 10800000000000"
proof -
  let ?t = "new_year + 10800000000000"
  have g: "good_job (new_job (fs_now (calm_fs ?t)) ''b'' (Apply DefaultLimits a_request))"
    by (simp add: good_job_def new_job_def Apply_def a_request_def positive_or_def cap_vus_def DefaultLimits_def in_int64_def)
  have n: "no_dirs one_job" "names_distinct one_job" "named one_job" using one_job_views(5) by (simp_all add: lt_inv_def)
  obtain fs where fs: "enqueue (calm_fs ?t) ''b'' DefaultLimits a_request one_job
      = (Inr (new_job ?t ''b'' (Apply DefaultLimits a_request)), fs)"
    "job_at fs ''b'' = Some (new_job ?t ''b'' (Apply DefaultLimits a_request))"
    "\<forall>k. k \<noteq> ''b'' \<longrightarrow> job_at fs k = job_at one_job k" "\<forall>k. result_at fs k = result_at one_job k"
    by (rule enqueue_ok[OF calm_fs_simps(3) n(1) g]) simp
  have "lt_inv fs" using enqueue_keeps(1)[OF g fs(1) one_job_views(5)] .
  moreover have "pending_ids fs = {''a'', ''b''}"
    using fs(2-4) by (auto simp: pending_ids_def claimed_def one_job_views split: if_splits)
  moreover have "running_ids t fs = {}" using fs(4) by (simp add: running_ids_def one_job_views)
  moreover have "job_at fs ''a'' = Some (new_job new_year ''a'' (Apply DefaultLimits a_request))"
    using fs(3) by (simp add: one_job_views)
  ultimately show ?thesis using that fs(2) by (simp add: new_job_def)
qed

lemma runs_in_order_witness:
  "\<exists>fs. pending_ids fs = {''a'', ''b''} \<and> (\<forall>cs. valid_run (lt_exec silent_k6 a_runner DefaultLimits) (lt_valid silent_k6 DefaultLimits) cs fs \<longrightarrow>
     ''b'' \<in> pending_ids (run_calls (lt_exec silent_k6 a_runner DefaultLimits) cs fs)
     \<or> (\<exists>r. result_at (run_calls (lt_exec silent_k6 a_runner DefaultLimits) cs fs) ''a'' = Some r
          \<and> rs_Status r \<in> {StatusPassed, StatusFailed, StatusError}))"
proof -
  obtain fs jb where f: "lt_inv fs" "pending_ids fs = {''a'', ''b''}"
    "job_at fs ''a'' = Some (new_job new_year ''a'' (Apply DefaultLimits a_request))"
    "job_at fs ''b'' = Some jb" "jb_CreatedAt jb = new_year + 10800000000000"
    by (rule two_jobs)
  have "jb_CreatedAt (new_job new_year ''a'' (Apply DefaultLimits a_request)) < jb_CreatedAt jb" using f(5) by (simp add: new_job_def)
  from runs_in_order[OF f(1) _ _ f(3,4) this] f(2) show ?thesis by (intro exI[of _ fs]) blast
qed

section \<open>The list of the results\<close>

text \<open>What stands in front: unfinished runs by descending identifier, then the finished ones, the latest first.\<close>

definition before :: "run_result \<Rightarrow> run_result \<Rightarrow> bool" where
  "before r s \<longleftrightarrow> (case (rs_FinishedAt r, rs_FinishedAt s) of
     (None, None) \<Rightarrow> rs_RunID s \<le> rs_RunID r | (None, Some _) \<Rightarrow> True | (Some _, None) \<Rightarrow> False
   | (Some t, Some u) \<Rightarrow> u \<le> t)"

lemma newest_first_sorted: "sorted_wrt before (newest_first rs)"
proof -
  let ?u = "filter (\<lambda>r. rs_FinishedAt r = None) rs" and ?f = "filter (\<lambda>r. rs_FinishedAt r \<noteq> None) rs"
  have "sorted (map rs_RunID (sort_key rs_RunID ?u))" by simp
  then have "sorted_wrt (\<lambda>r s. rs_RunID r \<le> rs_RunID s) (sort_key rs_RunID ?u)" by (simp add: sorted_map)
  then have "sorted_wrt (\<lambda>r s. rs_RunID s \<le> rs_RunID r) (rev (sort_key rs_RunID ?u))" by (simp add: sorted_wrt_rev)
  then have u: "sorted_wrt before (rev (sort_key rs_RunID ?u))"
    by (rule sorted_wrt_mono_rel[rotated]) (auto simp: before_def)
  have "sorted (map (\<lambda>r. - the (rs_FinishedAt r)) (sort_key (\<lambda>r. - the (rs_FinishedAt r)) ?f))" by simp
  then have "sorted_wrt (\<lambda>r s. - the (rs_FinishedAt r) \<le> - the (rs_FinishedAt s)) (sort_key (\<lambda>r. - the (rs_FinishedAt r)) ?f)"
    by (simp only: sorted_map)
  then have f: "sorted_wrt before (sort_key (\<lambda>r. - the (rs_FinishedAt r)) ?f)"
    by (rule sorted_wrt_mono_rel[rotated]) (auto simp: before_def)
  show ?thesis unfolding newest_first_def sorted_wrt_append using u f by (auto simp: before_def)
qed

lemma newest_first_set: "set (newest_first rs) = set rs"
  by (auto simp: newest_first_def)

lemma newest_first_length: "length (newest_first rs) = length rs"
  using sum_length_filter_compl[of "\<lambda>r. rs_FinishedAt r = None" rs] by (simp add: newest_first_def del: not_None_eq)

text \<open>
  \<^bold>\<open>The list of runs.\<close> \<open>ListRuns\<close> answers results that are stored, at most as many as asked for (twenty when
  the number is not positive) and all of them when there are no more; they are in order, and a result that
  is left out stands behind every one that is shown.
\<close>

theorem list_runs_newest:
  assumes "reads_ok e" and "names_distinct fs"
  shows "\<exists>rs. ListRuns e limit fs = (Inr rs, made fs)
    \<and> length rs = min (nat (if limit \<le> 0 then 20 else limit)) (card {i. result_at fs i \<noteq> None})
    \<and> (\<forall>r\<in>set rs. \<exists>i. result_at fs i = Some r) \<and> sorted_wrt before rs
    \<and> (\<forall>i r. result_at fs i = Some r \<longrightarrow> r \<in> set rs \<or> (\<forall>s\<in>set rs. before s r))"
proof -
  let ?ids = "runs_of (sort_key fst (entries fs Results))"
  let ?all = "ok_results (map (\<lambda>i. ReadResult e i (made fs)) ?ids)" and ?n = "nat (positive_or 20 limit)"
  let ?rs = "take ?n (newest_first ?all)"
  have rd: "ReadResult e i (made fs) = Inr x \<longleftrightarrow> result_at fs i = Some x" for i x
    using ReadResult_ok[OF assms(1), of i "made fs" x] by simp
  have ids: "{i\<in>set ?ids. \<exists>x. result_at fs i = Some x} = {i. \<exists>x. result_at fs i = Some x}"
    using run_ids(2)[OF assms(2), of _ Results] result_at_file by blast
  note ok = ok_results_read[where read="\<lambda>i. ReadResult e i (made fs)" and at="result_at fs", OF rd run_ids(1)[OF assms(2), of Results]]
  have all: "set ?all = {x. \<exists>i. result_at fs i = Some x}"
    using ok(1) run_ids(2)[OF assms(2), of _ Results] result_at_file by blast
  have len: "length ?all = card {i. result_at fs i \<noteq> None}" using ok(2)[of "\<lambda>_. True"] by (simp add: ids)
  have pos: "0 < positive_or 20 limit" "positive_or 20 limit = (if limit \<le> 0 then 20 else limit)"
    by (simp_all add: positive_or_def)
  have l: "ListRuns e limit fs = (Inr ?rs, made fs)"
    using EnsureDirs_ok[OF assms(1), of fs] assms(1) pos(1)
    by (auto simp: ListRuns_def ListResults_def ReadDir_def reads_ok_def Let_def)
  have "sorted_wrt before (?rs @ drop ?n (newest_first ?all))" using newest_first_sorted by simp
  then have cut: "sorted_wrt before ?rs" "\<forall>x\<in>set ?rs. \<forall>y\<in>set (drop ?n (newest_first ?all)). before x y"
    unfolding sorted_wrt_append by blast+
  have m: "r \<in> set ?rs \<or> r \<in> set (drop ?n (newest_first ?all))" if "result_at fs i = Some r" for i r
  proof -
    have "r \<in> set (newest_first ?all)" using that all newest_first_set by blast
    then show ?thesis by (metis Un_iff append_take_drop_id set_append)
  qed
  have s: "set ?rs \<subseteq> {x. \<exists>i. result_at fs i = Some x}"
    using set_take_subset[of ?n "newest_first ?all"] all newest_first_set by blast
  have "\<forall>i r. result_at fs i = Some r \<longrightarrow> r \<in> set ?rs \<or> (\<forall>s\<in>set ?rs. before s r)" using m cut(2) by blast
  moreover have "length ?rs = min (nat (if limit \<le> 0 then 20 else limit)) (card {i. result_at fs i \<noteq> None})"
    using len pos(2) by (simp add: newest_first_length min.commute del: not_None_eq)
  ultimately show ?thesis using l s cut(1) by blast
qed

lemma list_runs_newest_witness:
  "\<exists>rs. ListRuns (calm_fs new_year) 0 crashed = (Inr rs, made crashed) \<and> length rs = 1"
proof -
  have "{i. result_at crashed i \<noteq> None} = {''a''}" by (auto simp: crashed_views split: if_splits)
  then have "card {i. result_at crashed i \<noteq> None} = 1" by simp
  moreover have "names_distinct crashed" using crashed_views(3) by (simp add: lt_inv_def)
  ultimately show ?thesis using list_runs_newest[of "calm_fs new_year" crashed 0] by (simp del: not_None_eq) blast
qed

end
