(* ===== verification/Join_Race.thy ===== *)
theory Join_Race
  imports Assert_Queue
begin

text \<open>
  \<open>waitingroom.Service.Join\<close> under concurrency. The API server runs each request in a goroutine of
  its own, and nothing but the database and Redis orders them, so a request is a sequence of
  atomic calls: the program counter \<open>join_pc\<close> stands between two calls, and \<open>join_step\<close> is one
  call with the code up to the next. Run alone it is \<open>Join\<close>; run interleaved, the requests form
  the step relation \<open>race_step\<close>.
\<close>

section \<open>One call at a time\<close>

datatype join_pc =
    J_Begin
  | J_Sale saleInfo           \<comment> \<open>the sale is open\<close>
  | J_Absent saleInfo         \<comment> \<open>the user has no entry\<close>
  | J_Room                    \<comment> \<open>the capacity check has passed\<close>
  | J_Number int              \<comment> \<open>a position is drawn\<close>
  | J_Retry error             \<comment> \<open>the \<open>INSERT\<close> has failed\<close>
  | J_Return "(int \<times> bool) result"

fun join_step :: "'r redis_api \<Rightarrow> env \<Rightarrow> string \<Rightarrow> string \<Rightarrow> join_pc \<Rightarrow> 'r world \<Rightarrow> join_pc \<times> 'r world" where
  "join_step R e s u J_Begin w =
     (case getSale (sql_fault e 0) s (dbs w) of
        Inl err \<Rightarrow> (J_Return (Inl err), w)
      | Inr info \<Rightarrow>
          if \<not> saleOpenForQueue (go_now e) info
          then (J_Return (Inl ErrSaleNotOpen), emit (QueueJoins s ''rejected_closed'') w)
          else (J_Sale info, w))"
| "join_step R e s u (J_Sale info) w =
     (case select_position (sql_fault e 1) s u (dbs w) of
        Inr existing \<Rightarrow> (J_Return (Inr (existing, False)), emit (QueueJoins s ''idempotent'') w)
      | Inl err \<Rightarrow> if err \<noteq> NoRows then (J_Return (Inl err), w) else (J_Absent info, w))"
| "join_step R e s u (J_Absent info) w =
     (case r_get R (redis_now e) (QueueSeq (Keys s)) (redis w) of
        Inl err \<Rightarrow> (J_Return (Inl err), w)
      | Inr currentLen \<Rightarrow>
          if room_full info currentLen
          then (J_Return (Inl ErrWaitingRoomFull), emit (QueueJoins s ''rejected_full'') w)
          else (J_Room, w))"
| "join_step R e s u J_Room w =
     (case r_incr R (redis_now e) (QueueSeq (Keys s)) (redis w) of
        (Inl err, rd) \<Rightarrow> (J_Return (Inl err), w\<lparr>redis := rd\<rparr>)
      | (Inr position, rd) \<Rightarrow> (J_Number position, w\<lparr>redis := rd\<rparr>))"
| "join_step R e s u (J_Number position) w =
     (case exec_stmt (sql_fault e 2) (insert_queue_entry (new_queue_row e s u position)) (dbs w) of
        (Inl err, d) \<Rightarrow> (J_Retry err, w\<lparr>dbs := d\<rparr>)
      | (Inr _, d) \<Rightarrow> (J_Return (Inr (position, True)),
          emit (QueueDepth s position) (emit (QueueJoins s ''new'') (w\<lparr>dbs := d\<rparr>))))"
| "join_step R e s u (J_Retry err) w =
     (case select_position (sql_fault e 3) s u (dbs w) of
        Inr existing \<Rightarrow> (J_Return (Inr (existing, False)), w)
      | Inl _ \<Rightarrow> (J_Return (Inl err), w))"
| "join_step R e s u (J_Return r) w = (J_Return r, w)"

section \<open>Concurrent requests\<close>

record join_thread =
  jt_env :: env
  jt_user :: string
  jt_pc :: join_pc

type_synonym 'r race = "'r world \<times> join_thread list"

definition race_move :: "'r redis_api \<Rightarrow> string \<Rightarrow> nat \<Rightarrow> 'r race \<Rightarrow> 'r race" where
  "race_move R s i c =
     (case c of (w, ts) \<Rightarrow>
        (case join_step R (jt_env (ts ! i)) s (jt_user (ts ! i)) (jt_pc (ts ! i)) w of
           (pc, w') \<Rightarrow> (w', ts[i := (ts ! i)\<lparr>jt_pc := pc\<rparr>])))"

inductive race_reach :: "'r redis_api \<Rightarrow> string \<Rightarrow> 'r race \<Rightarrow> 'r race \<Rightarrow> bool" for R s c0 where
  start: "race_reach R s c0 c0"
| move: "race_reach R s c0 c \<Longrightarrow> i < length (snd c) \<Longrightarrow> race_reach R s c0 (race_move R s i c)"

definition request :: "env \<Rightarrow> string \<Rightarrow> join_thread" where
  "request e u = \<lparr>jt_env = e, jt_user = u, jt_pc = J_Begin\<rparr>"

text \<open>A schedule names, move by move, the request that runs.\<close>

fun race_run :: "'r redis_api \<Rightarrow> string \<Rightarrow> nat list \<Rightarrow> 'r race \<Rightarrow> 'r race" where
  "race_run R s [] c = c"
| "race_run R s (i # is) c = race_run R s is (race_move R s i c)"

lemma race_move_length [simp]: "length (snd (race_move R s i c)) = length (snd c)"
  by (simp add: race_move_def split: prod.splits)

lemma race_reach_length: "race_reach R s c0 c \<Longrightarrow> length (snd c) = length (snd c0)"
  by (induction rule: race_reach.induct) simp_all

lemma race_reach_run:
  "race_reach R s c0 c \<Longrightarrow> \<forall>i\<in>set is. i < length (snd c) \<Longrightarrow> race_reach R s c0 (race_run R s is c)"
proof (induction "is" arbitrary: c)
  case (Cons i "is")
  then have "race_reach R s c0 (race_move R s i c)" by (simp add: race_reach.move)
  from Cons.IH[OF this] Cons.prems(2) show ?case by simp
qed simp

section \<open>What a step keeps\<close>

text \<open>The number a request holds.\<close>

definition drawn :: "join_pc \<Rightarrow> int option" where
  "drawn pc = (case pc of J_Number n \<Rightarrow> Some n
     | J_Return (Inr (n, b)) \<Rightarrow> if b then Some n else None | _ \<Rightarrow> None)"

lemma drawn_simps [simp]:
  "drawn J_Begin = None" "drawn (J_Sale info) = None" "drawn (J_Absent info) = None" "drawn J_Room = None"
  "drawn (J_Number n) = Some n" "drawn (J_Retry er) = None" "drawn (J_Return (Inl er)) = None"
  "drawn (J_Return (Inr (n, True))) = Some n" "drawn (J_Return (Inr (n, False))) = None"
  by (simp_all add: drawn_def)

text \<open>
  The kinds of step: one that leaves counter and table alone and draws nothing; the \<open>INCR\<close>; and the
  \<open>INSERT\<close> of the number held.
\<close>

lemma join_step_cases:
  assumes "join_step R e s u pc w = (pc', w')"
  obtains (quiet) "redis w' = redis w" "dbs w' = dbs w" "pc' = J_Room \<longrightarrow> (\<exists>info cur. pc = J_Absent info
        \<and> r_get R (redis_now e) (QueueSeq (Keys s)) (redis w) = Inr cur \<and> \<not> room_full info cur)"
      "pc \<noteq> J_Room" "\<And>info. pc' = J_Absent info \<Longrightarrow> pc = J_Sale info"
      "\<And>info. pc' = J_Sale info \<Longrightarrow> getSale False s (dbs w) = Inr info"
      "drawn pc' = None \<or> drawn pc' = drawn pc"
  | (incr) n rd where "pc = J_Room" "r_incr R (redis_now e) (QueueSeq (Keys s)) (redis w) = (Inr n, rd)"
      "pc' = J_Number n" "w' = w\<lparr>redis := rd\<rparr>"
  | (incr_error) er rd where "pc = J_Room" "r_incr R (redis_now e) (QueueSeq (Keys s)) (redis w) = (Inl er, rd)"
      "pc' = J_Return (Inl er)" "w' = w\<lparr>redis := rd\<rparr>"
  | (insert) n d k where "pc = J_Number n" "insert_queue_entry (new_queue_row e s u n) (dbs w) = Inr (d, k)"
      "redis w' = redis w" "dbs w' = d" "pc' = J_Return (Inr (n, True))"
proof (cases pc)
  case J_Begin
  have "getSale False s (dbs w) = Inr info" if "getSale (sql_fault e 0) s (dbs w) = Inr info" for info
    using that by (auto simp: getSale_def query_row_def split: if_splits)
  with J_Begin assms show ?thesis by (intro that(1)) (auto split: sum.splits if_splits)
next
  case (J_Sale info)
  with assms show ?thesis by (intro that(1)) (auto split: sum.splits if_splits)
next
  case (J_Absent info)
  with assms show ?thesis by (intro that(1)) (auto split: sum.splits if_splits)
next
  case J_Room
  with assms that(2,3) show ?thesis by (auto split: sum.splits prod.splits)
next
  case (J_Number n)
  with assms that(1,4) show ?thesis
    by (auto simp: exec_stmt_def split: sum.splits prod.splits if_splits)
next
  case (J_Retry err)
  with assms show ?thesis by (intro that(1)) (auto split: sum.splits)
next
  case (J_Return r)
  with assms show ?thesis by (intro that(1)) auto
qed

section \<open>Numbers\<close>

text \<open>
  The queue invariant holds between any two calls; the numbers that requests hold were drawn from
  the counter and no two requests hold the same one.
\<close>

definition race_inv :: "keyspace \<Rightarrow> db \<Rightarrow> string \<Rightarrow> join_thread list \<Rightarrow> bool" where
  "race_inv m d s ts \<longleftrightarrow> queue_inv m d
     \<and> (\<forall>i<length ts. \<forall>n. drawn (jt_pc (ts ! i)) = Some n \<longrightarrow> 1 \<le> n \<and> n \<le> queue_seq m s)
     \<and> (\<forall>i<length ts. \<forall>j<length ts. drawn (jt_pc (ts ! i)) \<noteq> None \<longrightarrow>
          drawn (jt_pc (ts ! i)) = drawn (jt_pc (ts ! j)) \<longrightarrow> i = j)"

lemma race_inv_update:
  assumes "race_inv m d s ts" and "i < length ts" and "queue_inv m' d'" and "queue_seq m s \<le> queue_seq m' s"
    and "drawn pc = None \<or> drawn pc = drawn (jt_pc (ts ! i))
      \<or> (drawn pc = Some (queue_seq m s + 1) \<and> queue_seq m' s = queue_seq m s + 1)"
  shows "race_inv m' d' s (ts[i := (ts ! i)\<lparr>jt_pc := pc\<rparr>])"
proof -
  have old: "1 \<le> n \<and> n \<le> queue_seq m s" if "j < length ts" "drawn (jt_pc (ts ! j)) = Some n" for j n
    using assms(1) that by (simp add: race_inv_def)
  have inj: "j = k" if "j < length ts" "k < length ts" "drawn (jt_pc (ts ! j)) = Some n" "drawn (jt_pc (ts ! k)) = Some n" for j k n
    using assms(1) that unfolding race_inv_def by (metis option.distinct(1))
  have seq: "0 \<le> queue_seq m s" using assms(1) by (simp add: race_inv_def queue_inv_def)
  have new: "drawn pc = Some n \<Longrightarrow> 1 \<le> n \<and> n \<le> queue_seq m' s" for n
    using assms(2,4,5) old[of i n] seq by auto
  have clash: "j = i" if "j < length ts" "drawn (jt_pc (ts ! j)) = Some n" "drawn pc = Some n" for j n
    using assms(2,5) old[OF that(1,2)] inj[OF that(1) assms(2) that(2)] that(3) by auto
  show ?thesis unfolding race_inv_def
  proof (intro conjI allI impI)
    fix j n assume "j < length (ts[i := (ts ! i)\<lparr>jt_pc := pc\<rparr>])" "drawn (jt_pc (ts[i := (ts ! i)\<lparr>jt_pc := pc\<rparr>] ! j)) = Some n"
    then show "1 \<le> n" "n \<le> queue_seq m' s"
      using old[of j n] new[of n] assms(2,4) by (auto simp: nth_list_update split: if_splits)
  next
    fix j k assume "j < length (ts[i := (ts ! i)\<lparr>jt_pc := pc\<rparr>])" "k < length (ts[i := (ts ! i)\<lparr>jt_pc := pc\<rparr>])"
      "drawn (jt_pc (ts[i := (ts ! i)\<lparr>jt_pc := pc\<rparr>] ! j)) \<noteq> None"
      "drawn (jt_pc (ts[i := (ts ! i)\<lparr>jt_pc := pc\<rparr>] ! j)) = drawn (jt_pc (ts[i := (ts ! i)\<lparr>jt_pc := pc\<rparr>] ! k))"
    then show "j = k"
      using inj[of j k] clash[of j] clash[of k] assms(2) by (auto simp: nth_list_update split: if_splits)
  qed (rule assms(3))
qed

context redis_server begin

text \<open>One move of the request \<open>i\<close>, seen from the counter.\<close>

lemma race_move_facts:
  assumes inv: "race_inv (alpha (redis w)) (dbs w) s ts" and i: "i < length ts"
    and mv: "race_move R s i (w, ts) = (w', ts')"
  shows "race_inv (alpha (redis w')) (dbs w') s ts' \<and> sales (dbs w') = sales (dbs w)
    \<and> queue_seq (alpha (redis w)) s \<le> queue_seq (alpha (redis w')) s
    \<and> (\<exists>pc. ts' = ts[i := (ts ! i)\<lparr>jt_pc := pc\<rparr>] \<and> (drawn pc = None \<or> drawn pc = drawn (jt_pc (ts ! i))
         \<or> drawn pc = Some (queue_seq (alpha (redis w)) s + 1)))"
proof -
  let ?t = "ts ! i"
  obtain pc where st: "join_step R (jt_env ?t) s (jt_user ?t) (jt_pc ?t) w = (pc, w')"
    and ts': "ts' = ts[i := ?t\<lparr>jt_pc := pc\<rparr>]"
    using mv by (auto simp: race_move_def split: prod.splits)
  have q: "queue_inv (alpha (redis w)) (dbs w)" using inv by (simp add: race_inv_def)
  have "queue_inv (alpha (redis w')) (dbs w') \<and> sales (dbs w') = sales (dbs w)
    \<and> queue_seq (alpha (redis w)) s \<le> queue_seq (alpha (redis w')) s
    \<and> (drawn pc = None \<or> drawn pc = drawn (jt_pc ?t)
      \<or> (drawn pc = Some (queue_seq (alpha (redis w)) s + 1) \<and> queue_seq (alpha (redis w')) s = queue_seq (alpha (redis w)) s + 1))"
    using st
  proof (cases rule: join_step_cases)
    case quiet
    with q show ?thesis by auto
  next
    case (incr n rd)
    with incr_queue_seq[OF incr(2) q] show ?thesis by simp
  next
    case (incr_error er rd)
    have p: "persistent (alpha (redis w)) (QueueSeq (Keys s))" using q by (simp add: queue_inv_def)
    have "queue_seq (alpha (redis w)) s \<le> queue_seq (alpha rd) s"
      using incr_err_counter(2)[OF incr_error(2) p] by (auto simp: queue_seq_def)
    with incr_error incr_err_queue_inv[OF incr_error(2) q] show ?thesis by simp
  next
    case (insert n d k)
    have "1 \<le> n \<and> n \<le> queue_seq (alpha (redis w)) s"
      using inv i insert(1) by (simp add: race_inv_def)
    then have "queue_inv (alpha (redis w)) d"
      using queue_inv_insert[OF q insert(2)] by (simp add: new_row_simps)
    with insert insert_queue_entry_Inr(1)[OF insert(2)] show ?thesis by simp
  qed
  with race_inv_update[OF inv i, of "alpha (redis w')" "dbs w'" pc] ts' show ?thesis by blast
qed

text \<open>Along a run: a request that had no number and has one now drew it after the run began.\<close>

lemma race_reach_facts:
  assumes "race_reach R s c0 c" and "race_inv (alpha (redis (fst c0))) (dbs (fst c0)) s (snd c0)"
  shows "race_inv (alpha (redis (fst c))) (dbs (fst c)) s (snd c)
    \<and> sales (dbs (fst c)) = sales (dbs (fst c0))
    \<and> queue_seq (alpha (redis (fst c0))) s \<le> queue_seq (alpha (redis (fst c))) s
    \<and> (\<forall>j<length (snd c). \<forall>m. drawn (jt_pc (snd c0 ! j)) = None \<longrightarrow> drawn (jt_pc (snd c ! j)) = Some m
         \<longrightarrow> queue_seq (alpha (redis (fst c0))) s < m)"
  using assms
proof (induction rule: race_reach.induct)
  case (move c i)
  obtain w ts where c: "c = (w, ts)" by (cases c)
  obtain w' ts' where mv: "race_move R s i (w, ts) = (w', ts')" by fastforce
  note IH = move.IH[OF move.prems, unfolded c, simplified]
  have i: "i < length ts" using move.hyps(2) c by simp
  obtain pc where f: "race_inv (alpha (redis w')) (dbs w') s ts'" "sales (dbs w') = sales (dbs w)"
    "queue_seq (alpha (redis w)) s \<le> queue_seq (alpha (redis w')) s" "ts' = ts[i := (ts ! i)\<lparr>jt_pc := pc\<rparr>]"
    "drawn pc = None \<or> drawn pc = drawn (jt_pc (ts ! i)) \<or> drawn pc = Some (queue_seq (alpha (redis w)) s + 1)"
    using race_move_facts[OF _ i mv] IH by blast
  have "queue_seq (alpha (redis (fst c0))) s < m"
    if "j < length ts" "drawn (jt_pc (snd c0 ! j)) = None" "drawn (jt_pc (ts' ! j)) = Some m" for j m
    using that IH f(4,5) i by (cases "j = i") auto
  with IH f show ?case by (simp add: c mv)
qed simp

end

section \<open>The capacity check\<close>

definition in_room :: "join_thread list \<Rightarrow> nat" where
  "in_room ts = length (filter (\<lambda>t. jt_pc t = J_Room) ts)"

lemma in_room_le: "in_room ts \<le> length ts"
  by (simp add: in_room_def)

lemma filter_update_count:
  "i < length ts \<Longrightarrow> length (filter P (ts[i := t])) + (if P (ts ! i) then 1 else 0)
     = length (filter P ts) + (if P t then 1 else 0)"
proof (induction ts arbitrary: i)
  case (Cons x ts)
  show ?case
  proof (cases i)
    case (Suc j)
    with Cons.prems Cons.IH[of j] show ?thesis by (cases "P x") simp_all
  qed simp
qed simp

text \<open>Every request checks against the capacity \<open>cap\<close> of the sale.\<close>

definition caps :: "int \<Rightarrow> string \<Rightarrow> 'r race \<Rightarrow> bool" where
  "caps cap s c \<longleftrightarrow> (\<forall>info. getSale False s (dbs (fst c)) = Inr info \<longrightarrow> WaitingRoomCap info = cap)
     \<and> (\<forall>i<length (snd c). \<forall>info. jt_pc (snd c ! i) \<in> {J_Sale info, J_Absent info} \<longrightarrow> WaitingRoomCap info = cap)"

lemma getSale_sales: "sales d' = sales d \<Longrightarrow> getSale flt s d' = getSale flt s d"
  by (simp add: getSale_def)

context redis_server begin

lemma race_move_room:
  assumes inv: "race_inv (alpha (redis w)) (dbs w) s ts" and i: "i < length ts" and cap: "1 \<le> cap" and c: "caps cap s (w, ts)"
    and mv: "race_move R s i (w, ts) = (w', ts')"
    and room: "queue_seq (alpha (redis w)) s + int (in_room ts) \<le> max B (cap - 1 + int (length ts))"
  shows "caps cap s (w', ts')
    \<and> queue_seq (alpha (redis w')) s + int (in_room ts') \<le> max B (cap - 1 + int (length ts))"
proof -
  let ?t = "ts ! i" and ?seq = "queue_seq (alpha (redis w)) s"
  obtain pc where st: "join_step R (jt_env ?t) s (jt_user ?t) (jt_pc ?t) w = (pc, w')"
    and ts': "ts' = ts[i := ?t\<lparr>jt_pc := pc\<rparr>]"
    using mv by (auto simp: race_move_def split: prod.splits)
  have q: "queue_inv (alpha (redis w)) (dbs w)" using inv by (simp add: race_inv_def)
  have p: "persistent (alpha (redis w)) (QueueSeq (Keys s))" using q by (simp add: queue_inv_def)
  have sal: "sales (dbs w') = sales (dbs w)" using race_move_facts[OF inv i mv] by blast
  have cnt: "in_room ts' + (if jt_pc ?t = J_Room then 1 else 0) = in_room ts + (if pc = J_Room then 1 else 0)"
    using filter_update_count[OF i, of "\<lambda>t. jt_pc t = J_Room" "?t\<lparr>jt_pc := pc\<rparr>"] by (simp add: in_room_def ts')
  have mine: "jt_pc ?t \<in> {J_Sale info, J_Absent info} \<Longrightarrow> WaitingRoomCap info = cap" for info
    using c i by (auto simp: caps_def)
  have new: "pc \<in> {J_Sale info, J_Absent info} \<Longrightarrow> WaitingRoomCap info = cap" for info
    using st
  proof (cases rule: join_step_cases)
    case quiet
    assume "pc \<in> {J_Sale info, J_Absent info}"
    then show ?thesis
    proof (elim insertE emptyE)
      assume "pc = J_Sale info"
      from quiet(6)[OF this] c show ?thesis by (simp add: caps_def)
    next
      assume "pc = J_Absent info"
      from quiet(5)[OF this] mine show ?thesis by simp
    qed
  qed auto
  have "caps cap s (w', ts')"
    using c new i unfolding caps_def fst_conv snd_conv getSale_sales[OF sal]
    by (auto simp: ts' nth_list_update)
  moreover have "queue_seq (alpha (redis w')) s + int (in_room ts') \<le> max B (cap - 1 + int (length ts))"
    using st
  proof (cases rule: join_step_cases)
    case quiet
    show ?thesis
    proof (cases "pc = J_Room")
      case True
      then obtain info cur where x: "jt_pc ?t = J_Absent info"
        "r_get R (redis_now (jt_env ?t)) (QueueSeq (Keys s)) (redis w) = Inr cur" "\<not> room_full info cur"
        using quiet(3) by blast
      have "WaitingRoomCap info = cap" using mine x(1) by simp
      moreover have "(case cur of None \<Rightarrow> 0 | Some n \<Rightarrow> n) = ?seq"
        using get_counter[OF x(2) p] by (simp add: queue_seq_def)
      ultimately have "?seq \<le> cap - 1" using x(3) cap by (auto simp: room_full_def split: option.splits)
      moreover have "in_room ts' \<le> length ts" using in_room_le[of ts'] by (simp add: ts')
      ultimately show ?thesis using quiet(1) by simp
    qed (use quiet cnt room in simp)
  next
    case (incr n rd)
    with incr_queue_seq[OF incr(2) q] cnt room show ?thesis by simp
  next
    case (incr_error er rd)
    have "queue_seq (alpha rd) s \<le> ?seq + 1"
      using incr_err_counter(2)[OF incr_error(2) p] by (auto simp: queue_seq_def)
    with incr_error cnt room show ?thesis by simp
  next
    case (insert n d k)
    with cnt room show ?thesis by simp
  qed
  ultimately show ?thesis by blast
qed

lemma race_reach_room:
  assumes "race_reach R s c0 c" and "race_inv (alpha (redis (fst c0))) (dbs (fst c0)) s (snd c0)"
    and "1 \<le> cap" and "caps cap s c0" and "in_room (snd c0) = 0"
  shows "caps cap s c \<and> queue_seq (alpha (redis (fst c))) s + int (in_room (snd c))
    \<le> max (queue_seq (alpha (redis (fst c0))) s) (cap - 1 + int (length (snd c0)))"
  using assms
proof (induction rule: race_reach.induct)
  case (move c i)
  obtain w ts where c: "c = (w, ts)" by (cases c)
  obtain w' ts' where mv: "race_move R s i (w, ts) = (w', ts')" by fastforce
  have "race_inv (alpha (redis w)) (dbs w) s ts"
    using race_reach_facts[OF move.hyps(1) move.prems(1)] c by simp
  moreover have "i < length ts" "length ts = length (snd c0)"
    using move.hyps(2) race_reach_length[OF move.hyps(1)] c by simp_all
  ultimately show ?case
    using race_move_room[OF _ _ move.prems(2) _ mv, of "queue_seq (alpha (redis (fst c0))) s"] move.IH[OF move.prems]
    by (simp add: c mv)
qed simp

end

section \<open>Properties\<close>

text \<open>
  \<^bold>\<open>The steps are \<open>Join\<close>.\<close> A request that runs without others, six calls at most, ends with the
  answer and the state of \<open>Join\<close>.
\<close>

theorem alone_is_join:
  "race_run R s (replicate 6 0) (w, [request e u]) =
     (snd (Join R e s u w), [(request e u)\<lparr>jt_pc := J_Return (fst (Join R e s u w))\<rparr>])"
proof -
  have mv: "race_move R s 0 (w, [(request e u)\<lparr>jt_pc := pc\<rparr>])
      = (snd (join_step R e s u pc w), [(request e u)\<lparr>jt_pc := fst (join_step R e s u pc w)\<rparr>])" for pc w
    by (simp add: race_move_def request_def split: prod.splits)
  have fin: "race_run R s (replicate n 0) (w, [(request e u)\<lparr>jt_pc := J_Return r\<rparr>])
      = (w, [(request e u)\<lparr>jt_pc := J_Return r\<rparr>])" for n w r
    by (induction n) (simp_all add: mv)
  have stop: "join_step R e s u (J_Return r) w = (J_Return r, w)" for r w by simp
  have ins: "race_run R s (replicate 2 0) (w, [(request e u)\<lparr>jt_pc := J_Number n\<rparr>])
      = (snd (join_insert e s u n w), [(request e u)\<lparr>jt_pc := J_Return (fst (join_insert e s u n w))\<rparr>])" for n w
    by (simp add: numeral_2_eq_2 mv join_insert_def split: prod.splits sum.splits)
  have three: "replicate 3 0 = 0 # replicate 2 (0::nat)" by (simp add: eval_nat_numeral)
  have room: "race_run R s (replicate 3 0) (w, [(request e u)\<lparr>jt_pc := J_Room\<rparr>])
      = (case r_incr R (redis_now e) (QueueSeq (Keys s)) (redis w) of
           (Inl err, rd) \<Rightarrow> (w\<lparr>redis := rd\<rparr>, [(request e u)\<lparr>jt_pc := J_Return (Inl err)\<rparr>])
         | (Inr n, rd) \<Rightarrow> (snd (join_insert e s u n (w\<lparr>redis := rd\<rparr>)),
             [(request e u)\<lparr>jt_pc := J_Return (fst (join_insert e s u n (w\<lparr>redis := rd\<rparr>)))\<rparr>]))" for w
    unfolding three by (simp add: mv ins fin split: prod.splits sum.splits)
  have six: "replicate 6 0 = 0 # 0 # 0 # replicate 3 (0::nat)" by (simp add: eval_nat_numeral)
  have req: "request e u = (request e u)\<lparr>jt_pc := J_Begin\<rparr>" by (simp add: request_def)
  show ?thesis
    unfolding six by (subst req) (simp add: mv fin room Join_def split: sum.splits prod.splits)
qed

text \<open>
  C6. \<^bold>\<open>Numbers are unique and in the order of the draws, under every interleaving.\<close> In every
  reachable state the queue invariant holds and no two requests hold the same number; and a
  request that draws its number after another has drawn one gets the larger number.
\<close>

theorem race_numbers:
  assumes "redis_server R alpha" and "queue_inv (alpha (redis w)) (dbs w)"
    and "race_reach R s (w, map (\<lambda>(e, u). request e u) reqs) c1" and "race_reach R s c1 c2"
    and "i < length reqs" and "j < length reqs" and "drawn (jt_pc (snd c1 ! i)) = Some n"
  shows "queue_inv (alpha (redis (fst c2))) (dbs (fst c2))
    \<and> (drawn (jt_pc (snd c1 ! j)) = Some n \<longrightarrow> j = i)
    \<and> (drawn (jt_pc (snd c1 ! j)) = None \<longrightarrow> (\<forall>m. drawn (jt_pc (snd c2 ! j)) = Some m \<longrightarrow> n < m))"
proof -
  let ?c0 = "(w, map (\<lambda>(e, u). request e u) reqs)"
  have "race_inv (alpha (redis (fst ?c0))) (dbs (fst ?c0)) s (snd ?c0)"
    using assms(2) by (auto simp: race_inv_def request_def case_prod_beta)
  note i1 = redis_server.race_reach_facts[OF assms(1,3) this]
  have len: "length (snd c1) = length reqs" using race_reach_length[OF assms(3)] by simp
  note i2 = redis_server.race_reach_facts[OF assms(1,4) conjunct1[OF i1]]
  have len2: "length (snd c2) = length reqs" using race_reach_length[OF assms(4)] len by simp
  have "n \<le> queue_seq (alpha (redis (fst c1))) s"
    using i1 assms(5,7) len by (simp add: race_inv_def)
  moreover have inj: "\<forall>a<length (snd c1). \<forall>b<length (snd c1). drawn (jt_pc (snd c1 ! a)) \<noteq> None \<longrightarrow>
      drawn (jt_pc (snd c1 ! a)) = drawn (jt_pc (snd c1 ! b)) \<longrightarrow> a = b"
    using i1 unfolding race_inv_def by blast
  have "j = i" if "drawn (jt_pc (snd c1 ! j)) = Some n"
    using inj assms(5-7) len that by simp
  moreover have "queue_inv (alpha (redis (fst c2))) (dbs (fst c2))"
    using i2 unfolding race_inv_def by blast
  moreover have "queue_seq (alpha (redis (fst c1))) s < m"
    if "drawn (jt_pc (snd c1 ! j)) = None" "drawn (jt_pc (snd c2 ! j)) = Some m" for m
    using i2[unfolded len2] assms(6) that by blast
  ultimately show ?thesis by (meson order.strict_trans1)
qed


text \<open>Two requests for a room of one. The first to count is the last to store its row.\<close>

definition small_world :: "keyspace world" where
  "small_world = demo_world\<lparr>dbs := demo_db\<lparr>sales := [(demo_sale ''A'')\<lparr>s_waiting_room_cap := 1\<rparr>]\<rparr>\<rparr>"

definition two_requests :: "(env \<times> string) list" where
  "two_requests = [(calm_env 300 ''q'', ''u1''), (calm_env 200 ''r'', ''u2'')]"

definition raced :: "keyspace race" where
  "raced = race_run mem_redis ''A'' [0, 0, 0, 1, 1, 1, 0, 1, 1, 0]
     (small_world, map (\<lambda>(e, u). request e u) two_requests)"

lemma raced_reach: "race_reach mem_redis ''A'' (small_world, map (\<lambda>(e, u). request e u) two_requests) raced"
  unfolding raced_def by (rule race_reach_run[OF race_reach.start]) (simp add: two_requests_def)

lemma raced_eq:
  "map (\<lambda>q. (q_user_id q, q_position q, q_joined_at q)) (queue_entries (dbs (fst raced)))
     = [(''u2'', 2, 200), (''u1'', 1, 300)]
   \<and> list_all (\<lambda>q. q_sale_id q = ''A'') (queue_entries (dbs (fst raced)))
   \<and> queue_seq (redis (fst raced)) ''A'' = 2 \<and> map (drawn \<circ> jt_pc) (snd raced) = [Some 1, Some 2]"
  by (simp add: raced_def race_move_def two_requests_def request_def small_world_def wr_eval redis_eval demo_defs
      queue_seq_def counter_def)

lemma small_inv: "queue_inv (redis small_world) (dbs small_world)"
  using demo_queue_inv by (simp add: queue_inv_def queue_unique_def small_world_def demo_world_def demo_db_def empty_db_def)

lemma small_sale: "getSale False ''A'' (dbs small_world) = Inr \<lparr>Phase = General_sale, OpensAt = 100,
    AdmitPerMinute = 60, WaitingRoomCap = 1\<rparr>"
  by (simp add: getSale_def query_row_def small_world_def demo_sale_def)

theorem race_numbers_witness:
  "\<exists>c1. race_reach mem_redis ''A'' (small_world, map (\<lambda>(e, u). request e u) two_requests) c1
     \<and> drawn (jt_pc (snd c1 ! 0)) = Some 1 \<and> queue_inv (redis (fst c1)) (dbs (fst c1))"
proof -
  have d: "drawn (jt_pc (snd raced ! 0)) = Some 1"
  proof -
    have "map (drawn \<circ> jt_pc) (snd raced) = [Some 1, Some 2]" using raced_eq by blast
    then show ?thesis by (auto simp: map_eq_Cons_conv)
  qed
  have "queue_inv (redis (fst raced)) (dbs (fst raced))"
    using race_numbers[OF mem_redis_server small_inv raced_reach race_reach.start _ _ d, of 0]
    by (simp add: two_requests_def)
  with d raced_reach show ?thesis by blast
qed


text \<open>
  C20. \<^bold>\<open>Concurrent joins can overfill the room and fail the audit.\<close> The bound is reached, and the
  audit's premise that storing order is numbering order is not guaranteed: there are two requests
  and an interleaving of them, with a Redis server that never fails, after which a room of one has
  two entries and \<open>assert-queue\<close> exits with 1, though the database clock never goes back.
\<close>

theorem race_overfills_and_fails_audit:
  "\<exists>w reqs c info. race_reach mem_redis ''A'' (w, map (\<lambda>(e, u). request e u) reqs) c
    \<and> length reqs = 2 \<and> getSale False ''A'' (dbs w) = Inr info \<and> WaitingRoomCap info = 1
    \<and> queue_entries (dbs w) = [] \<and> queue_inv (redis w) (dbs w)
    \<and> sorted (map q_joined_at (queue_entries (dbs (fst c))))
    \<and> length (sale_entries ''A'' (dbs (fst c))) = 2 \<and> assert_queue False ''A'' (dbs (fst c)) = 1"
proof -
  have inv: "race_inv (redis (fst (small_world, map (\<lambda>(e, u). request e u) two_requests)))
      (dbs (fst (small_world, map (\<lambda>(e, u). request e u) two_requests))) ''A''
      (snd (small_world, map (\<lambda>(e, u). request e u) two_requests))"
    using small_inv by (auto simp: race_inv_def request_def case_prod_beta)
  have u: "queue_unique (dbs (fst raced))"
    using redis_server.race_reach_facts[OF mem_redis_server raced_reach inv] by (simp add: race_inv_def queue_inv_def)
  obtain x y where q: "queue_entries (dbs (fst raced)) = [x, y]" "q_position x = 2" "q_joined_at x = 200"
    "q_position y = 1" "q_joined_at y = 300"
    using raced_eq by (auto simp: map_eq_Cons_conv)
  moreover have "sale_entries ''A'' (dbs (fst raced)) = [x, y]"
    using raced_eq q(1) by (simp add: sale_entries_def)
  ultimately have "assert_queue False ''A'' (dbs (fst raced)) = 1"
    using assert_queue_0[OF u, of "''A''"] assert_queue_01[of "''A''" False "dbs (fst raced)"] by simp
  with q raced_reach small_inv small_sale \<open>sale_entries ''A'' (dbs (fst raced)) = [x, y]\<close> show ?thesis
    by (intro exI[of _ small_world] exI[of _ two_requests] exI[of _ raced]
        exI[of _ "\<lparr>Phase = General_sale, OpensAt = 100, AdmitPerMinute = 60, WaitingRoomCap = 1\<rparr>"])
      (simp add: two_requests_def small_world_def demo_db_def empty_db_def)
qed

end
