(* ===== verification/Submit_Race.thy ===== *)
theory Submit_Race
  imports Loadqueue
begin

text \<open>
  \<open>Submit\<close> taken apart: it counts the jobs of the queue and then, in a second step, writes its own. Here any
  number of requests and the ticks of the runner are interleaved between these steps, as the goroutines
  of the API and the runner's process are.
\<close>

section \<open>The steps\<close>

text \<open>
  A request stands before its check, between the check and the write, or has its answer. \<open>submission\<close> is
  what a request brings: its environment, the identifier that \<open>uuid\<close> draws for it and its body.
\<close>

datatype submit_pc = S_Begin | S_Write | S_Return "job result"

record submission =
  sb_env :: fs_env
  sb_id :: string
  sb_req :: run_request

text \<open>The first step, up to the decision to accept.\<close>

definition submit_check :: "fs_env \<Rightarrow> limits \<Rightarrow> run_request \<Rightarrow> files \<Rightarrow> submit_pc \<times> files" where
  "submit_check e l req fs =
     (if \<not> ValidScenario (rr_Scenario req) then (S_Return (Inl (ErrInvalidScenario (rr_Scenario req))), fs)
      else case CountActive e fs of
        (Inl err, fs1) \<Rightarrow> (S_Return (Inl err), fs1)
      | (Inr (pending, running), fs1) \<Rightarrow>
          (case CanAccept l pending running of
             Inl err \<Rightarrow> (S_Return (Inl err), fs1)
           | Inr _ \<Rightarrow> (S_Write, fs1)))"

text \<open>
  One step: a request looks, a request writes, or the runner, between its own faultless calls, ticks. The
  last premise of \<open>s_check\<close> says that the two counts of a directory fit into Go's \<open>int\<close>.
\<close>

inductive submit_step ::
  "k6_process \<Rightarrow> runner \<Rightarrow> limits \<Rightarrow> submission list \<Rightarrow> files \<times> submit_pc list \<Rightarrow> files \<times> submit_pc list \<Rightarrow> bool"
  for k6 rn l rqs where
  s_check: "k < length pcs \<Longrightarrow> pcs ! k = S_Begin \<Longrightarrow>
    submit_check (sb_env (rqs ! k)) l (sb_req (rqs ! k)) fs = (pc, fs') \<Longrightarrow>
    int (card (pending_ids fs)) + int (card (running_ids (fs_now (sb_env (rqs ! k))) fs)) < 2 ^ 63 \<Longrightarrow>
    submit_step k6 rn l rqs (fs, pcs) (fs', pcs[k := pc])"
| s_write: "k < length pcs \<Longrightarrow> pcs ! k = S_Write \<Longrightarrow>
    enqueue (sb_env (rqs ! k)) (sb_id (rqs ! k)) l (sb_req (rqs ! k)) fs = (r, fs') \<Longrightarrow>
    submit_step k6 rn l rqs (fs, pcs) (fs', pcs[k := S_Return r])"
| s_tick: "no_fs_faults e1 \<Longrightarrow> no_fs_faults e2 \<Longrightarrow> time_ok (fs_now e1) \<Longrightarrow> time_ok (fs_now e2) \<Longrightarrow>
    submit_step k6 rn l rqs (fs, pcs) (runner_tick k6 rn (e1, e2) fs, pcs)"

text \<open>A request that runs without others is \<open>Submit\<close>.\<close>

lemma submit_alone:
  "Submit e i l req fs = (case submit_check e l req fs of
     (S_Return r, fs') \<Rightarrow> (r, fs') | (_, fs') \<Rightarrow> enqueue e i l req fs')"
  by (simp add: Submit_def submit_check_def split: sum.split prod.split)

section \<open>How far the queue can be exceeded\<close>

definition writing :: "submit_pc list \<Rightarrow> nat" where
  "writing pcs = length (filter (\<lambda>pc. pc = S_Write) pcs)"

lemma writing_update:
  "k < length pcs \<Longrightarrow> writing (pcs[k := pc]) + (if pcs ! k = S_Write then 1 else 0)
     = writing pcs + (if pc = S_Write then 1 else 0)"
  unfolding writing_def by (rule filter_update)

lemma writing_le: "writing pcs \<le> length pcs"
  by (simp add: writing_def)

definition submit_inv :: "limits \<Rightarrow> submission list \<Rightarrow> files \<times> submit_pc list \<Rightarrow> bool" where
  "submit_inv l rqs st \<longleftrightarrow> lt_inv (fst st) \<and> length (snd st) = length rqs
     \<and> int (card (pending_ids (fst st))) + int (writing (snd st)) \<le> maxQ l + int (length rqs) - 1"

text \<open>Requests whose reads succeed and whose jobs can be written down; their writes may fail.\<close>

definition good_submission :: "limits \<Rightarrow> submission \<Rightarrow> bool" where
  "good_submission l rq \<longleftrightarrow> reads_ok (sb_env rq) \<and> good_job (new_job (fs_now (sb_env rq)) (sb_id rq) (Apply l (sb_req rq)))"

lemma submit_check_accepts:
  assumes "submit_check e l req fs = (pc, fs')" and "reads_ok e" and "lt_inv fs"
    and "int (card (pending_ids fs)) + int (card (running_ids (fs_now e) fs)) < 2 ^ 63"
  shows "(fs' = fs \<or> fs' = made fs) \<and> (pc = S_Write \<longrightarrow> int (card (pending_ids fs)) < maxQ l)"
proof -
  let ?p = "int (card (pending_ids fs))" and ?r = "int (card (running_ids (fs_now e) fs))"
  have c: "CountActive e fs = (Inr (?p, ?r), made fs)"
    using CountActive_ok[OF assms(2)] assms(3) by (simp add: lt_inv_def)
  have i: "int64 (?p + ?r) = ?p + ?r" using assms(4) by (intro int64_id) (simp add: in_int64_def)
  show ?thesis using assms(1)
    by (auto simp: submit_check_def c CanAccept_def maxQ_def Let_def i split: if_splits)
qed

lemma submit_step_inv:
  assumes "submit_step k6 rn l rqs st st'" and "submit_inv l rqs st" and "k6_tame k6"
    and "\<forall>rq\<in>set rqs. good_submission l rq"
  shows "submit_inv l rqs st'"
  using assms(1)
proof (cases rule: submit_step.cases)
  case (s_check k pcs fs pc fs')
  have inv: "lt_inv fs" "length pcs = length rqs" "int (card (pending_ids fs)) + int (writing pcs) \<le> maxQ l + int (length rqs) - 1"
    using assms(2) s_check by (simp_all add: submit_inv_def)
  have "reads_ok (sb_env (rqs ! k))" using assms(4) s_check(3) inv(2) by (simp add: good_submission_def)
  note a = submit_check_accepts[OF s_check(5) this inv(1) s_check(6)]
  note u = writing_update[OF s_check(3), of pc]
  have "int (writing (pcs[k := pc])) \<le> int (length rqs)" using writing_le[of "pcs[k := pc]"] inv(2) by simp
  then have "int (card (pending_ids fs)) + int (writing (pcs[k := pc])) \<le> maxQ l + int (length rqs) - 1"
    using a inv(3) u s_check(4) by (cases "pc = S_Write") auto
  then show ?thesis using a inv(1,2) s_check(2) by (auto simp: submit_inv_def)
next
  case (s_write k pcs fs r fs')
  let ?rq = "rqs ! k"
  have inv: "lt_inv fs" "length pcs = length rqs" "int (card (pending_ids fs)) + int (writing pcs) \<le> maxQ l + int (length rqs) - 1"
    using assms(2) s_write by (simp_all add: submit_inv_def)
  have g: "good_job (new_job (fs_now (sb_env ?rq)) (sb_id ?rq) (Apply l (sb_req ?rq)))"
    using assms(4) s_write(3) inv(2) by (simp add: good_submission_def)
  note en = enqueue_keeps[OF g s_write(5) inv(1)]
  have "finite (pending_ids fs)" using inv(1) by (simp add: lt_inv_def finite_pending)
  then have "card (pending_ids fs') \<le> card (insert (sb_id ?rq) (pending_ids fs))" using en(2) by (intro card_mono) simp_all
  also have "\<dots> \<le> Suc (card (pending_ids fs))" by (rule card_insert_le_m1) simp_all
  finally have "card (pending_ids fs') \<le> Suc (card (pending_ids fs))" .
  moreover have "writing (pcs[k := S_Return r]) + 1 = writing pcs" using writing_update[OF s_write(3), of "S_Return r"] s_write(4) by simp
  ultimately show ?thesis using inv en(1) s_write(2) by (auto simp: submit_inv_def)
next
  case (s_tick e1 e2 fs pcs)
  have inv: "lt_inv fs" using assms(2) s_tick by (simp add: submit_inv_def)
  show ?thesis
  proof (cases rule: runner_tick_cases[OF inv assms(3) s_tick(3-6), of rn])
    case 1
    then show ?thesis using assms(2) s_tick by (simp add: submit_inv_def)
  next
    case (2 i r)
    have "finite (pending_ids fs)" using inv by (simp add: lt_inv_def finite_pending)
    then have "card (pending_ids (runner_tick k6 rn (e1, e2) fs)) \<le> card (pending_ids fs)"
      using done_as_effect(1)[OF 2(2,3)] by (simp add: card_Diff1_le)
    then show ?thesis using done_as_effect(5)[OF 2(2,3) inv] assms(2) s_tick by (simp add: submit_inv_def)
  qed
qed


text \<open>Two requests and a queue for one job: both look, both write, and two jobs are pending.\<close>

definition two_requests :: "submission list" where
  "two_requests = map (\<lambda>i. \<lparr>sb_env = calm_fs new_year, sb_id = i, sb_req = a_request\<rparr>) [''a'', ''b'']"

definition one_place :: limits where
  "one_place = DefaultLimits\<lparr>MaxQueueDepth := 1\<rparr>"

lemma one_place_simps [simp]: "maxQ one_place = 1" "good_job (new_job new_year i (Apply one_place a_request))"
proof -
  show "maxQ one_place = 1" by (simp add: one_place_def maxQ_def positive_or_def)
  have "Apply one_place a_request = Apply DefaultLimits a_request" by (simp add: one_place_def Apply_def cap_vus_def cap_steady_def split: option.split)
  then show "good_job (new_job new_year i (Apply one_place a_request))" by simp
qed

lemma two_requests_simps [simp]: "length two_requests = 2" "two_requests \<noteq> []"
    "sb_env (two_requests ! 0) = calm_fs new_year" "sb_req (two_requests ! 0) = a_request" "sb_id (two_requests ! 0) = ''a''"
    "sb_env (two_requests ! Suc 0) = calm_fs new_year" "sb_req (two_requests ! Suc 0) = a_request" "sb_id (two_requests ! Suc 0) = ''b''"
    "\<forall>rq\<in>set two_requests. good_submission one_place rq"
  by (simp_all add: two_requests_def good_submission_def)

lemma both_look:
  "pending_ids fs = {} \<Longrightarrow> running_ids new_year fs = {} \<Longrightarrow> names_distinct fs \<Longrightarrow>
    submit_check (calm_fs new_year) one_place a_request fs = (S_Write, made fs)"
  using CountActive_ok[of "calm_fs new_year" fs]
  by (simp add: submit_check_def CanAccept_def positive_or_def one_place_def DefaultLimits_def Let_def int64_id in_int64_def)

lemma two_pending:
  obtains fs r where "(submit_step silent_k6 a_runner one_place two_requests)\<^sup>*\<^sup>*
      (no_files, map (\<lambda>_. S_Begin) two_requests) (fs, r)" and "pending_ids fs = {''a'', ''b''}"
proof -
  let ?step = "submit_step silent_k6 a_runner one_place two_requests" and ?e = "calm_fs new_year"
  let ?j = "\<lambda>i. new_job new_year i (Apply one_place a_request)"
  have n: "names_distinct no_files" "no_dirs no_files" by (simp_all add: names_distinct_def no_dirs_def)
  then have m: "names_distinct (made no_files)" "no_dirs (made no_files)" by (simp_all add: no_dirs_def)
  obtain fs1 where w1: "enqueue ?e ''a'' one_place a_request (made no_files) = (Inr (?j ''a''), fs1)" "job_at fs1 ''a'' = Some (?j ''a'')"
    "\<forall>k. k \<noteq> ''a'' \<longrightarrow> job_at fs1 k = job_at (made no_files) k" "\<forall>k. result_at fs1 k = result_at (made no_files) k"
    "names_distinct fs1" "no_dirs fs1"
    using enqueue_ok[of ?e "made no_files" "''a''" one_place a_request] m by auto
  obtain fs2 where w2: "enqueue ?e ''b'' one_place a_request fs1 = (Inr (?j ''b''), fs2)" "job_at fs2 ''b'' = Some (?j ''b'')"
    "\<forall>k. k \<noteq> ''b'' \<longrightarrow> job_at fs2 k = job_at fs1 k" "\<forall>k. result_at fs2 k = result_at fs1 k"
    by (rule enqueue_ok[of ?e fs1 "''b''" one_place a_request]) (simp_all add: w1(6))
  have s1: "?step (no_files, [S_Begin, S_Begin]) (made no_files, [S_Write, S_Begin])"
    using s_check[of 0 "[S_Begin, S_Begin]" two_requests one_place no_files S_Write "made no_files"] both_look[of no_files] n by simp
  have s2: "?step (made no_files, [S_Write, S_Begin]) (made no_files, [S_Write, S_Write])"
    using s_check[of 1 "[S_Write, S_Begin]" two_requests one_place "made no_files" S_Write "made no_files"] both_look[of "made no_files"] m by simp
  have s3: "?step (made no_files, [S_Write, S_Write]) (fs1, [S_Return (Inr (?j ''a'')), S_Write])"
    using s_write[of 0 "[S_Write, S_Write]" two_requests one_place "made no_files"] w1(1) by simp
  have s4: "?step (fs1, [S_Return (Inr (?j ''a'')), S_Write]) (fs2, [S_Return (Inr (?j ''a'')), S_Return (Inr (?j ''b''))])"
    using s_write[of 1 "[S_Return (Inr (?j ''a'')), S_Write]" two_requests one_place fs1] w2(1) by simp
  have "?step\<^sup>*\<^sup>* (no_files, [S_Begin, S_Begin]) (fs2, [S_Return (Inr (?j ''a'')), S_Return (Inr (?j ''b''))])"
    using s1 s2 s3 s4 by (meson rtranclp.rtrancl_into_rtrancl rtranclp.rtrancl_refl)
  moreover have "pending_ids fs2 = {''a'', ''b''}"
    using w1(2-4) w2(2-4) by (auto simp: pending_ids_def claimed_def)
  ultimately show ?thesis using that by (simp add: two_requests_def)
qed


end
