(* ===== verification/Lottery.thy ===== *)
theory Lottery
  imports Waitingroom Stock Sha256
begin

text \<open>
  \<open>internal/lottery/service.go\<close>: pre-registration, the draw of access codes, their single use, and
  the opening of the general sale. The random order of the draw is the parameter \<open>shuffle\<close>.
\<close>

section \<open>Operations\<close>

definition PreRegister :: "env \<Rightarrow> string \<Rightarrow> string \<Rightarrow> db \<Rightarrow> nat result \<times> db" where
  "PreRegister e saleID userID d = exec_stmt (sql_fault e 0)
     (insert_prereg_or_nothing \<lparr>pr_sale_id = saleID, pr_user_id = userID, pr_registered_at = sql_now e\<rparr>) d"

definition hash_code :: "string \<Rightarrow> string" where
  "hash_code code = EncodeToString (Sum256 code)"

text \<open>
  Round \<open>j\<close> of the draw: identifier \<open>2 j\<close> is the access code, identifier \<open>2 j + 1\<close> the row's key,
  which the database generates.
\<close>

definition new_code :: "env \<Rightarrow> nat \<Rightarrow> string \<Rightarrow> string \<Rightarrow> code_row" where
  "new_code e j saleID userID =
     \<lparr>ac_id = new_uuid e (2 * j + 1), ac_sale_id = saleID, ac_user_id = userID,
      ac_code_hash = hash_code (new_uuid e (2 * j)), ac_used_at = None, ac_created_at = sql_now e\<rparr>"

fun draw_loop :: "env \<Rightarrow> nat \<Rightarrow> string \<Rightarrow> prereg_row list \<Rightarrow> db \<Rightarrow> (int \<times> error option) \<times> db" where
  "draw_loop e j saleID [] d = ((int j, None), d)"
| "draw_loop e j saleID (p # ps) d =
     (case exec_stmt (sql_fault e (Suc j)) (insert_code_or_nothing (new_code e j saleID (pr_user_id p))) d of
        (Inl err, d') \<Rightarrow> ((int j, Some err), d')
      | (Inr _, d') \<Rightarrow> draw_loop e (Suc j) saleID ps d')"

definition set_phase :: "sale_phase \<Rightarrow> (sale_row \<Rightarrow> sale_row) \<Rightarrow> string \<Rightarrow> db \<Rightarrow> (db \<times> nat) result" where
  "set_phase ph f saleID d =
     Inr (d\<lparr>sales := update_where (\<lambda>s. s_id s = saleID) (\<lambda>s. f (s\<lparr>s_phase := ph\<rparr>)) (sales d)\<rparr>,
          rows_affected (\<lambda>s. s_id s = saleID) (sales d))"

text \<open>\<open>Draw\<close>: a negative \<open>LIMIT\<close> is an error of the query; the error of the last statement is dropped.\<close>

definition Draw ::
  "(prereg_row list \<Rightarrow> prereg_row list) \<Rightarrow> env \<Rightarrow> string \<Rightarrow> int \<Rightarrow> db \<Rightarrow> (int \<times> error option) \<times> db" where
  "Draw shuffle e saleID winners d =
     (case query_rows (sql_fault e 0 \<or> winners < 0) (\<lambda>p. pr_sale_id p = saleID) (pre_registrations d) of
        Inl err \<Rightarrow> ((0, Some err), d)
      | Inr rows \<Rightarrow>
        (let drawn = take (nat winners) (shuffle rows) in
         case draw_loop e 0 saleID drawn d of
           ((cnt, Some err), d') \<Rightarrow> ((cnt, Some err), d')
         | ((cnt, None), d') \<Rightarrow>
             ((cnt, if sql_fault e (length drawn + 2) then Some SqlFault else None),
              snd (exec_stmt (sql_fault e (length drawn + 1)) (set_phase Presale id saleID) d'))))"

definition mark_used :: "int \<Rightarrow> string \<Rightarrow> db \<Rightarrow> (db \<times> nat) result" where
  "mark_used now cid d =
     Inr (d\<lparr>access_codes := update_where (\<lambda>c. ac_id c = cid) (\<lambda>c. c\<lparr>ac_used_at := Some now\<rparr>) (access_codes d)\<rparr>,
          rows_affected (\<lambda>c. ac_id c = cid) (access_codes d))"

definition ValidateAccessCode :: "env \<Rightarrow> string \<Rightarrow> string \<Rightarrow> string \<Rightarrow> db \<Rightarrow> bool \<times> db" where
  "ValidateAccessCode e saleID userID code d =
     (case query_row (sql_fault e 0)
             (\<lambda>c. ac_sale_id c = saleID \<and> ac_user_id c = userID \<and> ac_code_hash c = hash_code code
                \<and> ac_used_at c = None) (access_codes d) of
        Inl _ \<Rightarrow> (False, d)
      | Inr c \<Rightarrow> (True, snd (exec_stmt (sql_fault e 1) (mark_used (sql_now e) (ac_id c)) d)))"

definition OpenGeneralSale :: "env \<Rightarrow> string \<Rightarrow> db \<Rightarrow> nat result \<times> db" where
  "OpenGeneralSale e saleID d =
     exec_stmt (sql_fault e 0) (set_phase General_sale (\<lambda>s. s\<lparr>s_opens_at := sql_now e\<rparr>) saleID) d"

section \<open>Codes\<close>

definition codes_inv :: "db \<Rightarrow> bool" where
  "codes_inv d \<longleftrightarrow> distinct (map ac_id (access_codes d)) \<and> distinct (map ac_code_hash (access_codes d))"

lemma insert_code_inv:
  "insert_code_or_nothing r d = Inr (d', n) \<Longrightarrow> codes_inv d \<Longrightarrow> codes_inv d'"
  by (auto simp: insert_code_or_nothing_def codes_inv_def split: if_splits)

lemma draw_loop_inv: "draw_loop e j s ps d = (x, d') \<Longrightarrow> codes_inv d \<Longrightarrow> codes_inv d'"
proof (induction ps arbitrary: j d)
  case (Cons p ps)
  obtain y d1 where i: "exec_stmt (sql_fault e (Suc j)) (insert_code_or_nothing (new_code e j s (pr_user_id p))) d = (y, d1)"
    by fastforce
  have "codes_inv d1" using exec_stmt_effect[OF i] Cons.prems(2) by (auto dest: insert_code_inv)
  with Cons i show ?case by (auto split: sum.splits)
qed simp

text \<open>Everything the inserts of a draw of at most \<open>n\<close> codes rely on: fresh codes, no two alike.\<close>

definition may_draw :: "env \<Rightarrow> string \<Rightarrow> nat \<Rightarrow> db \<Rightarrow> bool" where
  "may_draw e s n d \<longleftrightarrow> no_faults e \<and> s \<in> s_id ` set (sales d)
     \<and> inj_on (\<lambda>j. new_uuid e (2 * j + 1)) {..<n} \<and> inj_on (\<lambda>j. hash_code (new_uuid e (2 * j))) {..<n}
     \<and> (\<forall>j<n. new_uuid e (2 * j + 1) \<notin> ac_id ` set (access_codes d)
           \<and> hash_code (new_uuid e (2 * j)) \<notin> ac_code_hash ` set (access_codes d))"

definition with_codes :: "env \<Rightarrow> string \<Rightarrow> prereg_row list \<Rightarrow> db \<Rightarrow> db" where
  "with_codes e s ps d = d\<lparr>access_codes := access_codes d @
     map (\<lambda>(j, p). new_code e j s (pr_user_id p)) (enumerate 0 ps)\<rparr>"

lemma enumerate_of_map: "enumerate n (map f xs) = map (\<lambda>(j, x). (j, f x)) (enumerate n xs)"
  by (induction xs arbitrary: n) auto

lemma with_codes_snoc:
  "with_codes e s (ps @ [p]) d = (with_codes e s ps d)\<lparr>access_codes :=
     access_codes (with_codes e s ps d) @ [new_code e (length ps) s (pr_user_id p)]\<rparr>"
  by (simp add: with_codes_def enumerate_append_eq)

lemma codes_of:
  "ac_id ` set (access_codes (with_codes e s ps d)) =
     ac_id ` set (access_codes d) \<union> (\<lambda>j. new_uuid e (2 * j + 1)) ` {..<length ps}
   \<and> ac_code_hash ` set (access_codes (with_codes e s ps d)) =
     ac_code_hash ` set (access_codes d) \<union> (\<lambda>j. hash_code (new_uuid e (2 * j))) ` {..<length ps}"
proof (induction ps rule: rev_induct)
  case (snoc p ps)
  then show ?case by (simp add: with_codes_snoc lessThan_Suc new_code_def)
qed (simp add: with_codes_def)

lemma draw_loop_all:
  assumes m: "may_draw e s n d"
  shows "length (qs @ ps) \<le> n \<Longrightarrow> \<forall>p\<in>set ps. pr_user_id p \<in> u_id ` set (users d) \<Longrightarrow>
    draw_loop e (length qs) s ps (with_codes e s qs d)
      = ((int (length (qs @ ps)), None), with_codes e s (qs @ ps) d)"
proof (induction ps arbitrary: qs)
  case (Cons p ps)
  let ?r = "new_code e (length qs) s (pr_user_id p)" and ?d = "with_codes e s qs d"
  have "length qs < n" using Cons.prems(1) by simp
  then have "ac_id ?r \<notin> ac_id ` set (access_codes ?d)" "ac_code_hash ?r \<notin> ac_code_hash ` set (access_codes ?d)"
    using m unfolding codes_of[THEN conjunct1] codes_of[THEN conjunct2] may_draw_def
    by (auto simp: new_code_def dest: inj_onD)
  moreover have "ac_sale_id ?r \<in> s_id ` set (sales ?d)" "ac_user_id ?r \<in> u_id ` set (users ?d)"
    using m Cons.prems by (auto simp: may_draw_def with_codes_def new_code_def)
  ultimately have "exec_stmt (sql_fault e (Suc (length qs))) (insert_code_or_nothing ?r) ?d
      = (Inr 1, with_codes e s (qs @ [p]) d)"
    using m by (simp add: exec_stmt_def insert_code_or_nothing_def may_draw_def with_codes_snoc)
  with Cons.IH[of "qs @ [p]"] Cons.prems show ?case by simp
qed (simp add: with_codes_def)

section \<open>Properties\<close>

text \<open>
  C40. \<^bold>\<open>The draw.\<close> With no failing statement and fresh codes, \<open>Draw\<close> picks as many distinct
  pre-registered users of the sale as asked for, or all of them, writes one unused access code
  for each, reports that number and opens the presale; it changes nothing else. The codes
  themselves are neither returned nor stored, only their hashes are.
\<close>

theorem draw_gives_each_winner_a_code:
  assumes "may_draw e s (nat winners) d" and "delivers shuffle" and "0 \<le> winners"
    and "distinct (map (\<lambda>p. (pr_sale_id p, pr_user_id p)) (pre_registrations d))"
    and "\<forall>p\<in>set (pre_registrations d). pr_user_id p \<in> u_id ` set (users d)"
  shows "\<exists>won. fst (Draw shuffle e s winners d) = (int (length won), None)
    \<and> length won = min (nat winners) (length (filter (\<lambda>p. pr_sale_id p = s) (pre_registrations d)))
    \<and> distinct won \<and> set won \<subseteq> pr_user_id ` {p \<in> set (pre_registrations d). pr_sale_id p = s}
    \<and> snd (Draw shuffle e s winners d) = d\<lparr>
        access_codes := access_codes d @ map (\<lambda>(j, u). new_code e j s u) (enumerate 0 won),
        sales := map (\<lambda>r. if s_id r = s then r\<lparr>s_phase := Presale\<rparr> else r) (sales d)\<rparr>"
proof -
  let ?rows = "filter (\<lambda>p. pr_sale_id p = s) (pre_registrations d)"
  define drawn where "drawn = take (nat winners) (shuffle ?rows)"
  have nf: "no_faults e" using assms(1) by (simp add: may_draw_def)
  have b: "set drawn \<subseteq> {p \<in> set (pre_registrations d). pr_sale_id p = s}"
    "distinct (map (\<lambda>p. (pr_sale_id p, pr_user_id p)) drawn)"
    using delivered_batch[OF assms(2,4)] unfolding drawn_def by blast+
  have len: "length drawn = min (nat winners) (length ?rows)"
    using assms(2) unfolding delivers_def drawn_def by (metis length_take min.commute size_mset)
  have dist: "distinct (map pr_user_id drawn)"
    using b unfolding distinct_map inj_on_def by (auto 4 3)
  have "\<forall>p\<in>set drawn. pr_user_id p \<in> u_id ` set (users d)" using assms(5) b(1) by blast
  note D = draw_loop_all[OF assms(1) _ this, of "[]"]
  have loop: "draw_loop e 0 s drawn d = ((int (length drawn), None), with_codes e s drawn d)"
    using D len by (simp add: with_codes_def)
  have codes: "map (\<lambda>(j, p). new_code e j s (pr_user_id p)) (enumerate 0 drawn)
      = map (\<lambda>(j, u). new_code e j s u) (enumerate 0 (map pr_user_id drawn))"
    by (simp add: enumerate_of_map comp_def case_prod_beta)
  have "Draw shuffle e s winners d = ((int (length drawn), None), snd (exec_stmt False (set_phase Presale id s) (with_codes e s drawn d)))"
    using nf assms(3) loop by (simp add: Draw_def query_rows_def drawn_def[symmetric])
  moreover have "pr_user_id ` set drawn \<subseteq> pr_user_id ` {p \<in> set (pre_registrations d). pr_sale_id p = s}"
    using b(1) by blast
  ultimately show ?thesis
    using dist len codes
    by (intro exI[of _ "map pr_user_id drawn"])
      (simp add: exec_stmt_def set_phase_def with_codes_def update_where_def)
qed

definition demo_lottery :: db where
  "demo_lottery = demo_db\<lparr>pre_registrations :=
     [\<lparr>pr_sale_id = ''A'', pr_user_id = ''u1'', pr_registered_at = 0\<rparr>,
      \<lparr>pr_sale_id = ''A'', pr_user_id = ''u2'', pr_registered_at = 0\<rparr>]\<rparr>"

theorem draw_gives_each_winner_a_code_witness:
  "fst (Draw rev (calm_env 9 ''c'') ''A'' 1 demo_lottery) = (1, None)
   \<and> length (access_codes (snd (Draw rev (calm_env 9 ''c'') ''A'' 1 demo_lottery))) = 1"
proof -
  have l: "access_codes demo_lottery = []"
    "pre_registrations demo_lottery = [\<lparr>pr_sale_id = ''A'', pr_user_id = ''u1'', pr_registered_at = 0\<rparr>,
      \<lparr>pr_sale_id = ''A'', pr_user_id = ''u2'', pr_registered_at = 0\<rparr>]"
    "s_id ` set (sales demo_lottery) = {''A'', ''B''}" "u_id ` set (users demo_lottery) = {''u1'', ''u2''}"
    by (simp_all add: demo_lottery_def demo_defs)
  have "may_draw (calm_env 9 ''c'') ''A'' (nat 1) demo_lottery"
    by (simp add: may_draw_def l lessThan_Suc)
  moreover have "delivers (rev :: prereg_row list \<Rightarrow> prereg_row list)" by (simp add: delivers_def)
  ultimately show ?thesis
    using draw_gives_each_winner_a_code[of "calm_env 9 ''c''" "''A''" 1 demo_lottery rev]
    by (auto simp: l)
qed

text \<open>
  \<^bold>\<open>Access codes work once.\<close> After a code has been accepted, and its row been marked, every later
  validation of the same code for the sale and user is refused. (When the marking fails, its error is
  dropped and the code stays valid.)
\<close>

theorem access_code_single_use:
  assumes "codes_inv d" and "ValidateAccessCode e s u code d = (True, d')" and "\<not> sql_fault e 1"
  shows "ValidateAccessCode e' s u code d' = (False, d')"
proof -
  let ?p = "\<lambda>c. ac_sale_id c = s \<and> ac_user_id c = u \<and> ac_code_hash c = hash_code code \<and> ac_used_at c = None"
  obtain c where c: "c \<in> set (access_codes d)" "?p c"
    and d': "d' = d\<lparr>access_codes := update_where (\<lambda>x. ac_id x = ac_id c) (\<lambda>c. c\<lparr>ac_used_at := Some (sql_now e)\<rparr>) (access_codes d)\<rparr>"
    using assms(2,3)
    by (auto simp: ValidateAccessCode_def query_row_def exec_stmt_def mark_used_def
        split: if_splits option.splits sum.splits dest!: find_SomeD)
  have "x = c" if "x \<in> set (access_codes d)" "?p x" for x
    using assms(1) distinct_map_inj[of ac_code_hash "access_codes d" x c] that c by (simp add: codes_inv_def)
  then have "find ?p (access_codes d') = None"
    unfolding find_None_iff d' by (auto simp: set_update_where split: if_splits)
  then show ?thesis by (simp add: ValidateAccessCode_def query_row_def)
qed

definition demo_coded :: db where
  "demo_coded = demo_lottery\<lparr>access_codes :=
     [\<lparr>ac_id = ''c1'', ac_sale_id = ''A'', ac_user_id = ''u1'', ac_code_hash = hash_code ''code'',
       ac_used_at = None, ac_created_at = 0\<rparr>]\<rparr>"

theorem access_code_single_use_witness:
  "\<exists>d'. ValidateAccessCode (calm_env 9 ''v'') ''A'' ''u1'' ''code'' demo_coded = (True, d')
     \<and> ValidateAccessCode (calm_env 10 ''w'') ''A'' ''u1'' ''code'' d' = (False, d')"
proof -
  have i: "codes_inv demo_coded" by (simp add: codes_inv_def demo_coded_def)
  have "fst (ValidateAccessCode (calm_env 9 ''v'') ''A'' ''u1'' ''code'' demo_coded)"
    by (simp add: ValidateAccessCode_def query_row_def demo_coded_def)
  then obtain d' where "ValidateAccessCode (calm_env 9 ''v'') ''A'' ''u1'' ''code'' demo_coded = (True, d')"
    by (metis prod.collapse)
  with access_code_single_use[OF i this] show ?thesis by simp
qed

text \<open>
  \<^bold>\<open>Opening the general sale\<close> makes the waiting room accept joins: from the moment of the update on,
  for every clock that is not behind the database's, the sale is open for the queue.
\<close>

theorem general_sale_opens_queue:
  assumes "OpenGeneralSale e s d = (Inr n, d')" and "getSale False s d = Inr info" and "sql_now e \<le> now"
  shows "\<exists>info'. getSale False s d' = Inr info' \<and> Phase info' = General_sale \<and> saleOpenForQueue now info'
    \<and> WaitingRoomCap info' = WaitingRoomCap info"
proof -
  obtain r where r: "find (\<lambda>x. s_id x = s) (sales d) = Some r" "WaitingRoomCap info = s_waiting_room_cap r"
    using assms(2) by (auto simp: getSale_def query_row_def split: option.splits)
  let ?f = "\<lambda>x. if s_id x = s then x\<lparr>s_phase := General_sale, s_opens_at := sql_now e\<rparr> else x"
  have "sales d' = map ?f (sales d)"
    using assms(1) by (auto simp: OpenGeneralSale_def exec_stmt_def set_phase_def update_where_def split: if_splits)
  moreover have "find (\<lambda>x. s_id x = s) (map ?f (sales d)) = Some (?f r)"
    using r(1) find_map_same[of "\<lambda>x. s_id x = s" ?f "sales d"] by simp
  ultimately show ?thesis
    using r assms(3) find_SomeD[OF r(1)] by (simp add: getSale_def query_row_def saleOpenForQueue_def)
qed

theorem general_sale_opens_queue_witness:
  "\<exists>info. getSale False ''A'' (snd (OpenGeneralSale (calm_env 50 ''o'') ''A'' demo_db)) = Inr info
     \<and> saleOpenForQueue 60 info \<and> \<not> (\<exists>i. getSale False ''A'' demo_db = Inr i \<and> saleOpenForQueue 60 i)"
proof -
  have g: "getSale False ''A'' demo_db = Inr \<lparr>Phase = General_sale, OpensAt = 100, AdmitPerMinute = 60, WaitingRoomCap = 2\<rparr>"
    by (simp add: getSale_def query_row_def demo_defs)
  obtain n d' where o: "OpenGeneralSale (calm_env 50 ''o'') ''A'' demo_db = (Inr n, d')"
    by (simp add: OpenGeneralSale_def exec_stmt_def set_phase_def)
  from general_sale_opens_queue[OF o g, of 60] g o show ?thesis
    by (auto simp: saleOpenForQueue_def split: if_splits)
qed

end
