(* ===== verification/Spec2Isabelle.thy ===== *)
theory Spec2Isabelle
  imports Site Journey Checkout_Race Stock_Race Run_Order Join_Race Submit_Race Lottery Sha256
begin

text \<open>
  \<^bold>\<open>Selling concert tickets through a waiting room.\<close> The program (Go, module
  \<open>github.com/arkin/traffic\<close>) is an HTTP API in front of PostgreSQL and Redis, a worker that runs
  every five seconds, and a few command line tools. Users register, join the waiting room of a sale,
  poll until the worker's admission window reaches their position, and use the admission token they
  then get to hold seats and to check out. A demo page drives all of this: a simulation engine inside the
  API process sends traffic to the API itself, and load tests are queued as files in a directory from
  which a separate runner takes them, one at a time, and starts \<open>k6\<close>.

  \<^bold>\<open>Theories, and the code they model.\<close>

  \<^item> \<open>Prelude\<close>: Go's 64-bit arithmetic, errors as values, the environment of a call, sequences of
    calls. An \<open>env\<close> holds what a call cannot control: the clocks of the process, of PostgreSQL and of
    Redis, the random identifiers it draws, and for each statement whether it fails.
  \<^item> \<open>Redis\<close>: the commands of \<open>go-redis\<close> that the program uses, as a record of functions; the locale
    \<open>redis_server\<close> states their documented effect, \<open>redis_reliable\<close> adds that no command fails. An
    in-memory server interprets both. \<open>Keys\<close> is \<open>internal/redisclient/redis.go\<close>.
  \<^item> \<open>Schema\<close>: \<open>migrations/001_init.sql\<close>. A table is the list of its rows; an \<open>INSERT\<close> or \<open>DELETE\<close>
    checks the constraints of the schema; in a transaction block a failed statement aborts the block
    and \<open>COMMIT\<close> then rolls back.
  \<^item> \<open>World\<close>: the whole state (database, Redis, the metrics of \<open>internal/metrics/metrics.go\<close>), and
    the small database the examples run on.
  \<^item> \<open>Config\<close>: \<open>internal/config/config.go\<close> and the pool sizes of \<open>internal/db/db.go\<close> (\<open>Connect_pool\<close>; the
    rest of that file is in \<open>Process\<close>).
  \<^item> \<open>Auth\<close>: \<open>internal/auth\<close>, over a JWT library whose laws are the locales \<open>jwt_library\<close> and
    \<open>jwt_signing\<close>; a concrete token code interprets them.
  \<^item> \<open>Antibot\<close>: \<open>internal/antibot/limiter.go\<close>.
  \<^item> \<open>Waitingroom\<close>: \<open>internal/waitingroom/service.go\<close>.
  \<^item> \<open>Join_Race\<close>: the same \<open>Join\<close>, split at its calls to the two servers and interleaved.
  \<^item> \<open>Inventory\<close> and \<open>Stock\<close>: \<open>internal/inventory/service.go\<close> and its invariant. \<open>Stock_Race\<close>: \<open>Hold\<close> and
    \<open>ReleaseExpired\<close> split at their queries and transactions (\<open>stock_move\<close>) and interleaved.
  \<^item> \<open>Sha256\<close>, \<open>Orders\<close>: \<open>internal/orders/service.go\<close>, with the hash of the standard library.
  \<^item> \<open>Lottery\<close>: \<open>internal/lottery/service.go\<close>.
  \<^item> \<open>Worker\<close>: \<open>cmd/worker/main.go\<close>. \<open>Assert_Queue\<close>: \<open>cmd/assert-queue/main.go\<close>.
  \<^item> \<open>Json\<close>, \<open>Httpapi\<close>: request bodies, handlers, middleware and routes of
    \<open>internal/httpapi/handlers.go\<close>.
  \<^item> \<open>System\<close>: the API and the worker on one state, as a sequence of requests and ticks.
    \<open>Checkout_Race\<close>: the checkout handler split at its calls (\<open>checkout_move\<close>) and interleaved with itself and
    the rest of the system.
  \<^item> \<open>Clock\<close>, \<open>Duration\<close>: what the program uses of Go's package \<open>time\<close>: the calendar, \<open>RFC3339\<close> in
    both directions, durations in both directions.
  \<^item> \<open>Loadtest\<close>: \<open>internal/loadtest/job.go\<close> and \<open>limits.go\<close>, with the JSON of jobs and results.
    \<open>Store\<close>: \<open>internal/loadtest/store.go\<close> over two directories whose operations may fail. \<open>Runner\<close>:
    \<open>internal/loadtest/service.go\<close> and \<open>cmd/loadtest-runner/main.go\<close>; \<open>k6\<close> is a parameter, a function of
    its environment and the directories. \<open>Loadqueue\<close>: what API and runner guarantee together.
    \<open>Submit_Race\<close>: the same \<open>Submit\<close>, split at its check and interleaved with itself and the runner.
    \<open>Run_Steps\<close>: a round of the runner in its steps (\<open>run_move\<close>), between which the API writes jobs and the
    process can die. \<open>Run_Order\<close>: the order of the runs and of the list of results.
  \<^item> \<open>Simulation\<close>: \<open>internal/simulation/engine.go\<close>; the HTTP client is a parameter, and the goroutines are
    part of the engine's state (\<open>en_loops\<close>), one step for each pass, return or call (\<open>sim_step\<close>).
  \<^item> \<open>Dashboard\<close>: \<open>internal/dashboard/stats.go\<close>.
  \<^item> \<open>Demo\<close>: \<open>internal/httpapi/simulation_handlers.go\<close> and \<open>loadtest_handlers.go\<close>, the routes below
    \<open>/v1/demo\<close>, the wiring of \<open>cmd/api/main.go\<close>, and the API as the server of the engine's client
    (\<open>api_client\<close>): a request's path is looked up in the table of \<open>Routes\<close> and served by \<open>serve\<close>.
  \<^item> \<open>Process\<close>: the \<open>main\<close> functions below \<open>cmd/\<close>: connecting (\<open>internal/db/db.go\<close>,
    \<open>internal/redisclient/redis.go\<close>, over \<open>pgxpool\<close> and \<open>go-redis\<close> as parameters), the command line of the
    audit, the loops over ticks and signals, exit statuses and the deferred calls that run
    (\<open>worker_main\<close>, \<open>assert_main\<close>, \<open>runner_main\<close>, \<open>api_main\<close> and \<open>api_step\<close>); and the deployment of the
    three long-running programs with their crashes and restarts (\<open>deploy_exec\<close>).
  \<^item> \<open>Site\<close>: the complete table of \<open>Routes\<close>, with the demo, \<open>internal/httpapi/static.go\<close> and the metrics.
    \<open>Journey\<close>: no code of its own; what the components give a user together.

  \<^bold>\<open>How state and operations correspond.\<close> A method that talks to the database or Redis becomes a
  function of its arguments, the environment of the call and the state, and returns the result (a
  sum of an error and a value) with the new state. Statement number \<open>k\<close> of a call fails when
  \<open>sql_fault e k\<close> says so; every early return, dropped error and fallback of the code is a branch.
  Orders that the database leaves open (\<open>LIMIT\<close> without \<open>ORDER BY\<close>, \<open>random()\<close>) are a parameter
  \<open>pick\<close> of which only \<open>delivers\<close> is assumed: it permutes the rows. Identifiers are strings, times are
  nanoseconds.

  \<^bold>\<open>What the lemmas show.\<close>

  \<^item> \<open>Waitingroom\<close>: \<open>Join\<close> implements an abstract queue of numbered users (\<open>abs_join\<close>), keeps the
    queue invariant under every fault, keeps places and gives them in the order of arrival; the answer
    of \<open>Status\<close>, and that admission follows the positions and is permanent.
  \<^item> \<open>Join_Race\<close>: by rule induction over all interleavings, positions are unique and follow the
    draws; the capacity is exceeded by fewer than the requests that race; and an interleaving that
    exceeds it and makes the audit fail.
  \<^item> \<open>Stock\<close>: the stock invariant (a seat is held exactly when one hold names it) holds through every
    sequence of holds, releases and seat creations, which the locale \<open>keeper\<close> carries from single
    calls to runs; the exact effect of each operation.
  \<^item> \<open>Stock_Race\<close>: by rule induction over all interleavings of any number of holds and one worker, no seat
    is booked twice; a second worker breaks this, and two requests of one user both get their holds.
  \<^item> \<open>Orders\<close>: what a checkout would write, what it answers, and that its transaction never commits:
    the hold it deletes is referenced by the order it has just inserted.
  \<^item> \<open>Worker\<close>: the exact admission window after any number of ticks; everyone is admitted after at most
    as many ticks as the position, and users who come late do not wait at all when the window has run
    ahead.
  \<^item> \<open>Assert_Queue\<close>: the audit's two scans find an inversion exactly when there is one.
  \<^item> \<open>Lottery\<close>, \<open>Antibot\<close>, \<open>Auth\<close>, \<open>Config\<close>: the effect of a draw, of a code and of the opening of
    the sale; the limiter over a series of calls; lifetimes of tokens; parsing of numbers.
  \<^item> \<open>System\<close>: the invariants of the components hold together through every run; who gets past which
    middleware; one checkout for one token, which \<open>Checkout_Race\<close> extends to requests that race.
  \<^item> \<open>Clock\<close>, \<open>Duration\<close>, \<open>Loadtest\<close>: printing and parsing are inverse; what limits make of a request.
  \<^item> \<open>Store\<close>, \<open>Runner\<close>, \<open>Loadqueue\<close>: a file is replaced at once or not at all; the operations over a
    directory, in terms of the views \<open>job_at\<close>, \<open>result_at\<close>, \<open>pending_ids\<close> and \<open>running_ids\<close>; the bound of
    the queue through any sequence of submissions and ticks (again by \<open>keeper\<close>); the runner empties the
    queue; what becomes of runs without a summary and of interrupted runs.
  \<^item> \<open>Submit_Race\<close>: by rule induction over all interleavings, submissions that race exceed the bound of
    the queue by fewer than their number, and two of them do exceed it.
  \<^item> \<open>Run_Steps\<close>, \<open>Run_Order\<close>: a run is started once however the API interferes, unless the runner dies at
    the wrong moment; between the end of \<open>k6\<close> and the stored result the API sees the run as pending; the
    oldest job runs first.
  \<^item> \<open>Simulation\<close>: the loops that run are those of the configuration, in every reachable state; two
    overlapping updates can leave loops that nothing stops; the counters.
  \<^item> \<open>Dashboard\<close>, \<open>Demo\<close>: how the numbers of the page are ordered; the traffic of the engine keeps the
    invariants of \<open>System\<close>; setting up a sale through the API, and what a refused setup looks like.
  \<^item> \<open>Process\<close>: the invariants of \<open>System\<close> and of the engine through every history of the deployment; the
    worker keeps nothing in memory; what the status of the audit means.
  \<^item> \<open>Site\<close>: what a client without any credential can change. \<open>Journey\<close>: from login and waiting room to
    the seats.

  \<^bold>\<open>Bounds and fuel.\<close> No definition needs fuel: every loop of the code runs over rows, seats, files or a
  fixed number of rounds (\<open>stream_loop\<close> counts the five polls of \<open>queueStream\<close> down), and the endless
  loops of the worker, of the runner and of the engine are sequences of their ticks. \<open>int\<close> values that
  the code computes are wrapped to 64 bits (\<open>int64\<close>) where they can leave the range. A fault of the file
  system is a property of an operation and its path during one call. Instants are kept without their
  time zone; the fractions of a duration are exact where the library rounds a \<open>float64\<close> product.

  \<^bold>\<open>Not modelled.\<close> The text of JSON bodies, of log lines and of printed reports; the contents of the
  embedded files, the format of the metrics page and the timeouts of the HTTP server, which belong to the
  libraries that serve them; \<open>k6\<close> and its scripts. PostgreSQL's isolation is modelled as far as the order of
  statements of different connections goes: \<open>Join\<close>, \<open>Hold\<close>, \<open>ReleaseExpired\<close>, the checkout handler, \<open>Submit\<close>, the runner's round
  and the engine's \<open>Update\<close> are interleaved, a transaction block and a pass of an engine's loop are one step each.
  The size of the connection pool never delays a call. Paths with a trailing slash, directories that are
  not clean and run identifiers with a slash are outside the model of the load-test files.
\<close>

end
